(* ===== verification/Prelude.thy ===== *)
theory Prelude
  imports Main "HOL-Library.Word" "HOL-Library.List_Lexorder" "HOL-Library.Char_ord"
begin

text \<open>
  Shared vocabulary of the development: the collections of rewrite rules the
  component theories fill, fallible computations as sums with their sequencing
  and loop combinators, three-way comparison, and the generic facts on
  association lists that the document and table models rest on.

  Conventions.  A Rust \<^verbatim>\<open>String\<close> is a \<^typ>\<open>string\<close> whose characters are its UTF-8
  bytes; a \<^verbatim>\<open>Vec<u8>\<close> is a list of \<open>byte\<close>s; \<^verbatim>\<open>Result<T, E>\<close> is \<open>'e + 'a\<close> with
  \<^term>\<open>Inl\<close> for the error; the \<^verbatim>\<open>?\<close> operator is \<open>res_bind\<close>.
\<close>

named_theorems res_simps \<open>equations of the fallible loop combinators\<close>
named_theorems doc_simps \<open>how document operations read and write keys\<close>
named_theorems cmp_simps \<open>three-way comparison in terms of the linear order\<close>

type_synonym byte = "8 word"
type_synonym bytes = "byte list"

section \<open>Fallible computations\<close>

definition res_bind :: "'e + 'a \<Rightarrow> ('a \<Rightarrow> 'e + 'b) \<Rightarrow> 'e + 'b" where
  "res_bind r f = (case r of Inl e \<Rightarrow> Inl e | Inr x \<Rightarrow> f x)"

lemma res_bind_simps [simp]:
  "res_bind (Inl e) f = Inl e"
  "res_bind (Inr x) f = f x"
  by (simp_all add: res_bind_def)

lemma res_bind_cong [fundef_cong]:
  assumes "r = r'" and "\<And>x. r' = Inr x \<Longrightarrow> f x = g x"
  shows "res_bind r f = res_bind r' g"
  using assms by (cases r') simp_all

lemma res_bind_eq_Inr [simp]:
  "res_bind r f = Inr y \<longleftrightarrow> (\<exists>x. r = Inr x \<and> f x = Inr y)"
  by (cases r) simp_all

lemma res_bind_eq_Inl:
  "res_bind r f = Inl e \<longleftrightarrow> r = Inl e \<or> (\<exists>x. r = Inr x \<and> f x = Inl e)"
  by (cases r) simp_all

lemma res_bind_assoc: "res_bind (res_bind r f) g = res_bind r (\<lambda>x. res_bind (f x) g)"
  by (cases r) simp_all

text \<open>\<^verbatim>\<open>opt.ok_or(e)\<close>.\<close>

definition ok_or :: "'e \<Rightarrow> 'a option \<Rightarrow> 'e + 'a" where
  "ok_or e v = (case v of None \<Rightarrow> Inl e | Some x \<Rightarrow> Inr x)"

lemma ok_or_simps [simp]: "ok_or e None = Inl e" "ok_or e (Some x) = Inr x"
  by (simp_all add: ok_or_def)

lemma ok_or_eq_Inr [simp]: "ok_or e v = Inr x \<longleftrightarrow> v = Some x"
  by (cases v) simp_all

text \<open>\<^verbatim>\<open>result.unwrap_or(d)\<close>.\<close>

definition unwrap_or :: "'a \<Rightarrow> 'e + 'a \<Rightarrow> 'a" where
  "unwrap_or d r = (case r of Inl _ \<Rightarrow> d | Inr x \<Rightarrow> x)"

lemma unwrap_or_simps [simp]: "unwrap_or d (Inl e) = d" "unwrap_or d (Inr x) = x"
  by (simp_all add: unwrap_or_def)

text \<open>\<^verbatim>\<open>option.unwrap_or(d)\<close>.\<close>

primrec opt_or :: "'a \<Rightarrow> 'a option \<Rightarrow> 'a" where
  "opt_or d None = d"
| "opt_or d (Some x) = x"

text \<open>\<^verbatim>\<open>result.map_err(f)\<close>.\<close>

definition map_err :: "('e \<Rightarrow> 'f) \<Rightarrow> 'e + 'a \<Rightarrow> 'f + 'a" where
  "map_err f r = (case r of Inl e \<Rightarrow> Inl (f e) | Inr x \<Rightarrow> Inr x)"

lemma map_err_simps [simp]: "map_err f (Inl e) = Inl (f e)" "map_err f (Inr x) = Inr x"
  by (simp_all add: map_err_def)

lemma map_err_eq_Inr [simp]: "map_err f r = Inr x \<longleftrightarrow> r = Inr x"
  by (cases r) simp_all

text \<open>
  The three shapes of loop the sources use: \<^verbatim>\<open>for x in xs { if !f(x)? { return Ok(false) } }
  Ok(true)\<close>, its dual that returns on the first success, and
  \<^verbatim>\<open>for x in xs { s = f(s, x)?; } Ok(s)\<close>.
\<close>

fun all_res :: "('a \<Rightarrow> 'e + bool) \<Rightarrow> 'a list \<Rightarrow> 'e + bool" where
  "all_res f [] = Inr True"
| "all_res f (x # xs) = res_bind (f x) (\<lambda>b. if b then all_res f xs else Inr False)"

fun any_res :: "('a \<Rightarrow> 'e + bool) \<Rightarrow> 'a list \<Rightarrow> 'e + bool" where
  "any_res f [] = Inr False"
| "any_res f (x # xs) = res_bind (f x) (\<lambda>b. if b then Inr True else any_res f xs)"

fun fold_res :: "('s \<Rightarrow> 'a \<Rightarrow> 'e + 's) \<Rightarrow> 's \<Rightarrow> 'a list \<Rightarrow> 'e + 's" where
  "fold_res f s [] = Inr s"
| "fold_res f s (x # xs) = res_bind (f s x) (\<lambda>s'. fold_res f s' xs)"

fun map_res :: "('a \<Rightarrow> 'e + 'b) \<Rightarrow> 'a list \<Rightarrow> 'e + 'b list" where
  "map_res f [] = Inr []"
| "map_res f (x # xs) = res_bind (f x) (\<lambda>y. res_bind (map_res f xs) (\<lambda>ys. Inr (y # ys)))"

lemma all_res_cong [fundef_cong]:
  "xs = ys \<Longrightarrow> (\<And>x. x \<in> set ys \<Longrightarrow> f x = g x) \<Longrightarrow> all_res f xs = all_res g ys"
  by (induction ys arbitrary: xs) (auto intro: res_bind_cong)

lemma any_res_cong [fundef_cong]:
  "xs = ys \<Longrightarrow> (\<And>x. x \<in> set ys \<Longrightarrow> f x = g x) \<Longrightarrow> any_res f xs = any_res g ys"
  by (induction ys arbitrary: xs) (auto intro: res_bind_cong)

lemma map_res_cong [fundef_cong]:
  "xs = ys \<Longrightarrow> (\<And>x. x \<in> set ys \<Longrightarrow> f x = g x) \<Longrightarrow> map_res f xs = map_res g ys"
  by (induction ys arbitrary: xs) (auto intro: res_bind_cong)

lemma all_res_Inr_True [res_simps]:
  "all_res f xs = Inr True \<longleftrightarrow> (\<forall>x \<in> set xs. f x = Inr True)"
  by (induction xs) (auto split: if_splits)

lemma all_res_pure [res_simps]: "all_res (\<lambda>x. Inr (p x)) xs = Inr (list_all p xs)"
  by (induction xs) auto

lemma any_res_pure [res_simps]: "any_res (\<lambda>x. Inr (p x)) xs = Inr (list_ex p xs)"
  by (induction xs) auto

lemma any_res_Inr_False [res_simps]:
  "any_res f xs = Inr False \<longleftrightarrow> (\<forall>x \<in> set xs. f x = Inr False)"
  by (induction xs) (auto split: if_splits)

lemma any_res_Inr_TrueD: "any_res f xs = Inr True \<Longrightarrow> \<exists>x \<in> set xs. f x = Inr True"
  by (induction xs) (auto split: if_splits)

lemma all_res_single: "all_res f [x] = f x"
  by (cases "f x") (auto simp: res_bind_def)

lemma any_res_single: "any_res f [x] = f x"
  by (cases "f x") (auto simp: res_bind_def)

lemma all_res_map: "all_res f (map g xs) = all_res (\<lambda>x. f (g x)) xs"
  by (induction xs) (auto intro!: res_bind_cong)

lemma any_res_map: "any_res f (map g xs) = any_res (\<lambda>x. f (g x)) xs"
  by (induction xs) (auto intro!: res_bind_cong)

lemma all_res_append:
  "all_res f (xs @ ys) = res_bind (all_res f xs) (\<lambda>b. if b then all_res f ys else Inr False)"
  by (induction xs) (auto simp: res_bind_assoc intro!: res_bind_cong)

lemma fold_res_append:
  "fold_res f s (xs @ ys) = res_bind (fold_res f s xs) (\<lambda>s'. fold_res f s' ys)"
  by (induction xs arbitrary: s) (auto simp: res_bind_assoc)

lemma fold_res_invariant:
  assumes "fold_res f s xs = Inr t" and "P s"
    and "\<And>s x s'. x \<in> set xs \<Longrightarrow> P s \<Longrightarrow> f s x = Inr s' \<Longrightarrow> P s'"
  shows "P t"
  using assms
proof (induction xs arbitrary: s)
  case (Cons x xs)
  from Cons.prems(1) obtain s' where s': "f s x = Inr s'" "fold_res f s' xs = Inr t"
    by auto
  have "P s'" using Cons.prems(2,3) s'(1) by auto
  with Cons.IH [OF s'(2)] Cons.prems(3) show ?case by auto
qed simp

lemma fold_res_cong [fundef_cong]:
  "xs = ys \<Longrightarrow> s = t \<Longrightarrow> (\<And>s x. x \<in> set ys \<Longrightarrow> f s x = g s x) \<Longrightarrow> fold_res f s xs = fold_res g t ys"
  by (induction ys arbitrary: xs s t) (auto intro: res_bind_cong)

text \<open>A loop that returns the first value its body finds.\<close>

fun first_res :: "('a \<Rightarrow> 'e + 'b option) \<Rightarrow> 'a list \<Rightarrow> 'e + 'b option" where
  "first_res f [] = Inr None"
| "first_res f (x # xs) = res_bind (f x) (\<lambda>r. case r of Some y \<Rightarrow> Inr (Some y) | None \<Rightarrow> first_res f xs)"

lemma first_res_cong [fundef_cong]:
  "xs = ys \<Longrightarrow> (\<And>x. x \<in> set ys \<Longrightarrow> f x = g x) \<Longrightarrow> first_res f xs = first_res g ys"
  by (induction ys arbitrary: xs) (auto intro!: res_bind_cong split: option.splits)

text \<open>A loop that only checks: \<^verbatim>\<open>for x in xs { f(x)?; }\<close>.\<close>

fun each_res :: "('a \<Rightarrow> 'e + unit) \<Rightarrow> 'a list \<Rightarrow> 'e + unit" where
  "each_res f [] = Inr ()"
| "each_res f (x # xs) = res_bind (f x) (\<lambda>_. each_res f xs)"

lemma each_res_cong [fundef_cong]:
  "xs = ys \<Longrightarrow> (\<And>x. x \<in> set ys \<Longrightarrow> f x = g x) \<Longrightarrow> each_res f xs = each_res g ys"
  by (induction ys arbitrary: xs) (auto intro!: res_bind_cong)

lemma each_res_ok [simp]: "each_res f xs = Inr u \<longleftrightarrow> (\<forall>x \<in> set xs. f x = Inr ())"
  by (induction xs) auto

definition is_ok :: "'e + 'a \<Rightarrow> bool" where
  "is_ok r = (case r of Inr _ \<Rightarrow> True | Inl _ \<Rightarrow> False)"

lemma is_ok_simps [simp]: "is_ok (Inr x)" "\<not> is_ok (Inl e)"
  by (simp_all add: is_ok_def)

lemma is_ok_unit: "is_ok (r :: 'e + unit) \<longleftrightarrow> r = Inr ()"
  by (cases r) auto

text \<open>\<^verbatim>\<open>first?; second\<close>.\<close>

definition res_then :: "'e + unit \<Rightarrow> 'e + 'a \<Rightarrow> 'e + 'a" where
  "res_then r s = (case r of Inl e \<Rightarrow> Inl e | Inr _ \<Rightarrow> s)"

lemma res_then_simps [simp]:
  "res_then (Inl e) s = Inl e"
  "res_then (Inr u) s = s"
  by (simp_all add: res_then_def)

lemma res_then_eq_Inr [simp]: "res_then r s = Inr x \<longleftrightarrow> r = Inr () \<and> s = Inr x"
  by (cases r) simp_all

text \<open>A check: an error unless the condition holds.\<close>

definition ensure :: "bool \<Rightarrow> 'e \<Rightarrow> 'e + unit" where
  "ensure b e = (if b then Inr () else Inl e)"

lemma ensure_ok [simp]: "ensure b e = Inr u \<longleftrightarrow> b"
  by (simp add: ensure_def)

section \<open>Three-way comparison\<close>

text \<open>\<^verbatim>\<open>std::cmp::Ordering\<close> and \<^verbatim>\<open>Ord::cmp\<close> on a linear order.\<close>

datatype ordering = Less | Equal | Greater

definition cmp :: "'a::linorder \<Rightarrow> 'a \<Rightarrow> ordering" where
  "cmp x y = (if x < y then Less else if x = y then Equal else Greater)"

fun ord_reverse :: "ordering \<Rightarrow> ordering" where
  "ord_reverse Less = Greater"
| "ord_reverse Equal = Equal"
| "ord_reverse Greater = Less"

lemma cmp_iff [simp]:
  "cmp x y = Less \<longleftrightarrow> x < y"
  "cmp x y = Equal \<longleftrightarrow> x = y"
  "cmp x y = Greater \<longleftrightarrow> y < x"
  by (auto simp: cmp_def)

lemma cmp_refl [simp]: "cmp x x = Equal"
  by simp

lemma cmp_swap: "cmp y x = ord_reverse (cmp x y)"
  by (auto simp: cmp_def)

lemma cmp_strict_mono:
  assumes "\<And>x y. x < y \<Longrightarrow> f x < f y"
  shows "cmp (f x) (f y) = cmp x y"
  using assms [of x y] assms [of y x] by (cases x y rule: linorder_cases) (auto simp: cmp_def)

lemma ord_reverse_reverse [simp]: "ord_reverse (ord_reverse c) = c"
  by (cases c) simp_all

lemma ord_reverse_iff [simp]:
  "ord_reverse c = Less \<longleftrightarrow> c = Greater"
  "ord_reverse c = Equal \<longleftrightarrow> c = Equal"
  "ord_reverse c = Greater \<longleftrightarrow> c = Less"
  by (cases c, simp_all)+

text \<open>
  What a comparison function must satisfy on a set of values for sorting and binary
  search to be meaningful: the contract \<^verbatim>\<open>slice::sort_by\<close> documents.
\<close>

definition total_preorder_on :: "'a set \<Rightarrow> ('a \<Rightarrow> 'a \<Rightarrow> ordering) \<Rightarrow> bool" where
  "total_preorder_on A c \<longleftrightarrow>
     (\<forall>x\<in>A. c x x = Equal) \<and>
     (\<forall>x\<in>A. \<forall>y\<in>A. c y x = ord_reverse (c x y)) \<and>
     (\<forall>x\<in>A. \<forall>y\<in>A. \<forall>z\<in>A. c x y \<noteq> Greater \<longrightarrow> c y z \<noteq> Greater \<longrightarrow> c x z \<noteq> Greater)"

lemma total_preorder_onI_key:
  fixes k :: "'a \<Rightarrow> 'k::linorder"
  assumes "\<And>x y. x \<in> A \<Longrightarrow> y \<in> A \<Longrightarrow> c x y = cmp (k x) (k y)"
  shows "total_preorder_on A c"
  unfolding total_preorder_on_def using assms
  by (auto simp: cmp_def)

lemma total_preorder_on_subset:
  "total_preorder_on B c \<Longrightarrow> A \<subseteq> B \<Longrightarrow> total_preorder_on A c"
  unfolding total_preorder_on_def by blast

lemma total_preorder_on_refl: "total_preorder_on A c \<Longrightarrow> x \<in> A \<Longrightarrow> c x x = Equal"
  unfolding total_preorder_on_def by blast

lemma total_preorder_on_swap:
  "total_preorder_on A c \<Longrightarrow> x \<in> A \<Longrightarrow> y \<in> A \<Longrightarrow> c y x = ord_reverse (c x y)"
  unfolding total_preorder_on_def by blast

lemma total_preorder_on_trans:
  "total_preorder_on A c \<Longrightarrow> x \<in> A \<Longrightarrow> y \<in> A \<Longrightarrow> z \<in> A \<Longrightarrow>
     c x y \<noteq> Greater \<Longrightarrow> c y z \<noteq> Greater \<Longrightarrow> c x z \<noteq> Greater"
  unfolding total_preorder_on_def by blast

section \<open>Association lists with the insertion order kept\<close>

text \<open>
  The order-preserving update and deletion behind documents: an existing key keeps its
  position, a new key goes to the end, and deletion closes the gap.
\<close>

fun al_insert :: "'k \<Rightarrow> 'v \<Rightarrow> ('k \<times> 'v) list \<Rightarrow> ('k \<times> 'v) list" where
  "al_insert k v [] = [(k, v)]"
| "al_insert k v ((k', v') # xs) =
     (if k' = k then (k, v) # xs else (k', v') # al_insert k v xs)"

definition al_remove :: "'k \<Rightarrow> ('k \<times> 'v) list \<Rightarrow> ('k \<times> 'v) list" where
  "al_remove k xs = filter (\<lambda>(k', _). k' \<noteq> k) xs"

lemma map_of_al_insert [simp]: "map_of (al_insert k v xs) = (map_of xs)(k \<mapsto> v)"
  by (induction xs) auto

lemma map_of_al_remove [simp]: "map_of (al_remove k xs) = (map_of xs)(k := None)"
  unfolding al_remove_def by (induction xs) (auto simp: fun_eq_iff)

lemma keys_al_insert: "fst ` set (al_insert k v xs) = insert k (fst ` set xs)"
  by (induction k v xs rule: al_insert.induct) (simp_all, blast)

lemma distinct_al_insert [simp]:
  "distinct (map fst xs) \<Longrightarrow> distinct (map fst (al_insert k v xs))"
  by (induction k v xs rule: al_insert.induct) (auto simp: keys_al_insert)

lemma distinct_al_remove [simp]:
  "distinct (map fst xs) \<Longrightarrow> distinct (map fst (al_remove k xs))"
  unfolding al_remove_def by (induction xs) auto

lemma set_al_insert: "set (al_insert k v xs) \<subseteq> insert (k, v) (set xs)"
  by (induction k v xs rule: al_insert.induct) (simp_all, blast)

lemma set_al_remove: "set (al_remove k xs) \<subseteq> set xs"
  unfolding al_remove_def by auto

lemma al_insert_same: "map_of xs k = Some v \<Longrightarrow> al_insert k v xs = xs"
  by (induction xs) auto

lemma al_insert_insert [simp]: "al_insert k v (al_insert k w xs) = al_insert k v xs"
  by (induction xs) auto

lemma al_insert_fresh: "k \<notin> fst ` set xs \<Longrightarrow> al_insert k v xs = xs @ [(k, v)]"
  by (induction xs) auto

lemma foldl_al_insert: "distinct (map fst (acc @ xs)) \<Longrightarrow> foldl (\<lambda>ps (k, v). al_insert k v ps) acc xs = acc @ xs"
  by (induction xs arbitrary: acc) (auto simp: al_insert_fresh)

lemma map_res_inverse:
  assumes "\<And>x. x \<in> set xs \<Longrightarrow> \<exists>y. f x = Inr y \<and> g y = Inr x"
  shows "\<exists>ys. map_res f xs = Inr ys \<and> map_res g ys = Inr xs"
  using assms
proof (induction xs)
  case (Cons x xs)
  then obtain y ys where "f x = Inr y" "g y = Inr x" "map_res f xs = Inr ys" "map_res g ys = Inr xs" by fastforce
  then show ?case by (intro exI [of _ "y # ys"]) simp
qed simp

text \<open>\<^verbatim>\<open>map.entry(k).or_default().push(v)\<close>, and what a loop of it collects under a key.\<close>

definition al_push :: "'k \<Rightarrow> 'v \<Rightarrow> ('k \<times> 'v list) list \<Rightarrow> ('k \<times> 'v list) list" where
  "al_push k v m = al_insert k (opt_or [] (map_of m k) @ [v]) m"

lemma map_of_al_push [simp]: "map_of (al_push k v m) = (map_of m)(k \<mapsto> opt_or [] (map_of m k) @ [v])"
  by (simp add: al_push_def)

lemma distinct_al_push [simp]: "distinct (map fst m) \<Longrightarrow> distinct (map fst (al_push k v m))"
  by (simp add: al_push_def)

lemma foldl_al_push:
  "opt_or [] (map_of (foldl (\<lambda>m (k, v). al_push k v m) m kvs) k) = opt_or [] (map_of m k) @ map snd (filter (\<lambda>(k', _). k' = k) kvs)"
  by (induction kvs arbitrary: m) auto

lemma keys_order_al_insert:
  "k \<in> fst ` set xs \<Longrightarrow> map fst (al_insert k v xs) = map fst xs"
  by (induction k v xs rule: al_insert.induct) auto

lemma filter_al_insert:
  "filter (\<lambda>(k, _). P k) (al_insert k v g) = (if P k then al_insert k v (filter (\<lambda>(k, _). P k) g) else filter (\<lambda>(k, _). P k) g)"
  by (induction k v g rule: al_insert.induct) auto

lemma map_of_filter_key: "P k \<Longrightarrow> map_of (filter (\<lambda>(k, _). P k) g) k = map_of g k"
  by (induction g) auto

lemma map_filter_total:
  "(\<And>k. k \<in> set ks \<Longrightarrow> f k \<noteq> None) \<Longrightarrow> List.map_filter (\<lambda>k. map_option (Pair k) (f k)) ks = map (\<lambda>k. (k, the (f k))) ks"
proof (induction ks)
  case (Cons k ks)
  then obtain y where "f k = Some y" by fastforce
  with Cons show ?case by (simp add: List.map_filter_simps)
qed (simp add: List.map_filter_simps)

lemma map_res_total: "(\<And>x. x \<in> set xs \<Longrightarrow> is_ok (f x)) \<Longrightarrow> map_res f xs = Inr (map (\<lambda>x. projr (f x)) xs)"
proof (induction xs)
  case (Cons x xs)
  then show ?case using Cons.prems [of x] by (cases "f x") simp_all
qed simp

lemma map_res_ok: "map_res f xs = Inr ys \<Longrightarrow> x \<in> set xs \<Longrightarrow> is_ok (f x)"
  by (induction xs arbitrary: ys) auto

end
