(* ===== verification/Rust_Std.thy ===== *)
theory Rust_Std
  imports Prelude
begin

text \<open>
  The parts of Rust's standard library the engine uses: splitting, joining and
  prefix tests on strings, \<^verbatim>\<open>parse::<usize>\<close>, decimal formatting, UTF-8 views of
  strings as bytes, and fixed-width big- and little-endian integers.
\<close>

unbundle bit_operations_syntax

section \<open>Strings\<close>

text \<open>\<^verbatim>\<open>str::split(c)\<close>: always at least one part.\<close>

fun split_on :: "'a \<Rightarrow> 'a list \<Rightarrow> 'a list list" where
  "split_on c [] = [[]]"
| "split_on c (x # xs) =
     (if x = c then [] # split_on c xs
      else (case split_on c xs of [] \<Rightarrow> [[x]] | p # ps \<Rightarrow> (x # p) # ps))"

text \<open>\<^verbatim>\<open>parts.join(sep)\<close>.\<close>

fun join_with :: "'a list \<Rightarrow> 'a list list \<Rightarrow> 'a list" where
  "join_with sep [] = []"
| "join_with sep [p] = p"
| "join_with sep (p # q # ps) = p @ sep @ join_with sep (q # ps)"

lemma split_on_not_Nil [simp]: "split_on c xs \<noteq> []"
  by (induction xs) (auto split: list.splits)

lemma split_on_no_sep: "c \<notin> set xs \<Longrightarrow> split_on c xs = [xs]"
  by (induction xs) auto

lemma split_on_append:
  "c \<notin> set p \<Longrightarrow> split_on c (p @ c # xs) = p # split_on c xs"
  by (induction p) auto

lemma join_with_Cons: "ps \<noteq> [] \<Longrightarrow> join_with sep (p # ps) = p @ sep @ join_with sep ps"
  by (cases ps) auto

lemma join_with_split_on: "join_with [c] (split_on c xs) = xs"
proof (induction xs)
  case (Cons x xs)
  show ?case
  proof (cases "split_on c xs")
    case Nil
    then show ?thesis by simp
  next
    case (Cons p ps)
    with Cons.IH show ?thesis
      by (cases ps) (auto simp: join_with_Cons)
  qed
qed simp

lemma split_on_parts: "p \<in> set (split_on c xs) \<Longrightarrow> c \<notin> set p"
  by (induction xs arbitrary: p) (auto split: list.splits if_splits)

lemma split_on_join_with:
  assumes "ps \<noteq> []" and "\<And>p. p \<in> set ps \<Longrightarrow> c \<notin> set p"
  shows "split_on c (join_with [c] ps) = ps"
  using assms
proof (induction ps rule: list_nonempty_induct)
  case (single p)
  then show ?case by (simp add: split_on_no_sep)
next
  case (cons p ps)
  then show ?case by (simp add: join_with_Cons split_on_append)
qed

definition starts_with :: "'a list \<Rightarrow> 'a list \<Rightarrow> bool" where
  "starts_with s p \<longleftrightarrow> take (length p) s = p"

lemma starts_with_iff: "starts_with s p \<longleftrightarrow> (\<exists>r. s = p @ r)"
  unfolding starts_with_def by (metis append_eq_conv_conj append_take_drop_id)

lemma starts_with_append [simp]: "starts_with (p @ r) p"
  by (simp add: starts_with_iff)

lemma starts_with_Nil [simp]: "starts_with s []"
  by (simp add: starts_with_def)

definition strip_prefix :: "'a list \<Rightarrow> 'a list \<Rightarrow> 'a list option" where
  "strip_prefix p s = (if starts_with s p then Some (drop (length p) s) else None)"

text \<open>\<^verbatim>\<open>s.contains(p)\<close>: \<open>p\<close> occurs in \<open>s\<close> as a contiguous substring.\<close>

fun contains_sub :: "'a list \<Rightarrow> 'a list \<Rightarrow> bool" where
  "contains_sub [] p = (p = [])"
| "contains_sub (x # xs) p = (starts_with (x # xs) p \<or> contains_sub xs p)"

section \<open>Numbers in text\<close>

definition is_digit :: "char \<Rightarrow> bool" where
  "is_digit c \<longleftrightarrow> 48 \<le> (of_char c :: nat) \<and> (of_char c :: nat) \<le> 57"

definition digits_val :: "string \<Rightarrow> nat" where
  "digits_val ds = foldl (\<lambda>n c. 10 * n + (of_char c - 48)) 0 ds"

text \<open>
  \<^verbatim>\<open>s.parse::<usize>()\<close> on a 64-bit target: an optional \<open>+\<close>, at least one digit, no
  overflow.
\<close>

definition parse_usize :: "string \<Rightarrow> nat option" where
  "parse_usize s =
     (let ds = (case s of [] \<Rightarrow> [] | c # r \<Rightarrow> if c = CHR ''+'' then r else s) in
      if ds = [] \<or> \<not> list_all is_digit ds then None
      else if digits_val ds < 2 ^ 64 then Some (digits_val ds) else None)"

fun show_nat :: "nat \<Rightarrow> string" where
  "show_nat n =
     (if n < 10 then [char_of (48 + n)] else show_nat (n div 10) @ [char_of (48 + n mod 10)])"

declare show_nat.simps [simp del]

definition show_int :: "int \<Rightarrow> string" where
  "show_int i = (if i < 0 then CHR ''-'' # show_nat (nat (- i)) else show_nat (nat i))"

lemma of_char_digit: "k < 10 \<Longrightarrow> (of_char (char_of (48 + k) :: char) :: nat) = 48 + k"
  by simp

lemma digits_val_snoc: "digits_val (ds @ [c]) = 10 * digits_val ds + (of_char c - 48)"
  by (simp add: digits_val_def)

lemma digits_val_show_nat: "digits_val (show_nat n) = n"
proof (induction n rule: show_nat.induct)
  case (1 n)
  show ?case
  proof (cases "n < 10")
    case True
    then show ?thesis by (simp add: show_nat.simps [of n] digits_val_def)
  next
    case False
    have "digits_val (show_nat n) = 10 * (n div 10) + n mod 10"
      using False "1.IH" by (simp add: show_nat.simps [of n] digits_val_snoc)
    then show ?thesis by simp
  qed
qed

lemma show_nat_digits: "list_all is_digit (show_nat n)"
proof (induction n rule: show_nat.induct)
  case (1 n)
  then show ?case
    by (cases "n < 10") (simp_all add: show_nat.simps [of n] is_digit_def)
qed

lemma show_nat_not_Nil [simp]: "show_nat n \<noteq> []"
  by (simp add: show_nat.simps [of n])

lemma show_nat_inject [simp]: "show_nat m = show_nat n \<longleftrightarrow> m = n"
  by (metis digits_val_show_nat)

lemma parse_usize_show_nat:
  assumes "n < 2 ^ 64"
  shows "parse_usize (show_nat n) = Some n"
proof -
  obtain c r where cr: "show_nat n = c # r"
    by (cases "show_nat n") simp_all
  have "is_digit c"
    using show_nat_digits [of n] cr by simp
  then have "c \<noteq> CHR ''+''"
    by (auto simp: is_digit_def)
  with assms cr show ?thesis
    using show_nat_digits [of n] digits_val_show_nat [of n]
    by (simp add: parse_usize_def)
qed

section \<open>Bytes\<close>

definition byte_of_char :: "char \<Rightarrow> byte" where
  "byte_of_char c = word_of_nat (of_char c)"

definition char_of_byte :: "byte \<Rightarrow> char" where
  "char_of_byte b = char_of (unat b)"

definition as_bytes :: "string \<Rightarrow> bytes" where
  "as_bytes s = map byte_of_char s"

lemma unat_byte_of_char [simp]: "unat (byte_of_char c) = of_char c"
proof -
  have "(of_char c :: nat) < 2 ^ 8" by simp
  then show ?thesis
    unfolding byte_of_char_def by (simp add: unsigned_of_nat take_bit_nat_eq_self)
qed

lemma char_of_byte_of_char [simp]: "char_of_byte (byte_of_char c) = c"
  by (simp add: char_of_byte_def)

lemma byte_of_char_inject [simp]: "byte_of_char c = byte_of_char d \<longleftrightarrow> c = d"
  by (metis char_of_byte_of_char)

lemma map_char_of_byte_as_bytes [simp]: "map char_of_byte (as_bytes s) = s"
  by (simp add: as_bytes_def comp_def)

lemma as_bytes_inject [simp]: "as_bytes s = as_bytes t \<longleftrightarrow> s = t"
  by (metis map_char_of_byte_as_bytes)

lemma length_as_bytes [simp]: "length (as_bytes s) = length s"
  by (simp add: as_bytes_def)

lemma as_bytes_append [simp]: "as_bytes (s @ t) = as_bytes s @ as_bytes t"
  by (simp add: as_bytes_def)

lemma byte_of_char_less [simp]: "byte_of_char c < byte_of_char d \<longleftrightarrow> c < d"
  by (simp add: word_less_nat_alt less_char_def)

text \<open>Byte order and string order agree: \<^verbatim>\<open>str::cmp\<close> compares the UTF-8 bytes.\<close>

lemma as_bytes_less [simp]: "as_bytes s < as_bytes t \<longleftrightarrow> s < t"
proof (induction s arbitrary: t)
  case Nil
  then show ?case by (cases t) (simp_all add: as_bytes_def)
next
  case (Cons c s)
  then show ?case by (cases t) (auto simp: as_bytes_def)
qed

definition utf8_cont :: "byte \<Rightarrow> bool" where
  "utf8_cont b \<longleftrightarrow> 0x80 \<le> b \<and> b \<le> 0xBF"

text \<open>Well-formed UTF-8, as \<^verbatim>\<open>str::from_utf8\<close> checks it.\<close>

fun utf8_valid :: "bytes \<Rightarrow> bool" where
  "utf8_valid [] = True"
| "utf8_valid (b # bs) =
     (if b < 0x80 then utf8_valid bs
      else if 0xC2 \<le> b \<and> b \<le> 0xDF then
        (case bs of c # r \<Rightarrow> utf8_cont c \<and> utf8_valid r | _ \<Rightarrow> False)
      else if 0xE0 \<le> b \<and> b \<le> 0xEF then
        (case bs of c # d # r \<Rightarrow>
           (if b = 0xE0 then 0xA0 \<le> c \<and> c \<le> 0xBF
            else if b = 0xED then 0x80 \<le> c \<and> c \<le> 0x9F else utf8_cont c) \<and>
           utf8_cont d \<and> utf8_valid r
         | _ \<Rightarrow> False)
      else if 0xF0 \<le> b \<and> b \<le> 0xF4 then
        (case bs of c # d # e # r \<Rightarrow>
           (if b = 0xF0 then 0x90 \<le> c \<and> c \<le> 0xBF
            else if b = 0xF4 then 0x80 \<le> c \<and> c \<le> 0x8F else utf8_cont c) \<and>
           utf8_cont d \<and> utf8_cont e \<and> utf8_valid r
         | _ \<Rightarrow> False)
      else False)"

definition from_utf8 :: "bytes \<Rightarrow> string option" where
  "from_utf8 bs = (if utf8_valid bs then Some (map char_of_byte bs) else None)"

text \<open>Every value of type \<^verbatim>\<open>String\<close> satisfies this.\<close>

definition str_ok :: "string \<Rightarrow> bool" where
  "str_ok s \<longleftrightarrow> utf8_valid (as_bytes s)"

lemma from_utf8_as_bytes [simp]: "str_ok s \<Longrightarrow> from_utf8 (as_bytes s) = Some s"
  by (simp add: from_utf8_def str_ok_def)

lemma byte_of_char_of_byte [simp]: "byte_of_char (char_of_byte b) = b"
proof -
  have "unat b < 2 ^ 8" using unsigned_less [of b] by simp
  then have "unat (byte_of_char (char_of_byte b)) = unat b"
    by (simp add: char_of_byte_def)
  then show ?thesis by (simp add: word_unat_eq_iff)
qed

lemma as_bytes_map_char_of_byte [simp]: "as_bytes (map char_of_byte bs) = bs"
  by (simp add: as_bytes_def comp_def)

lemma from_utf8_SomeD: "from_utf8 bs = Some s \<Longrightarrow> bs = as_bytes s \<and> str_ok s"
  by (auto simp: from_utf8_def str_ok_def split: if_splits)

text \<open>\<^verbatim>\<open>to_be_bytes\<close>, \<^verbatim>\<open>from_be_bytes\<close> and the little-endian pair, for \<open>n\<close> bytes.\<close>

definition be_bytes :: "nat \<Rightarrow> 'a::len word \<Rightarrow> bytes" where
  "be_bytes n w = map (\<lambda>i. ucast (drop_bit (8 * i) w)) (rev [0..<n])"

definition of_be_bytes :: "bytes \<Rightarrow> 'a::len word" where
  "of_be_bytes bs = foldl (\<lambda>a b. push_bit 8 a OR ucast b) 0 bs"

definition le_bytes :: "nat \<Rightarrow> 'a::len word \<Rightarrow> bytes" where
  "le_bytes n w = rev (be_bytes n w)"

definition of_le_bytes :: "bytes \<Rightarrow> 'a::len word" where
  "of_le_bytes bs = of_be_bytes (rev bs)"

lemma length_be_bytes [simp]: "length (be_bytes n w) = n"
  by (simp add: be_bytes_def)

lemma length_le_bytes [simp]: "length (le_bytes n w) = n"
  by (simp add: le_bytes_def)

lemma be_bytes_Suc: "be_bytes (Suc n) w = be_bytes n (drop_bit 8 w) @ [ucast w]"
proof -
  have "rev [0..<Suc n] = map Suc (rev [0..<n]) @ [0]"
    by (simp add: rev_map [symmetric] map_Suc_upt upt_conv_Cons del: upt_Suc)
  then show ?thesis
    by (simp add: be_bytes_def comp_def ac_simps del: upt_Suc)
qed

lemma of_be_bytes_snoc: "of_be_bytes (bs @ [b]) = push_bit 8 (of_be_bytes bs) OR ucast b"
  by (simp add: of_be_bytes_def)

lemma of_be_bytes_be_bytes: "of_be_bytes (be_bytes n w) = take_bit (8 * n) (w :: 'a::len word)"
proof (induction n arbitrary: w)
  case 0
  then show ?case by (simp add: be_bytes_def of_be_bytes_def)
next
  case (Suc n)
  have "push_bit 8 (take_bit (8 * n) (drop_bit 8 w)) OR ucast (ucast w :: byte) =
        take_bit (8 * Suc n) w"
    by (rule bit_word_eqI)
      (auto simp: bit_simps not_le not_less)
  with Suc.IH show ?case
    by (simp add: be_bytes_Suc of_be_bytes_snoc)
qed

lemma be_bytes_roundtrip [simp]:
  "8 * n = LENGTH('a) \<Longrightarrow> of_be_bytes (be_bytes n (w :: 'a::len word)) = w"
  by (simp add: of_be_bytes_be_bytes)

lemma le_bytes_roundtrip [simp]:
  "8 * n = LENGTH('a) \<Longrightarrow> of_le_bytes (le_bytes n (w :: 'a::len word)) = w"
  by (simp add: of_le_bytes_def le_bytes_def)

lemma be_bytes_inject:
  "8 * n = LENGTH('a) \<Longrightarrow> be_bytes n (v :: 'a::len word) = be_bytes n w \<longleftrightarrow> v = w"
  by (metis be_bytes_roundtrip)

section \<open>Signed words\<close>

lemma sint_word_of_int32:
  "- (2 ^ 31) \<le> k \<Longrightarrow> k < 2 ^ 31 \<Longrightarrow> sint (word_of_int k :: 32 word) = k"
  by (simp add: signed_of_int signed_take_bit_int_eq_self)

lemma sint_word_of_int64:
  "- (2 ^ 63) \<le> k \<Longrightarrow> k < 2 ^ 63 \<Longrightarrow> sint (word_of_int k :: 64 word) = k"
  by (simp add: signed_of_int signed_take_bit_int_eq_self)

lemma sint_inject: "sint v = sint w \<longleftrightarrow> v = (w :: 'a::len word)"
  by (auto simp: signed_word_eqI)

lemma sint_eq_0 [simp]: "sint (w :: 'a::len word) = 0 \<longleftrightarrow> w = 0"
  using sint_inject [of w 0] by simp

lemma sint64_bounds: "- (2 ^ 63) \<le> sint (w :: 64 word)" "sint (w :: 64 word) < 2 ^ 63"
  using sint_greater_eq [of w] sint_less [of w] by simp_all

lemma sint32_bounds: "- (2 ^ 31) \<le> sint (w :: 32 word)" "sint (w :: 32 word) < 2 ^ 31"
  using sint_greater_eq [of w] sint_less [of w] by simp_all

section \<open>Remainder\<close>

text \<open>
  The remainder of Rust takes the sign of the dividend; \<^verbatim>\<open>i64::MIN % -1\<close> panics.
\<close>

definition rem_trunc :: "int \<Rightarrow> int \<Rightarrow> int" where
  "rem_trunc a b = (if a < 0 then - (\<bar>a\<bar> mod \<bar>b\<bar>) else a mod \<bar>b\<bar>)"

definition i64_min :: int where
  "i64_min = - (2 ^ 63)"

end
