(* ===== verification/Ordered.thy ===== *)
theory Ordered
  imports Rust_Std "HOL-Library.Multiset"
begin

text \<open>
  Sorting, searching and ordered maps: \<^verbatim>\<open>slice::sort_by\<close> (stable),
  \<^verbatim>\<open>slice::binary_search_by\<close>, and \<^verbatim>\<open>BTreeMap\<close> as an association list whose keys
  increase strictly.  The locale \<open>ordered_map\<close> is the interface the storage
  layer relies on; the \<^verbatim>\<open>BTreeMap\<close> model is its interpretation.
\<close>

section \<open>Stable sorting\<close>

fun insort_by :: "('a \<Rightarrow> 'a \<Rightarrow> ordering) \<Rightarrow> 'a \<Rightarrow> 'a list \<Rightarrow> 'a list" where
  "insort_by c x [] = [x]"
| "insort_by c x (y # ys) = (if c x y = Greater then y # insort_by c x ys else x # y # ys)"

definition sort_by :: "('a \<Rightarrow> 'a \<Rightarrow> ordering) \<Rightarrow> 'a list \<Rightarrow> 'a list" where
  "sort_by c xs = foldr (insort_by c) xs []"

lemma sort_by_simps [simp]:
  "sort_by c [] = []"
  "sort_by c (x # xs) = insort_by c x (sort_by c xs)"
  by (simp_all add: sort_by_def)

lemma mset_insort_by [simp]: "mset (insort_by c x xs) = add_mset x (mset xs)"
  by (induction xs) auto

lemma mset_sort_by [simp]: "mset (sort_by c xs) = mset xs"
  by (induction xs) auto

lemma set_insort_by [simp]: "set (insort_by c x xs) = insert x (set xs)"
  by (metis mset_insort_by set_mset_add_mset_insert set_mset_mset)

lemma set_sort_by [simp]: "set (sort_by c xs) = set xs"
  by (metis mset_sort_by set_mset_mset)

lemma length_sort_by [simp]: "length (sort_by c xs) = length xs"
  by (metis mset_sort_by size_mset)

lemma sorted_insort_by:
  assumes "total_preorder_on A c" and "x \<in> A" and "set xs \<subseteq> A"
    and "sorted_wrt (\<lambda>a b. c a b \<noteq> Greater) xs"
  shows "sorted_wrt (\<lambda>a b. c a b \<noteq> Greater) (insort_by c x xs)"
  using assms
proof (induction xs)
  case (Cons y ys)
  from Cons.prems have y: "y \<in> A" by simp
  show ?case
  proof (cases "c x y = Greater")
    case True
    then have "c y x = Less"
      using total_preorder_on_swap [OF Cons.prems(1,2) y] by simp
    with True Cons show ?thesis by auto
  next
    case False
    have "c x z \<noteq> Greater" if "z \<in> set ys" for z
    proof -
      have "c y z \<noteq> Greater" "z \<in> A" using Cons.prems that by auto
      with False show ?thesis
        using total_preorder_on_trans [OF Cons.prems(1,2) y] by blast
    qed
    with False Cons.prems show ?thesis by auto
  qed
qed simp

lemma sorted_sort_by:
  assumes "total_preorder_on A c" and "set xs \<subseteq> A"
  shows "sorted_wrt (\<lambda>a b. c a b \<noteq> Greater) (sort_by c xs)"
  using assms(2)
  by (induction xs) (auto intro!: sorted_insort_by [OF assms(1)])

text \<open>Stability: the elements equal to a given one keep their order.\<close>

lemma filter_insort_by:
  assumes "total_preorder_on A c" and "x \<in> A" and "set xs \<subseteq> A" and "k \<in> A"
  shows "filter (\<lambda>y. c k y = Equal) (insort_by c x xs) =
         (if c k x = Equal then x # filter (\<lambda>y. c k y = Equal) xs
          else filter (\<lambda>y. c k y = Equal) xs)"
  using assms(3)
proof (induction xs)
  case (Cons y ys)
  have "\<not> (c k x = Equal \<and> c k y = Equal)" if "c x y = Greater"
  proof
    assume "c k x = Equal \<and> c k y = Equal"
    then have "c x k \<noteq> Greater" "c k y \<noteq> Greater"
      using total_preorder_on_swap [OF assms(1) assms(4,2)] by simp_all
    then show False
      using that Cons.prems total_preorder_on_trans [OF assms(1,2,4), of y] by simp
  qed
  with Cons show ?case by auto
qed simp

lemma sort_by_stable:
  assumes "total_preorder_on A c" and "set xs \<subseteq> A" and "k \<in> A"
  shows "filter (\<lambda>y. c k y = Equal) (sort_by c xs) = filter (\<lambda>y. c k y = Equal) xs"
  using assms(2)
  by (induction xs) (auto simp: filter_insort_by [OF assms(1) _ _ assms(3)])

section \<open>Sorted lists of the same elements\<close>

abbreviation sorted_by :: "('a \<Rightarrow> 'a \<Rightarrow> ordering) \<Rightarrow> 'a list \<Rightarrow> bool" where
  "sorted_by c \<equiv> sorted_wrt (\<lambda>a b. c a b \<noteq> Greater)"

lemma sorted_by_prefix_below:
  assumes "total_preorder_on A c" and "set xs \<subseteq> A" and "sorted_by c xs" and "i < length xs"
  shows "i < length (filter (\<lambda>y. c y (xs ! i) \<noteq> Greater) xs)"
proof -
  have "xs ! i \<in> A" using assms(2,4) by auto
  then have "c (xs ! j) (xs ! i) \<noteq> Greater" if "j \<le> i" for j
    using that assms total_preorder_on_refl [OF assms(1), of "xs ! i"] by (cases "j = i") (auto simp: sorted_wrt_iff_nth_less)
  then have "filter (\<lambda>y. c y (xs ! i) \<noteq> Greater) (take (Suc i) xs) = take (Suc i) xs"
    by (auto simp: filter_id_conv in_set_conv_nth)
  moreover have "length (filter P (take n xs)) \<le> length (filter P xs)" for P n
    using append_take_drop_id [of n xs] by (metis filter_append le_add1 length_append)
  ultimately have "length (take (Suc i) xs) \<le> length (filter (\<lambda>y. c y (xs ! i) \<noteq> Greater) xs)" by metis
  then show ?thesis using assms(4) by simp
qed

lemma sorted_by_below:
  assumes "total_preorder_on A c" and "set ys \<subseteq> A" and "sorted_by c ys" and "i < length ys" and "z \<in> A" and "c z (ys ! i) = Less"
  shows "length (filter (\<lambda>y. c y z \<noteq> Greater) ys) \<le> i"
proof -
  have yi: "ys ! i \<in> A" using assms(2,4) by auto
  have "c y z = Greater" if y: "y \<in> set (drop i ys)" for y
  proof (rule ccontr)
    assume n: "c y z \<noteq> Greater"
    have yA: "y \<in> A" using y assms(2) by (meson in_set_dropD subsetD)
    obtain m where "m < length ys - i" "y = ys ! (i + m)" using y by (auto simp: in_set_conv_nth)
    then obtain j where j: "i \<le> j" "j < length ys" "y = ys ! j" using that [of "i + m"] by simp
    have "c (ys ! i) y \<noteq> Greater"
      using j assms(3) total_preorder_on_refl [OF assms(1) yi] by (cases "i = j") (auto simp: sorted_wrt_iff_nth_less)
    then have "c (ys ! i) z \<noteq> Greater" using total_preorder_on_trans [OF assms(1) yi yA assms(5)] n by blast
    then show False using total_preorder_on_swap [OF assms(1,5) yi] assms(6) by simp
  qed
  then have "filter (\<lambda>y. c y z \<noteq> Greater) (drop i ys) = []" by (simp add: filter_empty_conv)
  then have "filter (\<lambda>y. c y z \<noteq> Greater) ys = filter (\<lambda>y. c y z \<noteq> Greater) (take i ys)"
    by (metis append_Nil2 append_take_drop_id filter_append)
  then show ?thesis by (metis length_filter_le length_take min.cobounded2 order_trans)
qed

lemma sorted_by_unique:
  assumes "total_preorder_on A c" and "set xs \<subseteq> A" and "sorted_by c xs" "sorted_by c ys" and "mset xs = mset ys" and "i < length xs"
  shows "c (xs ! i) (ys ! i) = Equal"
proof -
  have ys: "set ys \<subseteq> A" "i < length ys" using assms(2,5,6) by (metis mset_eq_setD, metis size_mset)
  have mem: "xs ! i \<in> A" "ys ! i \<in> A" using assms(2,6) ys by auto
  have count: "length (filter P xs) = length (filter P ys)" for P using assms(5) by (metis mset_filter size_mset)
  have "c (xs ! i) (ys ! i) \<noteq> Less"
    using sorted_by_below [OF assms(1) ys(1) assms(4) ys(2) mem(1)] sorted_by_prefix_below [OF assms(1-3,6)] count
    by (metis not_le)
  moreover have "c (ys ! i) (xs ! i) \<noteq> Less"
    using sorted_by_below [OF assms(1-3,6) mem(2)] sorted_by_prefix_below [OF assms(1) ys(1) assms(4) ys(2)] count
    by (metis not_le)
  ultimately show ?thesis using total_preorder_on_swap [OF assms(1) mem] by (cases "c (xs ! i) (ys ! i)") auto
qed

section \<open>Binary search\<close>

text \<open>
  \<^verbatim>\<open>binary_search_by\<close> between two bounds: \<^term>\<open>Inr i\<close> is \<^verbatim>\<open>Ok(i)\<close>, \<^term>\<open>Inl i\<close> is
  \<^verbatim>\<open>Err(i)\<close>.
\<close>

function bsearch_between :: "('a \<Rightarrow> ordering) \<Rightarrow> 'a list \<Rightarrow> nat \<Rightarrow> nat \<Rightarrow> nat + nat" where
  "bsearch_between f xs lo hi =
     (if hi \<le> lo then Inl lo
      else let mid = lo + (hi - lo) div 2 in
        (case f (xs ! mid) of
           Less \<Rightarrow> bsearch_between f xs (Suc mid) hi
         | Greater \<Rightarrow> bsearch_between f xs lo mid
         | Equal \<Rightarrow> Inr mid))"
  by pat_completeness auto
termination
  by (relation "measure (\<lambda>(f, xs, lo, hi). hi - lo)") auto

declare bsearch_between.simps [simp del]

definition binary_search_by :: "('a \<Rightarrow> ordering) \<Rightarrow> 'a list \<Rightarrow> nat + nat" where
  "binary_search_by f xs = bsearch_between f xs 0 (length xs)"

text \<open>The slice is partitioned: first the smaller, then the equal, then the greater.\<close>

definition probe_sorted :: "('a \<Rightarrow> ordering) \<Rightarrow> 'a list \<Rightarrow> bool" where
  "probe_sorted f xs \<longleftrightarrow>
     sorted_wrt (\<lambda>a b. (f b = Less \<longrightarrow> f a = Less) \<and> (f a = Greater \<longrightarrow> f b = Greater)) xs"

lemma probe_sorted_nth:
  assumes "probe_sorted f xs" and "i < j" and "j < length xs"
  shows "f (xs ! j) = Less \<Longrightarrow> f (xs ! i) = Less"
    and "f (xs ! i) = Greater \<Longrightarrow> f (xs ! j) = Greater"
  using assms sorted_wrt_nth_less [OF assms(1)[unfolded probe_sorted_def]] by blast+

lemma bsearch_between_spec:
  assumes "probe_sorted f xs" and "hi \<le> length xs" and "lo \<le> hi"
    and "\<And>i. i < lo \<Longrightarrow> f (xs ! i) = Less"
    and "\<And>i. hi \<le> i \<Longrightarrow> i < length xs \<Longrightarrow> f (xs ! i) = Greater"
  shows "case bsearch_between f xs lo hi of
           Inr i \<Rightarrow> i < length xs \<and> f (xs ! i) = Equal
         | Inl i \<Rightarrow> i \<le> length xs \<and> (\<forall>j < i. f (xs ! j) = Less) \<and>
                    (\<forall>j. i \<le> j \<longrightarrow> j < length xs \<longrightarrow> f (xs ! j) = Greater)"
  using assms
proof (induction f xs lo hi rule: bsearch_between.induct)
  case (1 f xs lo hi)
  show ?case
  proof (cases "hi \<le> lo")
    case True
    then have "bsearch_between f xs lo hi = Inl lo" by (simp add: bsearch_between.simps)
    with "1.prems" True show ?thesis by auto
  next
    case False
    define mid where "mid = lo + (hi - lo) div 2"
    have mid: "lo \<le> mid" "mid < hi" using False by (auto simp: mid_def)
    show ?thesis
    proof (cases "f (xs ! mid)")
      case Less
      have "f (xs ! i) = Less" if "i < Suc mid" for i
        using that Less mid "1.prems"(2) probe_sorted_nth(1) [OF "1.prems"(1), of i mid]
        by (cases "i = mid") auto
      with "1.IH"(1) [OF False mid_def Less] "1.prems" mid False show ?thesis
        by (simp add: bsearch_between.simps [of f xs lo hi] mid_def [symmetric] Let_def Less)
    next
      case Equal
      with mid "1.prems"(2) False show ?thesis
        by (simp add: bsearch_between.simps [of f xs lo hi] mid_def [symmetric] Let_def)
    next
      case Greater
      have "f (xs ! i) = Greater" if "mid \<le> i" "i < length xs" for i
        using that Greater mid probe_sorted_nth(2) [OF "1.prems"(1), of mid i]
        by (cases "i = mid") auto
      with "1.IH"(2) [OF False mid_def Greater] "1.prems" mid False show ?thesis
        by (simp add: bsearch_between.simps [of f xs lo hi] mid_def [symmetric] Let_def Greater)
    qed
  qed
qed

lemma binary_search_by_Inr:
  assumes "probe_sorted f xs" and "binary_search_by f xs = Inr i"
  shows "i < length xs" "f (xs ! i) = Equal"
  using bsearch_between_spec [OF assms(1), of "length xs" 0] assms(2)
  by (auto simp: binary_search_by_def)

lemma binary_search_by_Inl:
  assumes "probe_sorted f xs" and "binary_search_by f xs = Inl i"
  shows "i \<le> length xs" "\<And>j. j < i \<Longrightarrow> f (xs ! j) = Less"
    "\<And>j. i \<le> j \<Longrightarrow> j < length xs \<Longrightarrow> f (xs ! j) = Greater"
  using bsearch_between_spec [OF assms(1), of "length xs" 0] assms(2)
  by (auto simp: binary_search_by_def)

lemma binary_search_by_is_ok:
  assumes "probe_sorted f xs"
  shows "isl (binary_search_by f xs) \<longleftrightarrow> (\<forall>x \<in> set xs. f x \<noteq> Equal)"
proof (cases "binary_search_by f xs")
  case (Inl i)
  have "f (xs ! j) \<noteq> Equal" if "j < length xs" for j
    using binary_search_by_Inl [OF assms Inl] that by (cases "j < i") auto
  then show ?thesis using Inl by (auto simp: in_set_conv_nth)
next
  case (Inr i)
  then show ?thesis using binary_search_by_Inr [OF assms Inr] nth_mem by fastforce
qed

lemma probe_sorted_sort_by:
  assumes "total_preorder_on A c" and "set xs \<subseteq> A" and "v \<in> A"
  shows "probe_sorted (\<lambda>p. c p v) (sort_by c xs)"
  unfolding probe_sorted_def
proof (rule sorted_wrt_mono_rel [rotated])
  show "sorted_wrt (\<lambda>a b. c a b \<noteq> Greater) (sort_by c xs)"
    by (rule sorted_sort_by [OF assms(1,2)])
next
  fix a b assume ab: "a \<in> set (sort_by c xs)" "b \<in> set (sort_by c xs)" "c a b \<noteq> Greater"
  then have A: "a \<in> A" "b \<in> A" using assms(2) by auto
  note sw = total_preorder_on_swap [OF assms(1)] and tr = total_preorder_on_trans [OF assms(1)]
  have "c a v = Less" if "c b v = Less"
  proof (rule ccontr)
    assume "c a v \<noteq> Less"
    then have "c v a \<noteq> Greater" using sw [OF A(1) assms(3)] by auto
    then have "c v b \<noteq> Greater" using tr [OF assms(3) A(1) A(2)] ab(3) by blast
    with that sw [OF A(2) assms(3)] show False by auto
  qed
  moreover have "c b v = Greater" if "c a v = Greater"
  proof (rule ccontr)
    assume "c b v \<noteq> Greater"
    then have "c a v \<noteq> Greater" using tr [OF A(1) A(2) assms(3)] ab(3) by blast
    with that show False by simp
  qed
  ultimately show "(c b v = Less \<longrightarrow> c a v = Less) \<and> (c a v = Greater \<longrightarrow> c b v = Greater)"
    by blast
qed

section \<open>Comparing sequences\<close>

text \<open>
  The loop \<^verbatim>\<open>for (x, y) in a.iter().zip(b.iter())\<close> that returns the first comparison that is
  not \<open>Equal\<close>, and the comparison of two sequences that falls back on their lengths.
\<close>

fun zip_cmp :: "('a \<Rightarrow> 'b \<Rightarrow> ordering) \<Rightarrow> 'a list \<Rightarrow> 'b list \<Rightarrow> ordering" where
  "zip_cmp c (x # xs) (y # ys) = (case c x y of Equal \<Rightarrow> zip_cmp c xs ys | r \<Rightarrow> r)"
| "zip_cmp c _ _ = Equal"

lemma zip_cmp_cong [fundef_cong]:
  assumes "xs = xs'" and "ys = ys'"
    and "\<And>x y. x \<in> set xs' \<Longrightarrow> y \<in> set ys' \<Longrightarrow> c x y = c' x y"
  shows "zip_cmp c xs ys = zip_cmp c' xs' ys'"
  using assms(3) unfolding assms(1,2)
  by (induction c xs' ys' rule: zip_cmp.induct) (auto split: ordering.splits)

definition then_cmp :: "ordering \<Rightarrow> ordering \<Rightarrow> ordering" where
  "then_cmp r s = (case r of Equal \<Rightarrow> s | _ \<Rightarrow> r)"

lemma then_cmp_simps [simp]:
  "then_cmp Equal s = s" "then_cmp Less s = Less" "then_cmp Greater s = Greater"
  "then_cmp r s = Equal \<longleftrightarrow> r = Equal \<and> s = Equal"
  "then_cmp r s = Greater \<longleftrightarrow> r = Greater \<or> r = Equal \<and> s = Greater"
  "ord_reverse (then_cmp r s) = then_cmp (ord_reverse r) (ord_reverse s)"
  by (cases r; simp add: then_cmp_def)+

lemma then_cmp_Equal [simp]: "then_cmp r Equal = r"
  by (cases r) simp_all

lemma then_cmp_decided: "r \<noteq> Equal \<Longrightarrow> then_cmp r s = r"
  by (cases r) simp_all

definition seq_cmp :: "('a \<Rightarrow> 'a \<Rightarrow> ordering) \<Rightarrow> 'a list \<Rightarrow> 'a list \<Rightarrow> ordering" where
  "seq_cmp c xs ys = then_cmp (zip_cmp c xs ys) (cmp (length xs) (length ys))"

lemma seq_cmp_simps [simp]:
  "seq_cmp c [] [] = Equal"
  "seq_cmp c [] (y # ys) = Less"
  "seq_cmp c (x # xs) [] = Greater"
  "seq_cmp c (x # xs) (y # ys) = then_cmp (c x y) (seq_cmp c xs ys)"
  by (simp_all add: seq_cmp_def cmp_def) (cases "c x y"; simp add: cmp_def)

lemma total_preorder_on_then:
  assumes c: "total_preorder_on A c" and d: "total_preorder_on A d"
  shows "total_preorder_on A (\<lambda>x y. then_cmp (c x y) (d x y))"
  unfolding total_preorder_on_def
proof (intro conjI ballI impI)
  fix x y z assume A: "x \<in> A" "y \<in> A" "z \<in> A"
    and l: "then_cmp (c x y) (d x y) \<noteq> Greater" "then_cmp (c y z) (d y z) \<noteq> Greater"
  note tc = total_preorder_on_trans [OF c] and sc = total_preorder_on_swap [OF c]
  have cxz: "c x z \<noteq> Greater" using tc [OF A] l by auto
  have "d x z \<noteq> Greater" if e: "c x z = Equal"
  proof -
    have zx: "c z x \<noteq> Greater" using e sc [OF A(1,3)] by simp
    have "c y x \<noteq> Greater" using tc [OF A(2,3,1)] zx l(2) by auto
    then have "c x y = Equal" using sc [OF A(1,2)] l(1) by (cases "c x y") auto
    moreover have "c z y \<noteq> Greater" using tc [OF A(3,1,2)] zx l(1) by auto
    then have "c y z = Equal" using sc [OF A(2,3)] l(2) by (cases "c y z") auto
    ultimately show ?thesis using l total_preorder_on_trans [OF d A] by auto
  qed
  with cxz show "then_cmp (c x z) (d x z) \<noteq> Greater" by simp
next
  fix x y assume A: "x \<in> A" "y \<in> A"
  show "then_cmp (c y x) (d y x) = ord_reverse (then_cmp (c x y) (d x y))"
    unfolding total_preorder_on_swap [OF c A] total_preorder_on_swap [OF d A] by simp
next
  fix x assume "x \<in> A"
  then have "c x x = Equal" "d x x = Equal" using c d by (simp_all add: total_preorder_on_refl)
  then show "then_cmp (c x x) (d x x) = Equal" by simp
qed

lemma total_preorder_on_cong:
  "(\<And>x y. x \<in> A \<Longrightarrow> y \<in> A \<Longrightarrow> c x y = d x y) \<Longrightarrow> total_preorder_on A c \<longleftrightarrow> total_preorder_on A d"
  unfolding total_preorder_on_def by simp

lemma total_preorder_on_flip: "total_preorder_on A c \<Longrightarrow> total_preorder_on A (\<lambda>x y. c y x)"
  unfolding total_preorder_on_def [of A "\<lambda>x y. c y x"]
  by (intro conjI ballI impI)
     (erule total_preorder_on_refl, assumption, erule total_preorder_on_swap, assumption, assumption,
      erule total_preorder_on_trans)

lemma total_preorder_on_reverse:
  assumes "total_preorder_on A c"
  shows "total_preorder_on A (\<lambda>x y. ord_reverse (c x y))"
proof -
  have "ord_reverse (c x y) = c y x" if "x \<in> A" "y \<in> A" for x y
    using total_preorder_on_swap [OF assms that] by simp
  then have "total_preorder_on A (\<lambda>x y. ord_reverse (c x y)) \<longleftrightarrow> total_preorder_on A (\<lambda>x y. c y x)"
    by (rule total_preorder_on_cong)
  with total_preorder_on_flip [OF assms] show ?thesis by simp
qed

lemma total_preorder_on_image:
  "total_preorder_on B c \<Longrightarrow> f ` A \<subseteq> B \<Longrightarrow> total_preorder_on A (\<lambda>x y. c (f x) (f y))"
  unfolding total_preorder_on_def image_subset_iff by blast

lemma seq_cmp_refl: "total_preorder_on A c \<Longrightarrow> xs \<in> lists A \<Longrightarrow> seq_cmp c xs xs = Equal"
proof (induction xs)
  case (Cons x xs)
  with total_preorder_on_refl [of A c x] show ?case by simp
qed simp

lemma seq_cmp_swap:
  assumes "total_preorder_on A c" and "xs \<in> lists A" and "ys \<in> lists A"
  shows "seq_cmp c ys xs = ord_reverse (seq_cmp c xs ys)"
  using assms(2,3)
proof (induction xs arbitrary: ys)
  case Nil
  then show ?case by (cases ys) auto
next
  case (Cons x xs)
  show ?case
  proof (cases ys)
    case ys: (Cons y ys')
    with Cons.prems Cons.hyps Cons.IH [of ys'] total_preorder_on_swap [OF assms(1), of x y] show ?thesis by simp
  qed simp
qed

lemma seq_cmp_trans:
  assumes "total_preorder_on A c" and "xs \<in> lists A" and "ys \<in> lists A" and "zs \<in> lists A"
    and "seq_cmp c xs ys \<noteq> Greater" and "seq_cmp c ys zs \<noteq> Greater"
  shows "seq_cmp c xs zs \<noteq> Greater"
  using assms(2-)
proof (induction xs arbitrary: ys zs)
  case Nil
  then show ?case by (cases zs) auto
next
  case (Cons x xs)
  from Cons.prems obtain y ys' where ys: "ys = y # ys'" by (cases ys) auto
  with Cons.prems obtain z zs' where zs: "zs = z # zs'" by (cases zs) auto
  have A: "x \<in> A" "y \<in> A" "z \<in> A" using Cons by (auto simp: ys zs)
  note tc = total_preorder_on_trans [OF assms(1)] and sc = total_preorder_on_swap [OF assms(1)]
  have l: "c x y \<noteq> Greater" "c y z \<noteq> Greater" using Cons.prems by (auto simp: ys zs)
  have xz: "c x z \<noteq> Greater" using tc [OF A] l by blast
  have "seq_cmp c xs zs' \<noteq> Greater" if e: "c x z = Equal"
  proof -
    have zx: "c z x \<noteq> Greater" using e sc [OF A(1,3)] by simp
    have "c y x \<noteq> Greater" "c z y \<noteq> Greater"
      using tc [OF A(2,3,1)] tc [OF A(3,1,2)] zx l by blast+
    then have "c x y = Equal" "c y z = Equal"
      using sc [OF A(1,2)] sc [OF A(2,3)] l by (cases "c x y"; cases "c y z"; simp)+
    with Cons show ?thesis by (auto simp: ys zs)
  qed
  with xz show ?case by (simp add: zs)
qed

lemma total_preorder_on_lists: "total_preorder_on A c \<Longrightarrow> total_preorder_on (lists A) (seq_cmp c)"
  unfolding total_preorder_on_def [of "lists A"]
  by (intro conjI ballI impI) (erule seq_cmp_refl seq_cmp_swap seq_cmp_trans; assumption)+

section \<open>Ordered maps\<close>

fun bt_insert :: "'k::linorder \<Rightarrow> 'v \<Rightarrow> ('k \<times> 'v) list \<Rightarrow> ('k \<times> 'v) list" where
  "bt_insert k v [] = [(k, v)]"
| "bt_insert k v ((k', v') # xs) =
     (if k < k' then (k, v) # (k', v') # xs
      else if k = k' then (k, v) # xs
      else (k', v') # bt_insert k v xs)"

fun bt_remove :: "'k::linorder \<Rightarrow> ('k \<times> 'v) list \<Rightarrow> ('k \<times> 'v) list" where
  "bt_remove k [] = []"
| "bt_remove k ((k', v') # xs) = (if k = k' then xs else (k', v') # bt_remove k xs)"

definition bt_ok :: "('k::linorder \<times> 'v) list \<Rightarrow> bool" where
  "bt_ok xs \<longleftrightarrow> sorted_wrt (<) (map fst xs)"

lemma bt_ok_simps [simp]:
  "bt_ok []"
  "bt_ok ((k, v) # xs) \<longleftrightarrow> (\<forall>k' \<in> fst ` set xs. k < k') \<and> bt_ok xs"
  by (auto simp: bt_ok_def)

lemma keys_bt_insert: "fst ` set (bt_insert k v xs) = insert k (fst ` set xs)"
  by (induction k v xs rule: bt_insert.induct) (simp_all, blast)

lemma keys_bt_remove: "fst ` set (bt_remove k xs) \<subseteq> fst ` set xs"
  by (induction k xs rule: bt_remove.induct) auto

lemma map_of_bt_insert [simp]: "map_of (bt_insert k v xs) = (map_of xs)(k \<mapsto> v)"
  by (induction k v xs rule: bt_insert.induct) auto

lemma bt_ok_insert [simp]: "bt_ok xs \<Longrightarrow> bt_ok (bt_insert k v xs)"
  by (induction k v xs rule: bt_insert.induct) (auto simp: keys_bt_insert)

lemma bt_ok_remove [simp]: "bt_ok xs \<Longrightarrow> bt_ok (bt_remove k xs)"
proof (induction k xs rule: bt_remove.induct)
  case (2 k k' v' xs)
  have "\<forall>j \<in> fst ` set (bt_remove k xs). k' < j"
    using "2.prems" keys_bt_remove [of k xs] by (meson bt_ok_simps(2) subsetD)
  with 2 show ?case by (cases "k = k'") simp_all
qed simp

lemma map_of_bt_remove [simp]: "bt_ok xs \<Longrightarrow> map_of (bt_remove k xs) = (map_of xs)(k := None)"
proof (induction k xs rule: bt_remove.induct)
  case (2 k k' v' xs)
  show ?case
  proof (cases "k = k'")
    case True
    with "2.prems" have "map_of xs k = None"
      by (metis bt_ok_simps(2) less_irrefl map_of_eq_None_iff)
    with True show ?thesis by (auto simp: fun_eq_iff)
  next
    case False
    with 2 show ?thesis by (auto simp: fun_eq_iff)
  qed
qed simp

lemma bt_ok_distinct: "bt_ok xs \<Longrightarrow> distinct (map fst xs)"
  unfolding bt_ok_def by (simp add: strict_sorted_iff)

lemma bt_ok_map_of_iff: "bt_ok xs \<Longrightarrow> map_of xs k = Some v \<longleftrightarrow> (k, v) \<in> set xs"
  by (simp add: bt_ok_distinct)

lemma bt_ok_ext:
  assumes "bt_ok xs" and "bt_ok ys" and "map_of xs = map_of ys"
  shows "xs = ys"
proof -
  have "set xs = set ys"
    using assms by (simp add: map_of_inject_set bt_ok_distinct)
  moreover have "sorted (map fst xs)" "sorted (map fst ys)" "distinct (map fst xs)" "distinct (map fst ys)"
    using assms(1,2) by (simp_all add: bt_ok_def strict_sorted_iff)
  moreover have "inj_on fst (set xs \<union> set ys)"
    using calculation by (simp add: distinct_map)
  ultimately show ?thesis
    by (intro map_sorted_distinct_set_unique)
qed

text \<open>
  The interface of an ordered key-value table, as the storage layer uses it: \<open>get\<close>,
  \<open>put\<close>, \<open>del\<close> and the key-ordered listing \<open>rows\<close>.
\<close>

locale ordered_map =
  fixes get :: "'m \<Rightarrow> 'k::linorder \<Rightarrow> 'v option"
    and put :: "'k \<Rightarrow> 'v \<Rightarrow> 'm \<Rightarrow> 'm"
    and del :: "'k \<Rightarrow> 'm \<Rightarrow> 'm"
    and rows :: "'m \<Rightarrow> ('k \<times> 'v) list"
    and inv :: "'m \<Rightarrow> bool"
  assumes get_rows: "inv m \<Longrightarrow> get m k = map_of (rows m) k"
    and rows_ok: "inv m \<Longrightarrow> bt_ok (rows m)"
    and get_put: "inv m \<Longrightarrow> get (put k v m) = (get m)(k \<mapsto> v)"
    and get_del: "inv m \<Longrightarrow> get (del k m) = (get m)(k := None)"
    and inv_put: "inv m \<Longrightarrow> inv (put k v m)"
    and inv_del: "inv m \<Longrightarrow> inv (del k m)"
begin

lemma get_iff_row: "inv m \<Longrightarrow> get m k = Some v \<longleftrightarrow> (k, v) \<in> set (rows m)"
  by (simp add: get_rows rows_ok bt_ok_map_of_iff)

lemma rows_put_mem:
  "inv m \<Longrightarrow> (k', v') \<in> set (rows (put k v m)) \<longleftrightarrow>
     (if k' = k then v' = v else (k', v') \<in> set (rows m))"
  using get_iff_row [of "put k v m" k' v'] get_iff_row [of m k' v'] by (auto simp: get_put inv_put)

lemma rows_del_mem:
  "inv m \<Longrightarrow> (k', v') \<in> set (rows (del k m)) \<longleftrightarrow> k' \<noteq> k \<and> (k', v') \<in> set (rows m)"
  using get_iff_row [of "del k m" k' v'] get_iff_row [of m k' v'] by (auto simp: get_del inv_del split: if_splits)

lemma rows_eqI: "inv m \<Longrightarrow> inv m' \<Longrightarrow> get m = get m' \<Longrightarrow> rows m = rows m'"
  by (rule bt_ok_ext) (simp_all add: rows_ok fun_eq_iff get_rows)

lemma rows_put_put: "inv m \<Longrightarrow> rows (put k v (put k w m)) = rows (put k v m)"
  by (rule rows_eqI) (simp_all add: inv_put get_put)

lemma rows_put_comm:
  "inv m \<Longrightarrow> k \<noteq> k' \<Longrightarrow> rows (put k v (put k' v' m)) = rows (put k' v' (put k v m))"
  by (rule rows_eqI) (simp_all add: inv_put get_put fun_upd_twist)

lemma rows_del_put_fresh: "inv m \<Longrightarrow> get m k = None \<Longrightarrow> rows (del k (put k v m)) = rows m"
  by (rule rows_eqI) (auto simp add: inv_put inv_del get_put get_del)

lemma rows_put_del: "inv m \<Longrightarrow> rows (put k v (del k m)) = rows (put k v m)"
  by (rule rows_eqI) (simp_all add: inv_put inv_del get_put get_del)

end

interpretation btree: ordered_map map_of bt_insert bt_remove "\<lambda>m. m" bt_ok
  by unfold_locales (simp_all)

end
