(* ===== verification/F64.thy ===== *)
theory F64
  imports Rust_Std
begin

text \<open>
  The 64-bit floating point numbers of the program, as their bit patterns: order
  (\<^verbatim>\<open>partial_cmp\<close>), conversion from and to 64-bit integers (\<^verbatim>\<open>as f64\<close>, \<^verbatim>\<open>as i64\<close>),
  addition and multiplication with the exact result rounded to nearest even.  The
  value of a finite number is an integer multiple of \<open>2 ^ -1074\<close>; \<open>unscale\<close> gives that
  multiple and \<open>round_mag\<close> goes back.  The lemmas show that integers up to \<open>2 ^ 53\<close> are
  exact, so that on them the order and the sums are those of the integers.
\<close>

section \<open>Representation\<close>

datatype f64 = F64 (bits: "64 word")

definition f64_neg :: "f64 \<Rightarrow> bool" where
  "f64_neg x \<longleftrightarrow> 2 ^ 63 \<le> unat (bits x)"

definition f64_mag :: "f64 \<Rightarrow> nat" where
  "f64_mag x = unat (bits x) mod 2 ^ 63"

definition inf_mag :: nat where
  "inf_mag = 2047 * 2 ^ 52"

definition of_sign_mag :: "bool \<Rightarrow> nat \<Rightarrow> f64" where
  "of_sign_mag s m = F64 (of_nat ((if s then 2 ^ 63 else 0) + m))"

definition is_nan :: "f64 \<Rightarrow> bool" where
  "is_nan x \<longleftrightarrow> inf_mag < f64_mag x"

definition is_inf :: "f64 \<Rightarrow> bool" where
  "is_inf x \<longleftrightarrow> f64_mag x = inf_mag"

definition is_finite :: "f64 \<Rightarrow> bool" where
  "is_finite x \<longleftrightarrow> f64_mag x < inf_mag"

definition f64_nan :: f64 where
  "f64_nan = of_sign_mag False (inf_mag + 2 ^ 51)"

definition unscale :: "nat \<Rightarrow> nat" where
  "unscale m = (if m div 2 ^ 52 = 0 then m mod 2 ^ 52
                else (2 ^ 52 + m mod 2 ^ 52) * 2 ^ (m div 2 ^ 52 - 1))"

definition f64_scaled :: "f64 \<Rightarrow> int" where
  "f64_scaled x = (if f64_neg x then - int (unscale (f64_mag x)) else int (unscale (f64_mag x)))"

fun nbits :: "nat \<Rightarrow> nat" where
  "nbits n = (if n = 0 then 0 else Suc (nbits (n div 2)))"

declare nbits.simps [simp del]

text \<open>The magnitude nearest to \<open>N / D\<close> (ties to even), in units of \<open>2 ^ -1074\<close>.\<close>

definition round_mag :: "nat \<Rightarrow> nat \<Rightarrow> nat" where
  "round_mag N D =
     (let e = nbits (N div D) - 53; s = D * 2 ^ e; m = N div s; r = N mod s;
          m' = (if s < 2 * r \<or> (2 * r = s \<and> odd m) then m + 1 else m)
      in min (e * 2 ^ 52 + m') inf_mag)"

section \<open>Operations\<close>

definition f64_of_int :: "int \<Rightarrow> f64" where
  "f64_of_int i = of_sign_mag (i < 0) (round_mag (nat \<bar>i\<bar> * 2 ^ 1074) 1)"

definition f64_key :: "f64 \<Rightarrow> int" where
  "f64_key x = (if f64_neg x then - int (f64_mag x) else int (f64_mag x))"

definition f64_partial_cmp :: "f64 \<Rightarrow> f64 \<Rightarrow> ordering option" where
  "f64_partial_cmp x y = (if is_nan x \<or> is_nan y then None else Some (cmp (f64_key x) (f64_key y)))"

definition f64_eq :: "f64 \<Rightarrow> f64 \<Rightarrow> bool" where
  "f64_eq x y \<longleftrightarrow> f64_partial_cmp x y = Some Equal"

definition f64_lt :: "f64 \<Rightarrow> f64 \<Rightarrow> bool" where
  "f64_lt x y \<longleftrightarrow> f64_partial_cmp x y = Some Less"

definition f64_le :: "f64 \<Rightarrow> f64 \<Rightarrow> bool" where
  "f64_le x y \<longleftrightarrow> f64_lt x y \<or> f64_eq x y"

definition f64_of_scaled :: "bool \<Rightarrow> int \<Rightarrow> nat \<Rightarrow> f64" where
  "f64_of_scaled zero_sign n d =
     (if n = 0 then of_sign_mag zero_sign 0 else of_sign_mag (n < 0) (round_mag (nat \<bar>n\<bar>) d))"

definition f64_add :: "f64 \<Rightarrow> f64 \<Rightarrow> f64" where
  "f64_add x y =
     (if is_nan x \<or> is_nan y then f64_nan
      else if is_inf x then (if is_inf y \<and> f64_neg x \<noteq> f64_neg y then f64_nan else x)
      else if is_inf y then y
      else f64_of_scaled (f64_neg x \<and> f64_neg y) (f64_scaled x + f64_scaled y) 1)"

definition f64_mul :: "f64 \<Rightarrow> f64 \<Rightarrow> f64" where
  "f64_mul x y =
     (let s = (f64_neg x \<noteq> f64_neg y) in
      if is_nan x \<or> is_nan y then f64_nan
      else if is_inf x \<or> is_inf y then
        (if f64_mag x = 0 \<or> f64_mag y = 0 then f64_nan else of_sign_mag s inf_mag)
      else f64_of_scaled s (f64_scaled x * f64_scaled y) (2 ^ 1074))"

definition f64_trunc :: "f64 \<Rightarrow> int" where
  "f64_trunc x = (if f64_neg x then - int (unscale (f64_mag x) div 2 ^ 1074)
                  else int (unscale (f64_mag x) div 2 ^ 1074))"

text \<open>\<^verbatim>\<open>x as i64\<close>: truncation, saturating at the bounds, \<open>0\<close> for a NaN.\<close>

definition f64_to_i64 :: "f64 \<Rightarrow> int" where
  "f64_to_i64 x =
     (if is_nan x then 0
      else if is_inf x then (if f64_neg x then - (2 ^ 63) else 2 ^ 63 - 1)
      else max (- (2 ^ 63)) (min (2 ^ 63 - 1) (f64_trunc x)))"

definition f64_to_i32 :: "f64 \<Rightarrow> int" where
  "f64_to_i32 x =
     (if is_nan x then 0
      else if is_inf x then (if f64_neg x then - (2 ^ 31) else 2 ^ 31 - 1)
      else max (- (2 ^ 31)) (min (2 ^ 31 - 1) (f64_trunc x)))"

text \<open>\<^verbatim>\<open>x.fract() == 0.0\<close> (false for infinities and NaN).\<close>

definition f64_is_whole :: "f64 \<Rightarrow> bool" where
  "f64_is_whole x \<longleftrightarrow> is_finite x \<and> unscale (f64_mag x) mod 2 ^ 1074 = 0"

definition f64_to_be_bytes :: "f64 \<Rightarrow> bytes" where
  "f64_to_be_bytes x = be_bytes 8 (bits x)"

section \<open>Bit lengths\<close>

lemma nbits_0 [simp]: "nbits 0 = 0"
  by (simp add: nbits.simps)

lemma nbits_pos: "0 < n \<Longrightarrow> nbits n = Suc (nbits (n div 2))"
  by (simp add: nbits.simps)

lemma nbits_upper: "n < 2 ^ nbits n"
proof (induction n rule: nbits.induct)
  case (1 n)
  show ?case
  proof (cases "n = 0")
    case False
    with 1 have "n div 2 < 2 ^ nbits (n div 2)" by simp
    with False show ?thesis by (simp add: nbits_pos)
  qed simp
qed

lemma nbits_lower: "0 < n \<Longrightarrow> 2 ^ (nbits n - 1) \<le> n"
proof (induction n rule: nbits.induct)
  case (1 n)
  show ?case
  proof (cases "n div 2 = 0")
    case True
    with 1 show ?thesis by (simp add: nbits_pos)
  next
    case False
    with 1 have "2 ^ (nbits (n div 2) - 1) \<le> n div 2" by simp
    moreover have "0 < nbits (n div 2)" using False by (simp add: nbits_pos)
    ultimately have "2 ^ nbits (n div 2) \<le> 2 * (n div 2)"
      by (metis Suc_pred' mult_le_mono2 power_Suc diff_Suc_1' One_nat_def)
    with 1 show ?thesis by (simp add: nbits_pos)
  qed
qed

lemma nbits_mult_pow: "0 < n \<Longrightarrow> nbits (n * 2 ^ k) = nbits n + k"
proof (induction k)
  case (Suc k)
  have "nbits (n * 2 ^ Suc k) = Suc (nbits ((2 * (n * 2 ^ k)) div 2))"
    using Suc.prems by (subst nbits_pos) (simp_all add: ac_simps)
  with Suc show ?case by simp
qed simp

lemma nbits_le: "n < 2 ^ k \<Longrightarrow> nbits n \<le> k"
proof (cases "n = 0")
  case False
  assume "n < 2 ^ k"
  then have "(2 :: nat) ^ (nbits n - 1) < 2 ^ k"
    using nbits_lower [of n] False by linarith
  then show ?thesis using power_less_imp_less_exp [of 2 "nbits n - 1" k] by simp
qed simp

section \<open>Scaling and rounding\<close>

lemma unscale_small: "m < 2 ^ 53 \<Longrightarrow> unscale m = m"
proof -
  assume m: "m < 2 ^ 53"
  show "unscale m = m"
  proof (cases "m div 2 ^ 52 = 0")
    case True
    then show ?thesis by (simp add: unscale_def)
  next
    case False
    with m have q: "m div 2 ^ 52 = 1" by (simp add: div_nat_eqI)
    have "m = 2 ^ 52 * (m div 2 ^ 52) + m mod 2 ^ 52" by simp
    with q show ?thesis by (simp add: unscale_def)
  qed
qed

lemma unscale_encode:
  assumes "2 ^ 52 \<le> m" and "m < 2 ^ 53"
  shows "unscale (e * 2 ^ 52 + m) = m * 2 ^ e"
proof -
  have m: "m div 2 ^ 52 = 1" using assms by (simp add: div_nat_eqI)
  then have m': "m = 2 ^ 52 + m mod 2 ^ 52"
    using div_mult_mod_eq [of m "2 ^ 52"] by simp
  have "(e * 2 ^ 52 + m) div 2 ^ 52 = e + 1" "(e * 2 ^ 52 + m) mod 2 ^ 52 = m mod 2 ^ 52"
    using m by simp_all
  then show ?thesis using m' by (simp add: unscale_def)
qed

lemma round_mag_exact:
  assumes "0 < n" and "n < 2 ^ 53" and "k \<le> 2000"
  shows "unscale (round_mag (n * 2 ^ k) 1) = n * 2 ^ k" "round_mag (n * 2 ^ k) 1 < inf_mag"
proof -
  define e where "e = nbits n + k - 53"
  define m where "m = n * 2 ^ (k - e)"
  have nb: "nbits (n * 2 ^ k) = nbits n + k" using assms by (simp add: nbits_mult_pow)
  have e: "e \<le> k" using nbits_le [OF assms(2)] by (simp add: e_def)
  have N: "n * 2 ^ k = m * 2 ^ e"
    using e by (simp add: m_def flip: power_add)
  have nm: "nbits m = nbits n + (k - e)" unfolding m_def using assms(1) by (rule nbits_mult_pow)
  have "nbits m \<le> 53" using nbits_le [OF assms(2)] unfolding nm e_def by arith
  then have m: "m < 2 ^ 53"
    using nbits_upper [of m] by (meson less_le_trans one_le_numeral power_increasing)
  have r: "round_mag (n * 2 ^ k) 1 = min (e * 2 ^ 52 + m) inf_mag"
    unfolding round_mag_def Let_def div_by_1 nb e_def [symmetric] unfolding N by simp
  have "e * 2 ^ 52 \<le> 2000 * 2 ^ 52" using e assms(3) by (intro mult_le_mono1) simp
  with m have b: "e * 2 ^ 52 + m < inf_mag" by (simp add: inf_mag_def)
  with r show "round_mag (n * 2 ^ k) 1 < inf_mag" by simp
  have "unscale (e * 2 ^ 52 + m) = m * 2 ^ e"
  proof (cases "e = 0")
    case True
    with m show ?thesis by (simp add: unscale_small)
  next
    case False
    then have "nbits m = 53" unfolding nm e_def using e by (simp add: e_def)
    moreover have "0 < m" using assms(1) by (simp add: m_def)
    ultimately have "2 ^ 52 \<le> m" using nbits_lower [of m] by simp
    then show ?thesis using m by (rule unscale_encode)
  qed
  with b r N show "unscale (round_mag (n * 2 ^ k) 1) = n * 2 ^ k" by simp
qed

lemma round_mag_0 [simp]: "round_mag 0 D = 0"
  by (simp add: round_mag_def)

lemma round_mag_cancel:
  assumes "0 < D"
  shows "round_mag (D * N) D = round_mag N 1"
proof -
  have "D * E < 2 * (D * r) \<longleftrightarrow> E < 2 * r" "2 * (D * r) = D * E \<longleftrightarrow> 2 * r = E" for E r
    using assms by (simp_all add: mult.left_commute [of 2 D])
  with assms show ?thesis
    by (simp add: round_mag_def Let_def div_mult_mult1 flip: mult_mod_right)
qed

lemma round_mag_int:
  assumes "n \<le> 2 ^ 53"
  shows "unscale (round_mag (n * 2 ^ 1074) 1) = n * 2 ^ 1074" "round_mag (n * 2 ^ 1074) 1 < inf_mag"
proof -
  consider "n = 0" | "0 < n" "n < 2 ^ 53" | "n = 2 ^ 53" using assms by linarith
  then have "unscale (round_mag (n * 2 ^ 1074) 1) = n * 2 ^ 1074 \<and> round_mag (n * 2 ^ 1074) 1 < inf_mag"
  proof cases
    case 1
    then show ?thesis by (simp add: unscale_def inf_mag_def)
  next
    case 2
    then show ?thesis using round_mag_exact [of n 1074] by simp
  next
    case 3
    have "n * 2 ^ 1074 = 1 * 2 ^ 1127" unfolding 3 by (simp flip: power_add)
    then show ?thesis using round_mag_exact [of 1 1127] by simp
  qed
  then show "unscale (round_mag (n * 2 ^ 1074) 1) = n * 2 ^ 1074" "round_mag (n * 2 ^ 1074) 1 < inf_mag"
    by blast+
qed

lemma unscale_Suc: "unscale m < unscale (Suc m)"
proof -
  define q where "q = m div 2 ^ 52"
  define f where "f = m mod 2 ^ 52"
  have m: "m = q * 2 ^ 52 + f" and f: "f < 2 ^ 52" by (simp_all add: q_def f_def)
  have u: "unscale m = (if q = 0 then f else (2 ^ 52 + f) * 2 ^ (q - 1))"
    unfolding unscale_def q_def f_def by (rule refl)
  show ?thesis
  proof (cases "Suc f < 2 ^ 52")
    case True
    have "Suc m div 2 ^ 52 = q" "Suc m mod 2 ^ 52 = Suc f"
      using True by (simp_all add: m flip: add_Suc_right)
    then have "unscale (Suc m) = (if q = 0 then Suc f else (2 ^ 52 + Suc f) * 2 ^ (q - 1))"
      unfolding unscale_def by (simp only:)
    with u show ?thesis by simp
  next
    case False
    with f have ff: "Suc f = 2 ^ 52" by simp
    have "Suc m = Suc q * 2 ^ 52" using ff by (simp add: m)
    then have s: "Suc m div 2 ^ 52 = Suc q" "Suc m mod 2 ^ 52 = 0" by simp_all
    have "(2 ^ 52 + f) * 2 ^ (q - 1) < (2 ^ 52 * 2 ^ q :: nat)" if "q \<noteq> 0"
    proof -
      have "(2 ^ 52 * 2 ^ q :: nat) = (2 ^ 52 + 2 ^ 52) * 2 ^ (q - 1)"
        using that by (cases q) simp_all
      with f show ?thesis by simp
    qed
    moreover have "unscale (Suc m) = 2 ^ 52 * 2 ^ q"
      unfolding unscale_def s by simp
    ultimately show ?thesis using f u by simp
  qed
qed

lemma unscale_strict_mono: "unscale m < unscale m' \<longleftrightarrow> m < m'"
  using lift_Suc_mono_less_iff [of unscale, OF unscale_Suc] .

lemma unscale_0 [simp]: "unscale 0 = 0"
  by (simp add: unscale_def)

lemma unscale_eq_0 [simp]: "unscale m = 0 \<longleftrightarrow> m = 0"
  using unscale_strict_mono [of 0 m] by auto

section \<open>Sign and magnitude\<close>

lemma f64_mag_bound: "f64_mag x < 2 ^ 63"
  by (simp add: f64_mag_def)

lemma unat_of_sign_mag: "m < 2 ^ 63 \<Longrightarrow> unat (bits (of_sign_mag s m)) = (if s then 2 ^ 63 else 0) + m"
proof -
  assume "m < 2 ^ 63"
  then have "(if s then 2 ^ 63 else 0) + m < 2 ^ 64" by simp
  then show ?thesis
    unfolding of_sign_mag_def f64.sel unsigned_of_nat by (subst take_bit_nat_eq_self) simp_all
qed

lemma of_sign_mag_parts [simp]:
  assumes "m < 2 ^ 63"
  shows "f64_neg (of_sign_mag s m) = s" "f64_mag (of_sign_mag s m) = m"
  using unat_of_sign_mag [OF assms, of s] assms by (simp_all add: f64_neg_def f64_mag_def)

lemma of_sign_mag_of_parts: "of_sign_mag (f64_neg x) (f64_mag x) = x"
proof -
  have "unat (bits x) < 2 ^ 64" using unsigned_less [of "bits x"] by simp
  then have "(if f64_neg x then 2 ^ 63 else 0) + f64_mag x = unat (bits x)"
    by (auto simp: f64_neg_def f64_mag_def le_mod_geq)
  then show ?thesis by (simp add: of_sign_mag_def)
qed

lemma f64_key_less: "f64_key x < f64_key y \<longleftrightarrow> f64_scaled x < f64_scaled y"
  using unscale_strict_mono [of "f64_mag x" "f64_mag y"] unscale_strict_mono [of "f64_mag y" "f64_mag x"]
    unscale_eq_0 [of "f64_mag x"] unscale_eq_0 [of "f64_mag y"]
  unfolding f64_key_def f64_scaled_def by (simp only: split: if_split) linarith

lemma f64_key_eq: "f64_key x = f64_key y \<longleftrightarrow> f64_scaled x = f64_scaled y"
  by (metis f64_key_less linorder_less_linear order_less_irrefl)

lemma cmp_f64_key: "cmp (f64_key x) (f64_key y) = cmp (f64_scaled x) (f64_scaled y)"
  unfolding cmp_def f64_key_less f64_key_eq ..

section \<open>Integers up to \<open>2 ^ 53\<close> are exact\<close>

definition exact_int :: "int \<Rightarrow> bool" where
  "exact_int i \<longleftrightarrow> \<bar>i\<bar> \<le> 2 ^ 53"

lemma inf_mag_less: "inf_mag < 2 ^ 63"
  by (simp add: inf_mag_def)

lemma f64_of_int_exact:
  assumes "exact_int i"
  shows "is_finite (f64_of_int i)" "f64_scaled (f64_of_int i) = i * 2 ^ 1074"
    "f64_neg (f64_of_int i) \<longleftrightarrow> i < 0" "unscale (f64_mag (f64_of_int i)) = nat \<bar>i\<bar> * 2 ^ 1074"
proof -
  define m where "m = round_mag (nat \<bar>i\<bar> * 2 ^ 1074) 1"
  have "nat \<bar>i\<bar> \<le> 2 ^ 53" using assms by (simp add: exact_int_def nat_le_iff)
  note r = round_mag_int [OF this, folded m_def]
  have m63: "m < 2 ^ 63" using r(2) inf_mag_less by linarith
  have p: "f64_neg (f64_of_int i) = (i < 0)" "f64_mag (f64_of_int i) = m"
    unfolding f64_of_int_def m_def [symmetric] using m63 by simp_all
  show "f64_neg (f64_of_int i) \<longleftrightarrow> i < 0" by (rule p(1))
  show u: "unscale (f64_mag (f64_of_int i)) = nat \<bar>i\<bar> * 2 ^ 1074" unfolding p(2) by (rule r(1))
  show "is_finite (f64_of_int i)" unfolding is_finite_def p(2) by (rule r(2))
  have "int (nat \<bar>i\<bar> * 2 ^ 1074) = \<bar>i\<bar> * 2 ^ 1074" by simp
  then show "f64_scaled (f64_of_int i) = i * 2 ^ 1074"
    unfolding f64_scaled_def u p(1) by (simp only: split: if_split) simp
qed

lemma is_finite_not_special: "is_finite x \<Longrightarrow> \<not> is_nan x \<and> \<not> is_inf x"
  by (auto simp: is_finite_def is_nan_def is_inf_def)

lemma cmp_scale: "0 < (d :: int) \<Longrightarrow> cmp (a * d) (b * d) = cmp a b"
  by (simp add: cmp_def)

lemma f64_cmp_of_int:
  assumes "exact_int i" and "exact_int j"
  shows "f64_partial_cmp (f64_of_int i) (f64_of_int j) = Some (cmp i j)"
proof -
  have "cmp (f64_key (f64_of_int i)) (f64_key (f64_of_int j)) = cmp i j"
    unfolding cmp_f64_key f64_of_int_exact(2) [OF assms(1)] f64_of_int_exact(2) [OF assms(2)]
    by (rule cmp_scale) simp
  then show ?thesis
    using assms f64_of_int_exact(1) is_finite_not_special by (simp add: f64_partial_cmp_def)
qed

lemma f64_key_of_int_cmp:
  assumes "exact_int i" and "exact_int j"
  shows "cmp (f64_key (f64_of_int i)) (f64_key (f64_of_int j)) = cmp i j"
  unfolding cmp_f64_key f64_of_int_exact(2) [OF assms(1)] f64_of_int_exact(2) [OF assms(2)]
  by (rule cmp_scale) simp

lemma f64_of_scaled_int: "i \<noteq> 0 \<Longrightarrow> f64_of_scaled z (i * 2 ^ 1074) 1 = f64_of_int i"
proof -
  assume i: "i \<noteq> 0"
  have "nat \<bar>i * 2 ^ 1074\<bar> = nat \<bar>i\<bar> * 2 ^ 1074"
    by (simp only: abs_mult nat_mult_distrib abs_ge_zero) simp
  moreover have "i * 2 ^ 1074 < 0 \<longleftrightarrow> i < 0" "i * 2 ^ 1074 \<noteq> 0"
    using i by (simp_all add: mult_less_0_iff)
  ultimately show ?thesis by (simp only: f64_of_scaled_def f64_of_int_def if_False)
qed

lemma f64_add_of_int:
  assumes "exact_int i" and "exact_int j"
  shows "f64_add (f64_of_int i) (f64_of_int j) = f64_of_int (i + j)"
proof -
  note ei = f64_of_int_exact [OF assms(1)] and ej = f64_of_int_exact [OF assms(2)]
  have "f64_add (f64_of_int i) (f64_of_int j) = f64_of_scaled (i < 0 \<and> j < 0) ((i + j) * 2 ^ 1074) 1"
    unfolding f64_add_def ei(2,3) ej(2,3) distrib_right
    using is_finite_not_special [OF ei(1)] is_finite_not_special [OF ej(1)] by (simp only: if_False simp_thms)
  also have "\<dots> = f64_of_int (i + j)"
  proof (cases "i + j = 0")
    case True
    then have "(i < 0 \<and> j < 0) = False" by auto
    then show ?thesis unfolding True by (simp only: f64_of_scaled_def f64_of_int_def) simp
  qed (rule f64_of_scaled_int)
  finally show ?thesis .
qed

lemma f64_mul_of_int:
  assumes "exact_int i" and "exact_int j" and "i * j \<noteq> 0"
  shows "f64_mul (f64_of_int i) (f64_of_int j) = f64_of_int (i * j)"
proof -
  note ei = f64_of_int_exact [OF assms(1)] and ej = f64_of_int_exact [OF assms(2)]
  define D where "D = (2 :: nat) ^ 1074"
  have D: "(2 :: int) ^ 1074 = int D" "0 < D" by (simp_all only: D_def of_nat_power) simp_all
  have nz: "i * int D * (j * int D) \<noteq> 0" using assms(3) D(2) by simp
  have n: "nat \<bar>i * int D * (j * int D)\<bar> = D * (nat \<bar>i * j\<bar> * D)"
    by (simp add: abs_mult nat_mult_distrib ac_simps)
  have s: "i * int D * (j * int D) < 0 \<longleftrightarrow> i * j < 0"
    using D(2) by (simp add: mult_less_0_iff zero_less_mult_iff)
  have "f64_mul (f64_of_int i) (f64_of_int j) = f64_of_scaled ((i < 0) \<noteq> (j < 0)) (i * int D * (j * int D)) D"
    unfolding f64_mul_def ei(2,3) ej(2,3) Let_def D(1) D_def [symmetric]
    using is_finite_not_special [OF ei(1)] is_finite_not_special [OF ej(1)] by (simp only: if_False simp_thms)
  also have "\<dots> = f64_of_int (i * j)"
    unfolding f64_of_scaled_def f64_of_int_def n s round_mag_cancel [OF D(2)] D_def [symmetric]
    using nz by (simp only: if_False)
  finally show ?thesis .
qed

lemma f64_trunc_of_int: "exact_int i \<Longrightarrow> f64_trunc (f64_of_int i) = i"
proof -
  assume i: "exact_int i"
  have "nat \<bar>i\<bar> * 2 ^ 1074 div 2 ^ 1074 = nat \<bar>i\<bar>" by (rule nonzero_mult_div_cancel_right) simp
  then show ?thesis
    unfolding f64_trunc_def f64_of_int_exact(3,4) [OF i] by simp
qed

lemma f64_to_i64_of_int: "exact_int i \<Longrightarrow> f64_to_i64 (f64_of_int i) = i"
  using is_finite_not_special [OF f64_of_int_exact(1)] f64_trunc_of_int
  by (auto simp: f64_to_i64_def exact_int_def)

lemma f64_is_whole_of_int: "exact_int i \<Longrightarrow> f64_is_whole (f64_of_int i)"
  unfolding f64_is_whole_def using f64_of_int_exact(1,4) by (simp only: mod_mult_self2_is_0 simp_thms)

section \<open>The first integer that is not exact\<close>

lemma round_mag_tie_down:
  assumes "nbits n = 54" and "k \<le> 2000" and "n mod 4 = 1"
  shows "round_mag (n * 2 ^ k) 1 = round_mag ((n - 1) * 2 ^ k) 1"
proof -
  have n: "n div 2 * 2 = n - 1" "odd n" "even (n div 2)" using assms(3) by presburger+
  have pos: "0 < n" using n(2) by (cases n) auto
  have "nbits (n - 1) = 54"
  proof -
    have "nbits (n div 2) = 53" using assms(1) pos by (simp add: nbits_pos)
    moreover have "0 < n div 2" using \<open>nbits (n div 2) = 53\<close> by (cases "n div 2 = 0") auto
    ultimately show ?thesis using nbits_mult_pow [of "n div 2" 1] n(1) by simp
  qed
  moreover have "0 < n - 1" using calculation by (cases "n - 1 = 0") auto
  ultimately have nb: "nbits (n * 2 ^ k) - 53 = Suc k" "nbits ((n - 1) * 2 ^ k) - 53 = Suc k"
    using assms(1) pos by (simp_all add: nbits_mult_pow)
  have d: "n * 2 ^ k div 2 ^ Suc k = n div 2" "(n - 1) * 2 ^ k div 2 ^ Suc k = n div 2"
    "(n - 1) * 2 ^ k mod 2 ^ Suc k = 0" "n * 2 ^ k mod 2 ^ Suc k = 2 ^ k"
    using n by (simp_all add: mult_mod_left [symmetric] odd_iff_mod_2_eq_one div_mult_mult1 flip: n(1))
  show ?thesis unfolding round_mag_def Let_def div_by_1 nb mult_1 d using n(3) by simp
qed

lemma f64_of_int_inexact: "f64_of_int 9007199254740993 = f64_of_int 9007199254740992"
proof -
  have "nbits 9007199254740993 = 54" by (simp add: nbits_pos)
  from round_mag_tie_down [OF this, of 1074]
  have "round_mag (9007199254740993 * 2 ^ 1074) 1 = round_mag (9007199254740992 * 2 ^ 1074) 1"
    by simp
  moreover have "nat \<bar>9007199254740993 :: int\<bar> = 9007199254740993"
    "nat \<bar>9007199254740992 :: int\<bar> = 9007199254740992" by simp_all
  ultimately show ?thesis unfolding f64_of_int_def by (simp only:) simp
qed

section \<open>Rounding is monotone\<close>

definition rne :: "nat \<Rightarrow> nat \<Rightarrow> nat" where
  "rne N s = (if s < 2 * (N mod s) \<or> (2 * (N mod s) = s \<and> odd (N div s)) then N div s + 1 else N div s)"

lemma rne_mono:
  assumes "N \<le> N'"
  shows "rne N s \<le> rne N' s"
proof (cases "N div s = N' div s")
  case True
  have "N mod s \<le> N' mod s"
    using assms div_mult_mod_eq [of N s] div_mult_mod_eq [of N' s] unfolding True by linarith
  with True show ?thesis by (auto simp: rne_def)
next
  case False
  then have "N div s < N' div s" using div_le_mono [OF assms, of s] by linarith
  then show ?thesis by (auto simp: rne_def)
qed

lemma rne_bounds: "N div s \<le> rne N s" "rne N s \<le> N div s + 1"
  by (simp_all add: rne_def)

lemma round_mag_rne: "round_mag N 1 = min ((nbits N - 53) * 2 ^ 52 + rne N (2 ^ (nbits N - 53))) inf_mag"
  unfolding round_mag_def rne_def Let_def div_by_1 mult_1 ..

lemma nbits_mono: "N \<le> N' \<Longrightarrow> nbits N \<le> nbits N'"
  using nbits_upper [of N'] by (intro nbits_le) linarith

lemma round_mag_mono:
  assumes "N \<le> N'"
  shows "round_mag N 1 \<le> round_mag N' 1"
proof -
  define e where "e = nbits N - 53"
  define e' where "e' = nbits N' - 53"
  have "e * 2 ^ 52 + rne N (2 ^ e) \<le> e' * 2 ^ 52 + rne N' (2 ^ e')"
  proof (cases "e = e'")
    case True
    then show ?thesis using rne_mono [OF assms, of "2 ^ e"] by simp
  next
    case False
    then have less: "e < e'" using nbits_mono [OF assms] by (simp add: e_def e'_def)
    have "N < 2 ^ (53 + e)"
      using nbits_upper [of N] by (rule less_le_trans) (simp add: e_def)
    then have "N div 2 ^ e < 2 ^ 53" by (simp add: power_add less_mult_imp_div_less mult.commute)
    then have "rne N (2 ^ e) \<le> 2 ^ 53" using rne_bounds(2) [of N "2 ^ e"] by linarith
    moreover have "2 ^ 52 \<le> rne N' (2 ^ e')"
    proof -
      have "0 < nbits N'" using less by (simp add: e'_def)
      then have "0 < N'" by (cases "N' = 0") auto
      then have "2 ^ (nbits N' - 1) \<le> N'" by (rule nbits_lower)
      moreover have "nbits N' - 1 = 52 + e'" using less by (simp add: e'_def)
      ultimately have "2 ^ 52 * 2 ^ e' \<le> N'" by (simp add: power_add)
      then have "2 ^ 52 \<le> N' div 2 ^ e'" by (simp add: less_eq_div_iff_mult_less_eq)
      then show ?thesis using rne_bounds(1) [of N' "2 ^ e'"] by linarith
    qed
    moreover have "(e + 1) * 2 ^ 52 \<le> e' * 2 ^ 52" using less by (intro mult_le_mono1) simp
    ultimately show ?thesis by simp
  qed
  then show ?thesis unfolding round_mag_rne e_def e'_def by (simp add: min_le_iff_disj)
qed

lemma f64_key_of_int: "f64_key (f64_of_int i) =
    (if i < 0 then - int (round_mag (nat \<bar>i\<bar> * 2 ^ 1074) 1) else int (round_mag (nat \<bar>i\<bar> * 2 ^ 1074) 1))"
proof -
  have "round_mag N 1 < 2 ^ 63" for N
    using inf_mag_less unfolding round_mag_rne by linarith
  then show ?thesis unfolding f64_key_def f64_of_int_def by simp
qed

lemma f64_key_of_int_mono:
  assumes "i \<le> j"
  shows "f64_key (f64_of_int i) \<le> f64_key (f64_of_int j)"
proof -
  have m: "round_mag (a * 2 ^ 1074) 1 \<le> round_mag (b * 2 ^ 1074) 1" if "a \<le> b" for a b
    using that by (intro round_mag_mono mult_le_mono1)
  show ?thesis
    unfolding f64_key_of_int
    using assms m [of "nat \<bar>i\<bar>" "nat \<bar>j\<bar>"] m [of "nat \<bar>j\<bar>" "nat \<bar>i\<bar>"]
    by (simp only: split: if_split) linarith
qed
lemma f64_of_int_not_nan: "\<not> is_nan (f64_of_int i)"
proof -
  have r: "round_mag N 1 \<le> inf_mag" for N
    unfolding round_mag_def Let_def by (rule min.cobounded2)
  have "f64_mag (f64_of_int i) \<le> inf_mag"
    unfolding f64_of_int_def
    by (subst of_sign_mag_parts(2) [OF le_less_trans [OF r inf_mag_less]]) (rule r)
  then show ?thesis by (simp add: is_nan_def)
qed

end
