(* ===== verification/F64_Ops.thy ===== *)
theory F64_Ops
  imports F64
begin

text \<open>
  The rest of the floating point arithmetic the engine uses: subtraction, division and
  remainder, the roundings to integers, the conversions \<^verbatim>\<open>as usize\<close> and \<^verbatim>\<open>as u8\<close>, and the decimal
  strings that \<^verbatim>\<open>str::parse::<f64>\<close> and \<^verbatim>\<open>str::parse::<i32>\<close> accept.  A decimal is rounded once, to
  nearest even, from its exact value.
\<close>

section \<open>Arithmetic\<close>

definition f64_negate :: "f64 \<Rightarrow> f64" where
  "f64_negate x = of_sign_mag (\<not> f64_neg x) (f64_mag x)"

definition f64_abs :: "f64 \<Rightarrow> f64" where
  "f64_abs x = of_sign_mag False (f64_mag x)"

definition f64_sub :: "f64 \<Rightarrow> f64 \<Rightarrow> f64" where
  "f64_sub x y = f64_add x (f64_negate y)"

definition f64_div :: "f64 \<Rightarrow> f64 \<Rightarrow> f64" where
  "f64_div x y =
     (let s = (f64_neg x \<noteq> f64_neg y) in
      if is_nan x \<or> is_nan y \<or> is_inf x \<and> is_inf y \<or> f64_mag x = 0 \<and> f64_mag y = 0 then f64_nan
      else if is_inf x \<or> f64_mag y = 0 then of_sign_mag s inf_mag
      else if is_inf y then of_sign_mag s 0
      else of_sign_mag s (round_mag (unscale (f64_mag x) * 2 ^ 1074) (unscale (f64_mag y))))"

text \<open>\<^verbatim>\<open>x % y\<close>: exact, with the sign of \<open>x\<close>.\<close>

definition f64_rem :: "f64 \<Rightarrow> f64 \<Rightarrow> f64" where
  "f64_rem x y =
     (if is_nan x \<or> is_nan y \<or> is_inf x \<or> f64_mag y = 0 then f64_nan
      else if is_inf y then x
      else of_sign_mag (f64_neg x) (round_mag (unscale (f64_mag x) mod unscale (f64_mag y)) 1))"

text \<open>An integral result; a zero keeps the sign of the argument.\<close>

definition f64_integral :: "f64 \<Rightarrow> int \<Rightarrow> f64" where
  "f64_integral x i = (if \<not> is_finite x then x else if i = 0 then of_sign_mag (f64_neg x) 0 else f64_of_int i)"

definition f64_floor :: "f64 \<Rightarrow> f64" where
  "f64_floor x = f64_integral x (f64_scaled x div 2 ^ 1074)"

definition f64_ceil :: "f64 \<Rightarrow> f64" where
  "f64_ceil x = f64_integral x (- ((- f64_scaled x) div 2 ^ 1074))"

text \<open>\<^verbatim>\<open>x.round()\<close>: ties away from zero.\<close>

definition f64_round :: "f64 \<Rightarrow> f64" where
  "f64_round x = f64_integral x
     ((if f64_neg x then -1 else 1) * int ((2 * unscale (f64_mag x) + 2 ^ 1074) div 2 ^ 1075))"

definition f64_to_usize :: "f64 \<Rightarrow> nat" where
  "f64_to_usize x =
     (if is_nan x \<or> f64_neg x then 0
      else if is_inf x then 2 ^ 64 - 1
      else min (2 ^ 64 - 1) (nat (f64_trunc x)))"

abbreviation f64_zero :: f64 where
  "f64_zero \<equiv> f64_of_int 0"

abbreviation f64_gt :: "f64 \<Rightarrow> f64 \<Rightarrow> bool" where
  "f64_gt x y \<equiv> f64_lt y x"

abbreviation f64_ge :: "f64 \<Rightarrow> f64 \<Rightarrow> bool" where
  "f64_ge x y \<equiv> f64_le y x"

section \<open>Decimal strings\<close>

definition lower_char :: "char \<Rightarrow> char" where
  "lower_char c = (let n = of_char c :: nat in if 65 \<le> n \<and> n \<le> 90 then char_of (n + 32) else c)"

fun take_sign :: "string \<Rightarrow> bool \<times> string" where
  "take_sign (c # r) = (if c = CHR ''-'' then (True, r) else if c = CHR ''+'' then (False, r) else (False, c # r))"
| "take_sign [] = (False, [])"

definition dec_f64 :: "bool \<Rightarrow> nat \<Rightarrow> int \<Rightarrow> f64" where
  "dec_f64 s m e = of_sign_mag s
     (if 0 \<le> e then round_mag (m * 10 ^ nat e * 2 ^ 1074) 1 else round_mag (m * 2 ^ 1074) (10 ^ nat (- e)))"

fun parse_exponent :: "string \<Rightarrow> int option" where
  "parse_exponent [] = Some 0"
| "parse_exponent (c # r) =
     (if c \<noteq> CHR ''e'' \<and> c \<noteq> CHR ''E'' then None
      else let (s, ds) = take_sign r in
        if ds = [] \<or> \<not> list_all is_digit ds then None
        else Some (if s then - int (digits_val ds) else int (digits_val ds)))"

definition parse_f64 :: "string \<Rightarrow> f64 option" where
  "parse_f64 text =
     (let (s, r) = take_sign text; w = map lower_char r in
      if w = ''inf'' \<or> w = ''infinity'' then Some (of_sign_mag s inf_mag)
      else if w = ''nan'' then Some (of_sign_mag s (f64_mag f64_nan))
      else
        let ip = takeWhile is_digit r;
            r1 = dropWhile is_digit r;
            (fp, r2) = (case r1 of c # r' \<Rightarrow> if c = CHR ''.'' then (takeWhile is_digit r', dropWhile is_digit r') else ([], r1)
                        | [] \<Rightarrow> ([], r1))
        in if ip @ fp = [] then None
           else map_option (\<lambda>e. dec_f64 s (digits_val (ip @ fp)) (e - int (length fp))) (parse_exponent r2))"

text \<open>\<^verbatim>\<open>s.parse::<i32>()\<close>.\<close>

definition parse_i32 :: "string \<Rightarrow> int option" where
  "parse_i32 text =
     (let (s, ds) = take_sign text in
      if ds = [] \<or> \<not> list_all is_digit ds then None
      else let n = (if s then - int (digits_val ds) else int (digits_val ds)) in
        if - (2 ^ 31) \<le> n \<and> n < 2 ^ 31 then Some n else None)"

section \<open>Integers written in decimal\<close>

lemma takeWhile_show_nat: "takeWhile is_digit (show_nat n) = show_nat n" "dropWhile is_digit (show_nat n) = []"
  using show_nat_digits [of n] by (simp_all add: takeWhile_eq_all_conv dropWhile_eq_Nil_conv list_all_iff)

lemma take_sign_show_nat: "take_sign (show_nat n) = (False, show_nat n)"
proof (cases "show_nat n")
  case (Cons c r)
  then have "is_digit c" using show_nat_digits [of n] by simp
  then show ?thesis using Cons by (auto simp: is_digit_def)
qed simp

lemma parse_i32_show_nat: "n < 2 ^ 31 \<Longrightarrow> parse_i32 (show_nat n) = Some (int n)"
  using show_nat_digits [of n] by (simp add: parse_i32_def take_sign_show_nat digits_val_show_nat)

lemma parse_i32_show_int: "- (2 ^ 31) \<le> i \<Longrightarrow> i < 2 ^ 31 \<Longrightarrow> parse_i32 (show_int i) = Some i"
proof (cases "i < 0")
  case True
  assume "- (2 ^ 31) \<le> i"
  with True show ?thesis using show_nat_digits [of "nat (- i)"]
    by (simp add: parse_i32_def show_int_def digits_val_show_nat)
next
  case False
  assume "i < 2 ^ 31"
  with False parse_i32_show_nat [of "nat i"] show ?thesis by (simp add: show_int_def)
qed

lemma lower_digit: "is_digit c \<Longrightarrow> lower_char c = c"
  by (simp add: lower_char_def is_digit_def)

lemma map_lower_show_nat: "map lower_char (show_nat n) = show_nat n"
  using show_nat_digits [of n] by (simp add: map_idI list_all_iff lower_digit)

lemma show_nat_not_word: "show_nat n \<noteq> CHR ''i'' # w" "show_nat n \<noteq> CHR ''n'' # w"
  using show_nat_digits [of n] by (auto simp: is_digit_def)

lemma parse_f64_show_nat: "parse_f64 (show_nat n) = Some (f64_of_int (int n))"
proof -
  have "dec_f64 False n 0 = f64_of_int (int n)"
    unfolding dec_f64_def f64_of_int_def by simp
  then show ?thesis
    by (simp add: parse_f64_def take_sign_show_nat map_lower_show_nat show_nat_not_word
        takeWhile_show_nat digits_val_show_nat Let_def)
qed

end
