(* ===== verification/Bson.thy ===== *)
theory Bson
  imports Ordered F64_Ops
begin

text \<open>
  BSON values and documents, the accessors of the \<^verbatim>\<open>bson\<close> crate the engine calls, and the
  engine's two comparison functions: \<open>bson_cmp\<close> (queries) and \<open>compare_bson\<close> (sorting).
  A document is its insertion-ordered list of fields; the well-formed ones have distinct
  keys at every level.
\<close>

section \<open>Values\<close>

datatype bson =
    Double f64
  | Str string
  | Array "bson list"
  | Document "(string \<times> bson) list"
  | Boolean bool
  | Null
  | RegularExpression string string
  | JavaScriptCode string
  | JavaScriptCodeWithScope string "(string \<times> bson) list"
  | Int32 "32 word"
  | Int64 "64 word"
  | Timestamp "32 word" "32 word"
  | Binary "8 word" bytes
  | ObjectId bytes
  | DateTime "64 word"
  | Symbol string
  | Decimal128 bytes
  | Undefined
  | MaxKey
  | MinKey
  | DbPointer string bytes

type_synonym doc = "(string \<times> bson) list"

text \<open>\<^verbatim>\<open>Document::get\<close>, \<^verbatim>\<open>insert\<close>, \<^verbatim>\<open>remove\<close> and \<^verbatim>\<open>contains_key\<close>.\<close>

abbreviation doc_get :: "doc \<Rightarrow> string \<Rightarrow> bson option" where
  "doc_get d k \<equiv> map_of d k"

abbreviation doc_insert :: "string \<Rightarrow> bson \<Rightarrow> doc \<Rightarrow> doc" where
  "doc_insert \<equiv> al_insert"

abbreviation doc_remove :: "string \<Rightarrow> doc \<Rightarrow> doc" where
  "doc_remove \<equiv> al_remove"

definition contains_key :: "doc \<Rightarrow> string \<Rightarrow> bool" where
  "contains_key d k \<longleftrightarrow> doc_get d k \<noteq> None"

fun as_document :: "bson \<Rightarrow> doc option" where
  "as_document (Document d) = Some d"
| "as_document _ = None"

fun as_array_opt :: "bson \<Rightarrow> bson list option" where
  "as_array_opt (Array xs) = Some xs"
| "as_array_opt _ = None"

fun as_str :: "bson \<Rightarrow> string option" where
  "as_str (Str s) = Some s"
| "as_str _ = None"

fun as_bool :: "bson \<Rightarrow> bool option" where
  "as_bool (Boolean b) = Some b"
| "as_bool _ = None"

fun as_i32 :: "bson \<Rightarrow> 32 word option" where
  "as_i32 (Int32 n) = Some n"
| "as_i32 _ = None"

fun as_i64 :: "bson \<Rightarrow> 64 word option" where
  "as_i64 (Int64 n) = Some n"
| "as_i64 _ = None"

lemma accessor_Some [simp]:
  "as_document v = Some d \<longleftrightarrow> v = Document d"
  "as_array_opt v = Some xs \<longleftrightarrow> v = Array xs"
  "as_str v = Some s \<longleftrightarrow> v = Str s"
  "Some d = as_document v \<longleftrightarrow> v = Document d"
  "Some xs = as_array_opt v \<longleftrightarrow> v = Array xs"
  "Some s = as_str v \<longleftrightarrow> v = Str s"
  by (cases v; auto)+

text \<open>The hexadecimal form of an object id.\<close>

definition hex_digit :: "nat \<Rightarrow> char" where
  "hex_digit n = char_of (if n < 10 then 48 + n else 87 + n)"

definition to_hex :: "bytes \<Rightarrow> string" where
  "to_hex bs = concat (map (\<lambda>b. [hex_digit (unat b div 16), hex_digit (unat b mod 16)]) bs)"

text \<open>Signed integers as BSON numbers.\<close>

definition i32 :: "int \<Rightarrow> bson" where
  "i32 n = Int32 (word_of_int n)"

definition i64 :: "int \<Rightarrow> bson" where
  "i64 n = Int64 (word_of_int n)"

text \<open>Well-formed values: every document in them has distinct keys.\<close>

fun bson_ok :: "bson \<Rightarrow> bool" where
  "bson_ok (Array xs) \<longleftrightarrow> (\<forall>x \<in> set xs. bson_ok x)"
| "bson_ok (Document d) \<longleftrightarrow> distinct (map fst d) \<and> (\<forall>(k, v) \<in> set d. bson_ok v)"
| "bson_ok (JavaScriptCodeWithScope c d) \<longleftrightarrow> distinct (map fst d) \<and> (\<forall>(k, v) \<in> set d. bson_ok v)"
| "bson_ok _ \<longleftrightarrow> True"

definition doc_ok :: "doc \<Rightarrow> bool" where
  "doc_ok d \<longleftrightarrow> bson_ok (Document d)"

text \<open>The number of nodes of a value, the measure of the recursion.\<close>

fun bson_nodes :: "bson \<Rightarrow> nat" where
  "bson_nodes (Array xs) = Suc (sum_list (map bson_nodes xs))"
| "bson_nodes (Document d) = Suc (sum_list (map (\<lambda>(_, v). bson_nodes v) d))"
| "bson_nodes _ = 1"

lemma bson_nodes_item: "x \<in> set xs \<Longrightarrow> bson_nodes x < bson_nodes (Array xs)"
  by (simp add: less_Suc_eq_le member_le_sum_list)

lemma bson_nodes_field: "(k, v) \<in> set d \<Longrightarrow> bson_nodes v < bson_nodes (Document d)"
  using member_le_sum_list [of "bson_nodes v" "map (\<lambda>(_, v). bson_nodes v) d"] by force

section \<open>The comparison of queries\<close>

fun bson_type_order :: "bson \<Rightarrow> int" where
  "bson_type_order Null = 0"
| "bson_type_order Undefined = 0"
| "bson_type_order (Int32 _) = 1"
| "bson_type_order (Int64 _) = 1"
| "bson_type_order (Double _) = 1"
| "bson_type_order (Decimal128 _) = 1"
| "bson_type_order (Str _) = 2"
| "bson_type_order (Symbol _) = 2"
| "bson_type_order (Document _) = 3"
| "bson_type_order (Array _) = 4"
| "bson_type_order (Binary _ _) = 5"
| "bson_type_order (ObjectId _) = 6"
| "bson_type_order (Boolean _) = 7"
| "bson_type_order (DateTime _) = 8"
| "bson_type_order (Timestamp _ _) = 9"
| "bson_type_order (RegularExpression _ _) = 10"
| "bson_type_order (JavaScriptCode _) = 11"
| "bson_type_order (JavaScriptCodeWithScope _ _) = 11"
| "bson_type_order (DbPointer _ _) = 12"
| "bson_type_order MaxKey = 127"
| "bson_type_order MinKey = -128"

abbreviation cmp_f64 :: "f64 \<Rightarrow> f64 \<Rightarrow> ordering" where
  "cmp_f64 x y \<equiv> opt_or Equal (f64_partial_cmp x y)"

fun bson_cmp :: "bson \<Rightarrow> bson \<Rightarrow> ordering" where
  "bson_cmp a b =
     (let type_order = cmp (bson_type_order a) (bson_type_order b) in
      if type_order \<noteq> Equal then type_order
      else case a of
        Int32 m \<Rightarrow> (case b of Int32 n \<Rightarrow> cmp (sint m) (sint n)
                          | Int64 n \<Rightarrow> cmp (sint m) (sint n)
                          | Double y \<Rightarrow> cmp_f64 (f64_of_int (sint m)) y
                          | _ \<Rightarrow> Equal)
      | Int64 m \<Rightarrow> (case b of Int64 n \<Rightarrow> cmp (sint m) (sint n)
                          | Int32 n \<Rightarrow> cmp (sint m) (sint n)
                          | Double y \<Rightarrow> cmp_f64 (f64_of_int (sint m)) y
                          | _ \<Rightarrow> Equal)
      | Double x \<Rightarrow> (case b of Double y \<Rightarrow> cmp_f64 x y
                           | Int32 n \<Rightarrow> cmp_f64 x (f64_of_int (sint n))
                           | Int64 n \<Rightarrow> cmp_f64 x (f64_of_int (sint n))
                           | _ \<Rightarrow> Equal)
      | Str s \<Rightarrow> (case b of Str t \<Rightarrow> cmp s t | _ \<Rightarrow> Equal)
      | Boolean p \<Rightarrow> (case b of Boolean q \<Rightarrow> cmp p q | _ \<Rightarrow> Equal)
      | DateTime m \<Rightarrow> (case b of DateTime n \<Rightarrow> cmp (sint m) (sint n) | _ \<Rightarrow> Equal)
      | ObjectId x \<Rightarrow> (case b of ObjectId y \<Rightarrow> cmp x y | _ \<Rightarrow> Equal)
      | Array xs \<Rightarrow> (case b of
          Array ys \<Rightarrow> then_cmp (zip_cmp bson_cmp xs ys) (cmp (length xs) (length ys))
        | _ \<Rightarrow> Equal)
      | _ \<Rightarrow> Equal)"

declare bson_cmp.simps [simp del]

definition bson_eq :: "bson option \<Rightarrow> bson option \<Rightarrow> bool" where
  "bson_eq a b = (case (a, b) of
     (Some a, Some b) \<Rightarrow> bson_cmp a b = Equal
   | (None, None) \<Rightarrow> True
   | _ \<Rightarrow> False)"

definition bson_gt :: "bson option \<Rightarrow> bson \<Rightarrow> bool" where
  "bson_gt a b = (case a of Some a \<Rightarrow> bson_cmp a b = Greater | None \<Rightarrow> False)"

definition bson_gte :: "bson option \<Rightarrow> bson \<Rightarrow> bool" where
  "bson_gte a b = (case a of Some a \<Rightarrow> bson_cmp a b = Greater \<or> bson_cmp a b = Equal | None \<Rightarrow> False)"

definition bson_lt :: "bson option \<Rightarrow> bson \<Rightarrow> bool" where
  "bson_lt a b = (case a of Some a \<Rightarrow> bson_cmp a b = Less | None \<Rightarrow> False)"

definition bson_lte :: "bson option \<Rightarrow> bson \<Rightarrow> bool" where
  "bson_lte a b = (case a of Some a \<Rightarrow> bson_cmp a b = Less \<or> bson_cmp a b = Equal | None \<Rightarrow> False)"

section \<open>The comparison of sorting\<close>

fun compare_type_order :: "bson \<Rightarrow> int" where
  "compare_type_order Null = 1"
| "compare_type_order (Int32 _) = 2"
| "compare_type_order (Int64 _) = 2"
| "compare_type_order (Double _) = 2"
| "compare_type_order (Str _) = 3"
| "compare_type_order (Document _) = 4"
| "compare_type_order (Array _) = 5"
| "compare_type_order (Boolean _) = 6"
| "compare_type_order (ObjectId _) = 7"
| "compare_type_order (DateTime _) = 8"
| "compare_type_order _ = 9"

fun as_f64 :: "bson \<Rightarrow> f64 option" where
  "as_f64 (Int32 n) = Some (f64_of_int (sint n))"
| "as_f64 (Int64 n) = Some (f64_of_int (sint n))"
| "as_f64 (Double x) = Some x"
| "as_f64 _ = None"

definition compare_bson :: "bson option \<Rightarrow> bson option \<Rightarrow> ordering" where
  "compare_bson a b = (case (a, b) of
     (None, None) \<Rightarrow> Equal
   | (None, Some _) \<Rightarrow> Less
   | (Some _, None) \<Rightarrow> Greater
   | (Some a_val, Some b_val) \<Rightarrow>
       (let ta = compare_type_order a_val; tb = compare_type_order b_val in
        if ta \<noteq> tb then cmp ta tb
        else case (as_f64 a_val, as_f64 b_val) of
          (Some fa, Some fb) \<Rightarrow> cmp_f64 fa fb
        | _ \<Rightarrow> (case a_val of
             Str x \<Rightarrow> (case b_val of Str y \<Rightarrow> cmp x y | _ \<Rightarrow> Equal)
           | Boolean x \<Rightarrow> (case b_val of Boolean y \<Rightarrow> cmp x y | _ \<Rightarrow> Equal)
           | ObjectId x \<Rightarrow> (case b_val of ObjectId y \<Rightarrow> cmp x y | _ \<Rightarrow> Equal)
           | DateTime x \<Rightarrow> (case b_val of DateTime y \<Rightarrow> cmp (sint x) (sint y) | _ \<Rightarrow> Equal)
           | _ \<Rightarrow> Equal)))"

section \<open>Both comparisons are total preorders\<close>

lemma cmp_Cons [simp]:
  fixes x y :: "'a::linorder"
  shows "cmp (x # xs) (y # ys) = then_cmp (cmp x y) (cmp xs ys)"
  by (auto simp: cmp_def then_cmp_def)

lemma cmp_Nil [simp]:
  fixes y :: "'a::linorder"
  shows "cmp [] (y # ys) = Less" "cmp (y # ys) [] = Greater" "cmp ([] :: 'a list) [] = Equal"
  by (simp_all add: cmp_def)

lemma cmp_map:
  fixes f :: "'a::linorder \<Rightarrow> 'b::linorder"
  assumes "\<And>x y. f x < f y \<longleftrightarrow> x < y"
  shows "cmp (map f xs) (map f ys) = cmp xs ys"
proof (induction xs arbitrary: ys)
  case Nil
  then show ?case by (cases ys) simp_all
next
  case (Cons x xs)
  have "cmp (f x) (f y) = cmp x y" for y
    using assms [of x y] assms [of y x] by (auto simp: cmp_def)
  with Cons show ?case by (cases ys) simp_all
qed

definition char_code :: "char \<Rightarrow> int" where
  "char_code c = int (of_char c)"

lemma cmp_string_codes: "cmp (map char_code s) (map char_code t) = cmp s t"
  by (rule cmp_map) (simp add: char_code_def less_char_def)

lemma cmp_byte_codes: "cmp (map uint s) (map uint t) = cmp s (t :: bytes)"
  by (rule cmp_map) (simp add: word_less_def)

text \<open>
  The values on which \<open>bson_cmp\<close> is consistent: no NaN, no 64-bit integer that a \<^verbatim>\<open>f64\<close>
  cannot represent, and neither decimals nor symbols (which compare equal to every number
  and every string).
\<close>

fun exact_bson :: "bson \<Rightarrow> bool" where
  "exact_bson (Double x) \<longleftrightarrow> \<not> is_nan x"
| "exact_bson (Int64 n) \<longleftrightarrow> exact_int (sint n)"
| "exact_bson (Array xs) \<longleftrightarrow> (\<forall>x \<in> set xs. exact_bson x)"
| "exact_bson (Decimal128 _) \<longleftrightarrow> False"
| "exact_bson (Symbol _) \<longleftrightarrow> False"
| "exact_bson _ \<longleftrightarrow> True"

fun value_key :: "bson \<Rightarrow> int list" where
  "value_key (Int32 n) = [f64_key (f64_of_int (sint n))]"
| "value_key (Int64 n) = [f64_key (f64_of_int (sint n))]"
| "value_key (Double x) = [f64_key x]"
| "value_key (Str s) = map char_code s"
| "value_key (Boolean b) = [of_bool b]"
| "value_key (DateTime n) = [sint n]"
| "value_key (ObjectId x) = map uint x"
| "value_key _ = []"

fun array_items :: "bson \<Rightarrow> bson list" where
  "array_items (Array xs) = xs"
| "array_items _ = []"

lemma exact_int_i32 [simp]: "exact_int (sint (n :: 32 word))"
  using sint_greater_eq [of n] sint_less [of n] by (auto simp: exact_int_def)

lemma cmp_f64_keys: "\<not> is_nan x \<Longrightarrow> \<not> is_nan y \<Longrightarrow> cmp_f64 x y = cmp (f64_key x) (f64_key y)"
  by (simp add: f64_partial_cmp_def)

lemma cmp_of_bool: "cmp (of_bool p :: int) (of_bool q) = cmp p q"
  by (cases p; cases q) (simp_all add: cmp_def)

lemmas key_simps = cmp_string_codes cmp_byte_codes cmp_f64_keys f64_of_int_not_nan
  f64_key_of_int_cmp cmp_of_bool

lemma bson_cmp_types: "bson_type_order a \<noteq> bson_type_order b \<Longrightarrow>
    bson_cmp a b = cmp (bson_type_order a) (bson_type_order b)"
  by (subst bson_cmp.simps) (simp add: Let_def)

lemma bson_cmp_same [simp]:
  "bson_cmp (Int32 m) (Int32 n) = cmp (sint m) (sint n)"
  "bson_cmp (Int32 m) (Int64 q) = cmp (sint m) (sint q)"
  "bson_cmp (Int64 p) (Int32 n) = cmp (sint p) (sint n)"
  "bson_cmp (Int64 p) (Int64 q) = cmp (sint p) (sint q)"
  "bson_cmp (Int32 m) (Double y) = cmp_f64 (f64_of_int (sint m)) y"
  "bson_cmp (Int64 p) (Double y) = cmp_f64 (f64_of_int (sint p)) y"
  "bson_cmp (Double x) (Int32 n) = cmp_f64 x (f64_of_int (sint n))"
  "bson_cmp (Double x) (Int64 q) = cmp_f64 x (f64_of_int (sint q))"
  "bson_cmp (Double x) (Double y) = cmp_f64 x y"
  "bson_cmp (Str s) (Str t) = cmp s t"
  "bson_cmp (Boolean a) (Boolean b) = cmp a b"
  "bson_cmp (DateTime p) (DateTime q) = cmp (sint p) (sint q)"
  "bson_cmp (ObjectId u) (ObjectId v) = cmp u v"
  "bson_cmp (Array xs) (Array ys) = seq_cmp bson_cmp xs ys"
  "bson_cmp (Document d) (Document e) = Equal"
  "bson_cmp Null Null = Equal"
  by (subst bson_cmp.simps, simp add: seq_cmp_def)+

lemma bson_cmp_key_same:
  assumes "exact_bson a" and "exact_bson b" and "bson_type_order a = bson_type_order b"
  shows "bson_cmp a b =
    then_cmp (cmp (value_key a) (value_key b)) (seq_cmp bson_cmp (array_items a) (array_items b))"
proof (cases a)
  case (Int32 x1)
  with assms show ?thesis by (cases b) (simp_all add: key_simps)
next
  case (Int64 x1)
  with assms show ?thesis by (cases b) (simp_all add: key_simps)
next
  case (Double x1)
  with assms show ?thesis by (cases b) (simp_all add: key_simps)
next
  case (Str s)
  with assms show ?thesis by (cases b) (simp_all add: key_simps)
qed (use assms in \<open>cases b; simp add: key_simps; subst bson_cmp.simps; simp\<close>)+

lemma bson_cmp_key:
  assumes "exact_bson a" and "exact_bson b"
  shows "bson_cmp a b =
    then_cmp (cmp (bson_type_order a # value_key a) (bson_type_order b # value_key b))
      (seq_cmp bson_cmp (array_items a) (array_items b))"
proof (cases "bson_type_order a = bson_type_order b")
  case True
  then show ?thesis using bson_cmp_key_same [OF assms] by simp
next
  case False
  then show ?thesis by (simp add: bson_cmp_types then_cmp_decided)
qed

text \<open>Nesting depth of arrays, over which the preorder property is proved.\<close>

fun array_depth :: "bson \<Rightarrow> nat" where
  "array_depth (Array xs) = Suc (foldr (\<lambda>x n. max (array_depth x) n) xs 0)"
| "array_depth _ = 0"

lemma array_depth_item: "x \<in> set (array_items v) \<Longrightarrow> array_depth x < array_depth v"
proof (cases v)
  case (Array xs)
  have "x \<in> set xs \<Longrightarrow> array_depth x \<le> foldr (\<lambda>x n. max (array_depth x) n) xs 0"
    by (induction xs) auto
  with Array show "x \<in> set (array_items v) \<Longrightarrow> array_depth x < array_depth v" by simp
qed simp_all

lemma exact_bson_item: "exact_bson v \<Longrightarrow> x \<in> set (array_items v) \<Longrightarrow> exact_bson x"
  by (cases v) auto

lemma bson_cmp_preorder_depth:
  "total_preorder_on {v. exact_bson v \<and> array_depth v \<le> n} bson_cmp"
proof (induction n rule: less_induct)
  case (less n)
  let ?B = "{v. exact_bson v \<and> array_depth v \<le> n}" and ?I = "{v. exact_bson v \<and> array_depth v < n}"
  have "total_preorder_on ?I bson_cmp"
  proof (cases n)
    case (Suc k)
    then show ?thesis using less.IH [of k] by (simp add: less_Suc_eq_le)
  qed (simp add: total_preorder_on_def)
  then have "total_preorder_on (lists ?I) (seq_cmp bson_cmp)" by (rule total_preorder_on_lists)
  then have "total_preorder_on ?B (\<lambda>a b. seq_cmp bson_cmp (array_items a) (array_items b))"
    by (rule total_preorder_on_image) (auto dest: exact_bson_item array_depth_item)
  moreover have "total_preorder_on ?B
      (\<lambda>a b. cmp (bson_type_order a # value_key a) (bson_type_order b # value_key b))"
    by (rule total_preorder_onI_key [where k = "\<lambda>a. bson_type_order a # value_key a"]) (rule refl)
  ultimately have "total_preorder_on ?B
      (\<lambda>a b. then_cmp (cmp (bson_type_order a # value_key a) (bson_type_order b # value_key b))
        (seq_cmp bson_cmp (array_items a) (array_items b)))"
    by (intro total_preorder_on_then)
  then show ?case
    by (subst total_preorder_on_cong [OF bson_cmp_key]) simp_all
qed

lemma bson_cmp_preorder: "total_preorder_on {v. exact_bson v} bson_cmp"
proof -
  have B: "total_preorder_on {v. exact_bson v \<and> array_depth v \<le> n} bson_cmp" for n
    by (rule bson_cmp_preorder_depth)
  show ?thesis
    unfolding total_preorder_on_def
  proof (intro conjI ballI impI)
    fix x assume "x \<in> {v. exact_bson v}"
    then show "bson_cmp x x = Equal" using total_preorder_on_refl [OF B [of "array_depth x"]] by simp
  next
    fix x y assume "x \<in> {v. exact_bson v}" "y \<in> {v. exact_bson v}"
    then show "bson_cmp y x = ord_reverse (bson_cmp x y)"
      using total_preorder_on_swap [OF B [of "array_depth x + array_depth y"], of x y] by simp
  next
    fix x y z assume "x \<in> {v. exact_bson v}" "y \<in> {v. exact_bson v}" "z \<in> {v. exact_bson v}"
      and l: "bson_cmp x y \<noteq> Greater" "bson_cmp y z \<noteq> Greater"
    then show "bson_cmp x z \<noteq> Greater"
      using total_preorder_on_trans [OF B [of "array_depth x + array_depth y + array_depth z"] _ _ _ l]
      by simp
  qed
qed

text \<open>
  Sorting goes through \<^verbatim>\<open>f64\<close> for every number, so \<open>compare_bson\<close> only needs the values not to
  be NaN.
\<close>

fun not_nan :: "bson option \<Rightarrow> bool" where
  "not_nan (Some (Double x)) \<longleftrightarrow> \<not> is_nan x"
| "not_nan _ \<longleftrightarrow> True"

fun compare_key :: "bson option \<Rightarrow> int list" where
  "compare_key None = []"
| "compare_key (Some v) = compare_type_order v # value_key v"

lemma compare_bson_key_same:
  assumes "not_nan (Some a)" and "not_nan (Some b)" and "compare_type_order a = compare_type_order b"
  shows "compare_bson (Some a) (Some b) = cmp (value_key a) (value_key b)"
  using assms
  by (cases a; cases b; simp add: compare_bson_def key_simps cmp_f64_keys)

lemma compare_bson_key:
  assumes "not_nan a" and "not_nan b"
  shows "compare_bson a b = cmp (compare_key a) (compare_key b)"
proof (cases a; cases b)
  fix u v assume ab: "a = Some u" "b = Some v"
  show ?thesis
  proof (cases "compare_type_order u = compare_type_order v")
    case True
    then show ?thesis using compare_bson_key_same assms ab by simp
  next
    case False
    then show ?thesis by (simp add: ab then_cmp_decided) (simp add: compare_bson_def)
  qed
qed (simp_all add: compare_bson_def)

lemma compare_bson_preorder: "total_preorder_on {v. not_nan v} compare_bson"
  by (rule total_preorder_onI_key [where k = compare_key]) (simp add: compare_bson_key)

section \<open>Properties\<close>

text \<open>
  C2. The comparison used by queries is a total preorder on values without NaN, decimals,
  symbols and integers beyond the exact range of a \<^verbatim>\<open>f64\<close>: reflexive, antisymmetric up to
  \<open>Equal\<close> and transitive, arrays compared element by element.
\<close>

theorem bson_cmp_total_preorder: "total_preorder_on {v. exact_bson v} bson_cmp"
  by (rule bson_cmp_preorder)


end
