(* ===== verification/Paths.thy ===== *)
theory Paths
  imports Bson
begin

text \<open>
  Dot-notation paths in documents (\<^verbatim>\<open>paths.rs\<close>): reading, testing, setting and removing a
  field.  The laws relate the four operations as those of a nested environment: what is
  read after a write, on the same path and on a path that branches off.
\<close>

section \<open>Operations\<close>

datatype path_error = EmptyKey | TraversalFailed | NotDocument

fun get_parts :: "bson \<Rightarrow> string list \<Rightarrow> bson option" where
  "get_parts cur [] = Some cur"
| "get_parts cur (part # ps) = (case cur of
     Null \<Rightarrow> None
   | Document d \<Rightarrow> (case doc_get d part of None \<Rightarrow> None | Some v \<Rightarrow> get_parts v ps)
   | Array arr \<Rightarrow> (case parse_usize part of
         None \<Rightarrow> None
       | Some idx \<Rightarrow> if idx < length arr then get_parts (arr ! idx) ps else None)
   | _ \<Rightarrow> None)"

definition get_value :: "doc \<Rightarrow> string \<Rightarrow> bson option" where
  "get_value d key = (case split_on CHR ''.'' key of
     [] \<Rightarrow> None
   | first # ps \<Rightarrow> (case doc_get d first of None \<Rightarrow> None | Some v \<Rightarrow> get_parts v ps))"

fun exists_parts :: "bson \<Rightarrow> string list \<Rightarrow> bool" where
  "exists_parts cur [] = True"
| "exists_parts cur (part # ps) = (case cur of
     Document d \<Rightarrow> (case doc_get d part of Some v \<Rightarrow> exists_parts v ps | None \<Rightarrow> False)
   | Array arr \<Rightarrow> (case parse_usize part of
         None \<Rightarrow> False
       | Some idx \<Rightarrow> if length arr \<le> idx then False else exists_parts (arr ! idx) ps)
   | _ \<Rightarrow> False)"

definition field_exists :: "doc \<Rightarrow> string \<Rightarrow> bool" where
  "field_exists d key = exists_parts (Document d) (split_on CHR ''.'' key)"

fun is_document :: "bson option \<Rightarrow> bool" where
  "is_document (Some (Document _)) = True"
| "is_document _ = False"

fun set_parts :: "doc \<Rightarrow> string list \<Rightarrow> bson \<Rightarrow> path_error + doc" where
  "set_parts current [] v = Inl EmptyKey"
| "set_parts current [k] v = Inr (doc_insert k v current)"
| "set_parts current (part # p # ps) v =
     (let current' = (if is_document (doc_get current part) then current
                      else doc_insert part (Document []) current) in
      case doc_get current' part of
        None \<Rightarrow> Inl TraversalFailed
      | Some entry \<Rightarrow> (case entry of
            Document e \<Rightarrow> res_bind (set_parts e (p # ps) v)
              (\<lambda>e'. Inr (doc_insert part (Document e') current'))
          | _ \<Rightarrow> Inl NotDocument))"

definition set_value :: "doc \<Rightarrow> string \<Rightarrow> bson \<Rightarrow> path_error + doc" where
  "set_value d key v = set_parts d (split_on CHR ''.'' key) v"

fun unset_parts :: "doc \<Rightarrow> string list \<Rightarrow> path_error + doc" where
  "unset_parts current [] = Inr current"
| "unset_parts current [k] = Inr (doc_remove k current)"
| "unset_parts current (part # p # ps) =
     (if \<not> contains_key current part then Inr current
      else case doc_get current part of
        None \<Rightarrow> Inl TraversalFailed
      | Some entry \<Rightarrow> (case entry of
            Document e \<Rightarrow> res_bind (unset_parts e (p # ps))
              (\<lambda>e'. Inr (doc_insert part (Document e') current))
          | _ \<Rightarrow> Inr current))"

definition unset_value :: "doc \<Rightarrow> string \<Rightarrow> path_error + doc" where
  "unset_value d key = unset_parts d (split_on CHR ''.'' key)"

section \<open>Laws\<close>

lemma get_value_parts: "get_value d key = get_parts (Document d) (split_on CHR ''.'' key)"
  by (cases "split_on CHR ''.'' key") (simp_all add: get_value_def)

lemma exists_parts_iff: "exists_parts cur ps \<longleftrightarrow> get_parts cur ps \<noteq> None"
  by (induction cur ps rule: get_parts.induct) (auto split: bson.splits option.splits)

text \<open>Whether the documents on the way to a path are documents, as far as they exist.\<close>

fun doc_prefix :: "doc \<Rightarrow> string list \<Rightarrow> bool" where
  "doc_prefix d [] \<longleftrightarrow> True"
| "doc_prefix d (p # ps) \<longleftrightarrow> (case doc_get d p of
     None \<Rightarrow> True
   | Some (Document e) \<Rightarrow> doc_prefix e ps
   | Some _ \<Rightarrow> False)"

lemma is_documentE: "is_document v \<Longrightarrow> (\<And>e. v = Some (Document e) \<Longrightarrow> P) \<Longrightarrow> P"
  by (cases v rule: is_document.cases) auto

text \<open>The document below a path component, empty where the write would create one.\<close>

definition sub_doc :: "doc \<Rightarrow> string \<Rightarrow> doc" where
  "sub_doc d p = (case doc_get d p of Some (Document e) \<Rightarrow> e | _ \<Rightarrow> [])"

lemma set_parts_step:
  "set_parts d (p # q # ps) v =
     res_bind (set_parts (sub_doc d p) (q # ps) v) (\<lambda>e'. Inr (doc_insert p (Document e') d))"
proof (cases "is_document (doc_get d p)")
  case True
  then show ?thesis by (auto elim!: is_documentE simp: sub_doc_def)
next
  case False
  then have "sub_doc d p = []" by (auto simp: sub_doc_def split: option.splits bson.splits)
  with False show ?thesis by (simp add: al_insert_insert)
qed

lemma set_parts_total: "ps \<noteq> [] \<Longrightarrow> \<exists>d'. set_parts d ps v = Inr d'"
proof (induction ps arbitrary: d)
  case (Cons p ps)
  show ?case
  proof (cases ps)
    case (Cons q qs)
    with Cons.IH [of "sub_doc d p"] show ?thesis by (auto simp: set_parts_step simp del: set_parts.simps(3))
  qed simp
qed simp

lemma get_set_parts: "set_parts d ps v = Inr d' \<Longrightarrow> get_parts (Document d') ps = Some v"
proof (induction ps arbitrary: d d')
  case (Cons p ps)
  show ?case
  proof (cases ps)
    case Nil
    with Cons.prems show ?thesis by auto
  next
    case (Cons q qs)
    with Cons.prems obtain e' where "set_parts (sub_doc d p) ps v = Inr e'"
      and "d' = doc_insert p (Document e') d"
      by (auto simp: set_parts_step simp del: set_parts.simps(3))
    with Cons.IH show ?thesis by simp
  qed
qed simp

lemma get_parts_empty: "ps \<noteq> [] \<Longrightarrow> get_parts (Document []) ps = None"
  by (cases ps) simp_all

lemma get_set_parts_other:
  assumes "set_parts d (c @ p # ps) v = Inr d'" and "p \<noteq> q" and "doc_prefix d c"
  shows "get_parts (Document d') (c @ q # qs) = get_parts (Document d) (c @ q # qs)"
  using assms(1,3)
proof (induction c arbitrary: d d')
  case Nil
  then show ?case using assms(2) by (cases ps) (auto simp: set_parts_step simp del: set_parts.simps(3))
next
  case (Cons r c)
  obtain s ss where s: "c @ p # ps = s # ss" by (cases c) auto
  with Cons.prems obtain e' where e': "set_parts (sub_doc d r) (c @ p # ps) v = Inr e'"
    "d' = doc_insert r (Document e') d"
    by (auto simp: set_parts_step simp del: set_parts.simps(3))
  have "doc_prefix (sub_doc d r) c"
    using Cons.prems(2) by (cases c) (auto simp: sub_doc_def split: option.splits bson.splits)
  from Cons.IH [OF e'(1) this] e'(2) Cons.prems(2) show ?case
    by (auto simp: sub_doc_def get_parts_empty split: option.splits bson.splits)
qed

lemma set_set_parts:
  "set_parts d ps w = Inr d' \<Longrightarrow> set_parts d' ps v = set_parts d ps v"
proof (induction ps arbitrary: d d')
  case (Cons p ps)
  show ?case
  proof (cases ps)
    case Nil
    with Cons.prems show ?thesis by (auto simp: al_insert_insert)
  next
    case (Cons q qs)
    with Cons.prems obtain e' where e': "set_parts (sub_doc d p) ps w = Inr e'"
      and d': "d' = doc_insert p (Document e') d"
      by (auto simp: set_parts_step simp del: set_parts.simps(3))
    have "sub_doc d' p = e'" by (simp add: d' sub_doc_def)
    with Cons.IH [OF e'] Cons d' show ?thesis
      by (simp add: set_parts_step al_insert_insert del: set_parts.simps(3))
  qed
qed simp

lemma unset_parts_step:
  "unset_parts d (p # q # ps) = (case doc_get d p of
     Some (Document e) \<Rightarrow> res_bind (unset_parts e (q # ps)) (\<lambda>e'. Inr (doc_insert p (Document e') d))
   | _ \<Rightarrow> Inr d)"
  by (auto simp: contains_key_def split: option.splits)

lemma unset_parts_total: "\<exists>d'. unset_parts d ps = Inr d'"
proof (induction d ps rule: unset_parts.induct)
  case (3 current part p ps)
  then show ?case
    by (auto simp: unset_parts_step contains_key_def simp del: unset_parts.simps(3)
        split: option.splits bson.splits)
qed simp_all

lemma get_unset_parts:
  assumes "unset_parts d ps = Inr d'" and "ps \<noteq> []" and "doc_prefix d (butlast ps)"
  shows "get_parts (Document d') ps = None"
  using assms
proof (induction ps arbitrary: d d')
  case (Cons p ps)
  show ?case
  proof (cases ps)
    case Nil
    with Cons.prems show ?thesis by auto
  next
    case (Cons q qs)
    show ?thesis
    proof (cases "is_document (doc_get d p)")
      case True
      then obtain e where e: "doc_get d p = Some (Document e)" by (rule is_documentE)
      with Cons.prems Cons obtain e' where "unset_parts e ps = Inr e'"
        and "d' = doc_insert p (Document e') d"
        by (auto simp: unset_parts_step simp del: unset_parts.simps(3))
      with Cons.IH Cons.prems Cons e show ?thesis by simp
    next
      case False
      with Cons.prems Cons show ?thesis
        by (auto simp: unset_parts_step simp del: unset_parts.simps(3)
            split: option.splits bson.splits)
    qed
  qed
qed simp

lemma get_unset_parts_other:
  assumes "unset_parts d (c @ p # ps) = Inr d'" and "p \<noteq> q"
  shows "get_parts (Document d') (c @ q # qs) = get_parts (Document d) (c @ q # qs)"
  using assms(1)
proof (induction c arbitrary: d d')
  case Nil
  then show ?case using assms(2)
    by (cases ps) (auto simp: unset_parts_step simp del: unset_parts.simps(3)
        split: option.splits bson.splits)
next
  case (Cons r c)
  obtain s ss where s: "c @ p # ps = s # ss" by (cases c) auto
  with Cons.prems Cons.IH show ?case
    by (auto simp: unset_parts_step simp del: unset_parts.simps(3) split: option.splits bson.splits)
qed

lemma al_remove_insert_fresh: "k \<notin> fst ` set xs \<Longrightarrow> al_remove k (al_insert k v xs) = xs"
  by (simp add: al_insert_fresh al_remove_def) (induction xs; auto)

lemma unset_set_parts:
  assumes "set_parts d ps v = Inr d'" and "get_parts (Document d) ps = None"
    and "get_parts (Document d) (butlast ps) \<noteq> None" and "doc_prefix d (butlast ps)"
  shows "unset_parts d' ps = Inr d"
  using assms
proof (induction ps arbitrary: d d')
  case (Cons p ps)
  show ?case
  proof (cases ps)
    case Nil
    with Cons.prems show ?thesis
      by (auto simp: map_of_eq_None_iff intro!: al_remove_insert_fresh split: option.splits)
  next
    case (Cons q qs)
    with Cons.prems obtain e where e: "doc_get d p = Some (Document e)"
      by (auto split: option.splits bson.splits)
    with Cons.prems Cons obtain e' where e': "set_parts e ps v = Inr e'"
      and d': "d' = doc_insert p (Document e') d"
      by (auto simp: set_parts_step sub_doc_def simp del: set_parts.simps(3))
    from Cons.IH [OF e'] Cons.prems Cons e have "unset_parts e' ps = Inr e" by auto
    with d' Cons e show ?thesis
      by (simp add: unset_parts_step al_insert_insert al_insert_same del: unset_parts.simps(3))
  qed
qed simp

section \<open>Well-formedness\<close>

lemma doc_ok_insert: "doc_ok d \<Longrightarrow> bson_ok v \<Longrightarrow> doc_ok (doc_insert k v d)"
  using set_al_insert [of k v d] by (auto simp: doc_ok_def)

lemma doc_ok_remove: "doc_ok d \<Longrightarrow> doc_ok (doc_remove k d)"
  using set_al_remove [of k d] by (auto simp: doc_ok_def)

lemma doc_ok_get: "doc_ok d \<Longrightarrow> doc_get d k = Some v \<Longrightarrow> bson_ok v"
  by (auto simp: doc_ok_def dest!: map_of_SomeD)

lemma doc_ok_get_doc: "doc_ok d \<Longrightarrow> doc_get d k = Some (Document e) \<Longrightarrow> doc_ok e"
  using doc_ok_get [of d k "Document e"] by (simp add: doc_ok_def)

lemma doc_ok_Nil [simp]: "doc_ok []"
  by (simp add: doc_ok_def)

lemma doc_ok_sub_doc: "doc_ok d \<Longrightarrow> doc_ok (sub_doc d k)"
  by (auto simp: sub_doc_def split: option.splits bson.splits dest: doc_ok_get_doc)

lemma doc_ok_set_parts:
  "doc_ok d \<Longrightarrow> bson_ok v \<Longrightarrow> set_parts d ps v = Inr d' \<Longrightarrow> doc_ok d'"
proof (induction ps arbitrary: d d')
  case (Cons p ps)
  show ?case
  proof (cases ps)
    case Nil
    with Cons.prems show ?thesis by (auto simp: doc_ok_insert)
  next
    case (Cons q qs)
    with Cons.prems obtain e' where e': "set_parts (sub_doc d p) ps v = Inr e'"
      and d': "d' = doc_insert p (Document e') d"
      by (auto simp: set_parts_step simp del: set_parts.simps(3))
    from Cons.IH [OF doc_ok_sub_doc Cons.prems(2) e'] Cons.prems(1) have "doc_ok e'" .
    with Cons.prems(1) show ?thesis unfolding d' by (intro doc_ok_insert) (simp_all add: doc_ok_def)
  qed
qed simp

lemma doc_ok_unset_parts: "doc_ok d \<Longrightarrow> unset_parts d ps = Inr d' \<Longrightarrow> doc_ok d'"
proof (induction ps arbitrary: d d')
  case (Cons p ps)
  show ?case
  proof (cases ps)
    case Nil
    with Cons.prems show ?thesis by (auto simp: doc_ok_remove)
  next
    case (Cons q qs)
    show ?thesis
    proof (cases "is_document (doc_get d p)")
      case True
      then obtain e where e: "doc_get d p = Some (Document e)" by (rule is_documentE)
      with Cons.prems Cons obtain e' where e': "unset_parts e ps = Inr e'"
        and d': "d' = doc_insert p (Document e') d"
        by (auto simp: unset_parts_step simp del: unset_parts.simps(3))
      have "doc_ok e" using doc_ok_get [OF Cons.prems(1) e] by (simp add: doc_ok_def)
      from Cons.IH [OF this e'] Cons.prems(1) show ?thesis
        unfolding d' by (intro doc_ok_insert) (simp_all add: doc_ok_def)
    next
      case False
      with Cons.prems Cons show ?thesis
        by (auto simp: unset_parts_step simp del: unset_parts.simps(3)
            split: option.splits bson.splits)
    qed
  qed
qed simp

lemma set_value_ok: "doc_ok d \<Longrightarrow> bson_ok v \<Longrightarrow> set_value d k v = Inr d' \<Longrightarrow> doc_ok d'"
  unfolding set_value_def by (rule doc_ok_set_parts)

lemma unset_value_ok: "doc_ok d \<Longrightarrow> unset_value d k = Inr d' \<Longrightarrow> doc_ok d'"
  unfolding unset_value_def by (rule doc_ok_unset_parts)

lemma set_value_total: "\<exists>d'. set_value d k v = Inr d'"
  unfolding set_value_def by (rule set_parts_total) simp

lemma unset_value_total: "\<exists>d'. unset_value d k = Inr d'"
  unfolding unset_value_def by (rule unset_parts_total)

lemma get_set_value: "set_value d k v = Inr d' \<Longrightarrow> get_value d' k = Some v"
  unfolding set_value_def get_value_parts by (rule get_set_parts)

lemma set_value_top: "CHR ''.'' \<notin> set k \<Longrightarrow> set_value d k v = Inr (doc_insert k v d)"
  by (simp add: set_value_def split_on_no_sep)

lemma unset_value_top: "CHR ''.'' \<notin> set k \<Longrightarrow> unset_value d k = Inr (doc_remove k d)"
  by (simp add: unset_value_def split_on_no_sep)

lemma get_value_top: "CHR ''.'' \<notin> set k \<Longrightarrow> get_value d k = doc_get d k"
  by (cases "doc_get d k") (simp_all add: get_value_def split_on_no_sep)

section \<open>Properties\<close>

text \<open>
  Writing a path never fails, and what is read back on the path is the value written,
  whatever the document held before; a second write on the path hides the first.
\<close>

theorem set_value_get_value:
  "\<exists>d'. set_value d key v = Inr d' \<and> get_value d' key = Some v \<and>
        set_value d' key w = set_value d key w"
proof -
  obtain d' where "set_value d key v = Inr d'" using set_value_total by blast
  then show ?thesis
    using get_set_value set_set_parts unfolding set_value_def by blast
qed



text \<open>
  Removing a path that runs through documents never fails and makes the path unreadable;
  paths that branch off keep their value.
\<close>

theorem unset_value_get_value:
  assumes "split_on CHR ''.'' key = c @ [p]" and "doc_prefix d c"
  shows "\<exists>d'. unset_value d key = Inr d' \<and> get_value d' key = None \<and>
     (\<forall>key' q qs. split_on CHR ''.'' key' = c @ q # qs \<longrightarrow> p \<noteq> q \<longrightarrow>
        get_value d' key' = get_value d key')"
proof -
  obtain d' where d': "unset_parts d (c @ [p]) = Inr d'" using unset_parts_total by blast
  have "get_parts (Document d') (c @ [p]) = None"
    using get_unset_parts [OF d'] assms(2) by simp
  moreover have "get_parts (Document d') (c @ q # qs) = get_parts (Document d) (c @ q # qs)"
    if "p \<noteq> q" for q qs
    using get_unset_parts_other [OF d' that] .
  ultimately show ?thesis
    using d' assms(1) by (auto simp: unset_value_def get_value_parts)
qed

theorem unset_value_get_value_witness:
  "\<exists>d'. unset_value [(''u'', Document [(''n'', Null), (''k'', Boolean True)])] ''u.k'' = Inr d' \<and>
     get_value d' ''u.k'' = None \<and> get_value d' ''u.n'' = Some Null"
proof -
  let ?d = "[(''u'', Document [(''n'', Null), (''k'', Boolean True)])]"
  obtain d' where d': "unset_value ?d ''u.k'' = Inr d'" "get_value d' ''u.k'' = None"
    "\<forall>key' q qs. split_on CHR ''.'' key' = [''u''] @ q # qs \<longrightarrow> ''k'' \<noteq> q \<longrightarrow>
       get_value d' key' = get_value ?d key'"
    using unset_value_get_value [of "''u.k''" "[''u'']" "''k''" ?d] by auto
  have "get_value d' ''u.n'' = get_value ?d ''u.n''"
    using d'(3) [rule_format, of "''u.n''" "''n''" "[]"] by simp
  with d' show ?thesis by (simp add: get_value_def)
qed

text \<open>
  Removing a freshly written path gives the original document back, field order
  included.
\<close>

theorem unset_value_set_value:
  assumes "split_on CHR ''.'' key = c @ [p]" and "doc_prefix d c"
    and "get_parts (Document d) c \<noteq> None" and "get_value d key = None"
    and "set_value d key v = Inr d'"
  shows "unset_value d' key = Inr d"
  using unset_set_parts [of d "c @ [p]" v d'] assms
  by (simp add: unset_value_def set_value_def get_value_parts)

theorem unset_value_set_value_witness:
  "unset_value [(''u'', Document [(''n'', Null), (''k'', Boolean True)]), (''z'', Null)] ''u.k'' =
     Inr [(''u'', Document [(''n'', Null)]), (''z'', Null)]"
  using unset_value_set_value [of "''u.k''" "[''u'']" "''k''"
      "[(''u'', Document [(''n'', Null)]), (''z'', Null)]" "Boolean True"
      "[(''u'', Document [(''n'', Null), (''k'', Boolean True)]), (''z'', Null)]"]
  by (simp add: set_value_def get_value_def)

text \<open>
  The existence test agrees with reading: a path exists exactly when reading it returns
  a value, a null included.
\<close>

theorem field_exists_get_value: "field_exists d key \<longleftrightarrow> get_value d key \<noteq> None"
  by (simp only: field_exists_def get_value_parts exists_parts_iff)

text \<open>
  Writing below an array does not update the array: the element's path replaces the
  whole array by a document with the index as its key.
\<close>

theorem set_value_replaces_array:
  "set_value [(''a'', Array [Null, Boolean True])] ''a.0'' (Boolean False) =
     Inr [(''a'', Document [(''0'', Boolean False)])]"
  by (simp add: set_value_def)

end
