(* ===== verification/Externs.thy ===== *)
theory Externs
  imports Bson
begin

text \<open>
  What the engine calls and the development does not define: functions of third-party
  crates (\<^verbatim>\<open>bson\<close> serialisation, formatting and equality, \<^verbatim>\<open>regex\<close>, \<^verbatim>\<open>s2\<close> shapes, \<^verbatim>\<open>chrono\<close> calendar
  fields), the Unicode tables behind the case mappings and \<^verbatim>\<open>split_whitespace\<close> beyond ASCII, the
  trigonometry of the haversine distance, \<^verbatim>\<open>powi\<close> and the shortest decimal form of a float, the
  clock (its reading when a field is processed), and what the standard library and \<^verbatim>\<open>rand\<close> leave open: the
  iteration order of a hash map and of a heap, which of several greatest entries a heap pops, how
  \<^verbatim>\<open>select_nth_unstable_by\<close> arranges equal elements, a shuffle, the greatest capacity of a vector
  of values that can be allocated.  They are the fields of
  one record, the first argument of every definition that uses one; a property that relies on
  one of them states what it relies on as a hypothesis.
\<close>

record externs =
  x_canonical_key :: "bson \<Rightarrow> bytes"
  x_bson_eq :: "bson \<Rightarrow> bson \<Rightarrow> bool"
  x_regex_is_match :: "string \<Rightarrow> string \<Rightarrow> bool option"
  x_unicode_lowercase :: "string \<Rightarrow> string"
  x_unicode_whitespace :: "string \<Rightarrow> string list"
  x_haversine :: "f64 \<Rightarrow> f64 \<Rightarrow> f64 \<Rightarrow> f64 \<Rightarrow> f64"
  x_geo_contains :: "doc \<Rightarrow> string + (f64 \<Rightarrow> f64 \<Rightarrow> bool)"
  x_geo_intersects :: "doc \<Rightarrow> string + (f64 \<Rightarrow> f64 \<Rightarrow> bool)"
  x_now :: "string \<Rightarrow> 64 word"
  x_unicode_uppercase :: "string \<Rightarrow> string"
  x_powi10 :: "int \<Rightarrow> f64"
  x_f64_to_string :: "f64 \<Rightarrow> string"
  x_date_part :: "string \<Rightarrow> 64 word \<Rightarrow> int option"
  x_to_vec :: "doc \<Rightarrow> bytes option"
  x_from_reader :: "bytes \<Rightarrow> doc option"
  x_bson_display :: "bson \<Rightarrow> string"
  x_bson_debug :: "bson \<Rightarrow> string"
  x_regex_error :: "string \<Rightarrow> string"
  x_new_oid :: "nat \<Rightarrow> bytes"
  x_cell_key :: "f64 \<Rightarrow> f64 \<Rightarrow> 64 word"
  x_plain_text :: "string \<Rightarrow> bool"
  x_word_tokens :: "string \<Rightarrow> string list"
  x_ln :: "f64 \<Rightarrow> f64"
  x_covering_cells :: "doc \<Rightarrow> 64 word list option"
  x_cap_cells :: "f64 \<Rightarrow> f64 \<Rightarrow> f64 option \<Rightarrow> 64 word list"
  x_hash_order :: "string list \<Rightarrow> string list"
  x_shuffle :: "doc list \<Rightarrow> doc list"
  x_select_nth :: "(nat \<Rightarrow> nat \<Rightarrow> ordering) \<Rightarrow> nat \<Rightarrow> nat list \<Rightarrow> nat list"
  x_pop_greatest :: "(doc \<Rightarrow> doc \<Rightarrow> ordering) \<Rightarrow> doc list \<Rightarrow> nat"
  x_heap_order :: "(f64 \<times> nat) list \<Rightarrow> (f64 \<times> nat) list"
  x_vec_capacity :: nat

definition is_ascii :: "string \<Rightarrow> bool" where
  "is_ascii s \<longleftrightarrow> list_all (\<lambda>c. (of_char c :: nat) < 128) s"

definition to_lowercase :: "externs \<Rightarrow> string \<Rightarrow> string" where
  "to_lowercase X s = (if is_ascii s then map lower_char s else x_unicode_lowercase X s)"

definition ascii_upper :: "char \<Rightarrow> char" where
  "ascii_upper c = (let n = of_char c :: nat in if 97 \<le> n \<and> n \<le> 122 then char_of (n - 32) else c)"

definition to_uppercase :: "externs \<Rightarrow> string \<Rightarrow> string" where
  "to_uppercase X s = (if is_ascii s then map ascii_upper s else x_unicode_uppercase X s)"

definition ascii_space :: "char \<Rightarrow> bool" where
  "ascii_space c \<longleftrightarrow> (let n = of_char c :: nat in 9 \<le> n \<and> n \<le> 13 \<or> n = 32)"

fun ascii_words :: "string \<Rightarrow> string \<Rightarrow> string list" where
  "ascii_words w [] = (if w = [] then [] else [w])"
| "ascii_words w (c # cs) =
     (if ascii_space c then (if w = [] then ascii_words [] cs else w # ascii_words [] cs)
      else ascii_words (w @ [c]) cs)"

definition split_whitespace :: "externs \<Rightarrow> string \<Rightarrow> string list" where
  "split_whitespace X s = (if is_ascii s then ascii_words [] s else x_unicode_whitespace X s)"

text \<open>A concrete instance, for evaluating the model on examples.\<close>

fun greatest :: "('a \<Rightarrow> 'a \<Rightarrow> ordering) \<Rightarrow> 'a list \<Rightarrow> nat" where
  "greatest c [] = 0"
| "greatest c (x # xs) = (if xs \<noteq> [] \<and> c x (xs ! greatest c xs) = Less then Suc (greatest c xs) else 0)"

definition sample_externs :: externs where
  "sample_externs = \<lparr>
     x_canonical_key = (\<lambda>v. case v of Boolean b \<Rightarrow> [1, of_bool b] | Str s \<Rightarrow> 2 # as_bytes s
                                | Int32 n \<Rightarrow> 3 # be_bytes 4 n | Int64 n \<Rightarrow> 4 # be_bytes 8 n | _ \<Rightarrow> [0]),
     x_bson_eq = (=),
     x_regex_is_match = (\<lambda>pattern text. Some (contains_sub text pattern)),
     x_unicode_lowercase = (\<lambda>s. s),
     x_unicode_whitespace = (\<lambda>s. [s]),
     x_haversine = (\<lambda>_ _ _ _. F64 0),
     x_geo_contains = (\<lambda>_. Inr (\<lambda>_ _. True)),
     x_geo_intersects = (\<lambda>_. Inr (\<lambda>_ _. True)),
     x_now = (\<lambda>_. 1700000000000),
     x_unicode_uppercase = (\<lambda>s. s),
     x_powi10 = (\<lambda>_. F64 0x3FF0000000000000),
     x_f64_to_string = (\<lambda>_. ''0''),
     x_date_part = (\<lambda>_ _. None),
     x_to_vec = (\<lambda>_. None),
     x_from_reader = (\<lambda>_. None),
     x_bson_display = (\<lambda>_. []),
     x_bson_debug = (\<lambda>_. []),
     x_regex_error = (\<lambda>_. ''regex parse error''),
     x_new_oid = (\<lambda>n. replicate 11 0 @ [of_nat n]),
     x_cell_key = (\<lambda>_ _. 0),
     x_plain_text = (\<lambda>_. True),
     x_word_tokens = (\<lambda>s. [s]),
     x_ln = (\<lambda>_. F64 0),
     x_covering_cells = (\<lambda>_. None),
     x_cap_cells = (\<lambda>_ _ _. []),
     x_hash_order = (\<lambda>keys. keys),
     x_shuffle = (\<lambda>docs. docs),
     x_select_nth = (\<lambda>c k is. sort_by c is),
     x_pop_greatest = greatest,
     x_heap_order = (\<lambda>h. h),
     x_vec_capacity = 2 ^ 56\<rparr>"

lemma sample_externs_simps [simp]:
  "x_bson_eq sample_externs = (=)"
  "x_regex_is_match sample_externs p t = Some (contains_sub t p)"
  by (simp_all add: sample_externs_def)

text \<open>
  What the codec of documents promises: it starts with the length of the encoding, which is not
  beyond 31 bits, and decoding an encoding returns the document.
\<close>

definition codec_ok :: "externs \<Rightarrow> bool" where
  "codec_ok X \<longleftrightarrow> (\<forall>d b. x_to_vec X d = Some b \<longrightarrow>
     x_from_reader X b = Some d \<and> 5 \<le> length b \<and> length b < 2 ^ 31 \<and> take 4 b = le_bytes 4 (of_nat (length b) :: 32 word))"

definition sample_codec :: externs where
  "sample_codec = sample_externs\<lparr>x_to_vec := (\<lambda>d. if d = [] then Some (le_bytes 4 (5 :: 32 word) @ [0]) else None), x_from_reader := (\<lambda>_. Some [])\<rparr>"

lemma sample_codec_ok: "codec_ok sample_codec"
  by (simp add: codec_ok_def sample_codec_def)

text \<open>A serialiser for the documents of a list: a document is written as its position.\<close>

definition table_codec :: "doc list \<Rightarrow> externs" where
  "table_codec docs = sample_externs\<lparr>
     x_to_vec := (\<lambda>d. map_of (map (\<lambda>(i, d). (d, [6, 0, 0, 0, of_nat i, 0])) (List.enumerate 0 docs)) d),
     x_from_reader := (\<lambda>b. map_of (map (\<lambda>(i, d). ([6, 0, 0, 0, of_nat i, 0], d)) (List.enumerate 0 docs)) b)\<rparr>"

end
