(* ===== verification/Expressions.thy ===== *)
theory Expressions
  imports Paths Externs
begin

text \<open>
  Aggregation expressions (\<^verbatim>\<open>aggregation/expressions.rs\<close>): the operators on evaluated arguments
  first, then the mutually recursive evaluator with the operators that control what is
  evaluated.  Errors are those of the pipeline; \<open>ExprPanic\<close> stands for a panic (a slice off a
  character boundary, an overflowing remainder).  Integer arithmetic is that of a release build.
\<close>

datatype agg_error =
    InvalidStage string
  | InvalidOperator string
  | MissingField string
  | TypeError string
  | MemoryLimitExceeded string nat nat
  | AggOther string
  | ExprPanic

type_synonym 'a ares = "agg_error + 'a"

section \<open>Operators on evaluated arguments\<close>

fun is_truthy :: "bson \<Rightarrow> bool" where
  "is_truthy Null = False"
| "is_truthy (Boolean b) = b"
| "is_truthy (Int32 n) = (n \<noteq> 0)"
| "is_truthy (Int64 n) = (n \<noteq> 0)"
| "is_truthy (Double x) = (\<not> f64_eq x (f64_of_int 0))"
| "is_truthy (Str s) = (s \<noteq> [])"
| "is_truthy _ = True"

abbreviation get_or_null :: "doc \<Rightarrow> string \<Rightarrow> bson" where
  "get_or_null d k \<equiv> opt_or Null (doc_get d k)"

fun is_double :: "bson \<Rightarrow> bool" where
  "is_double (Double _) = True"
| "is_double _ = False"

text \<open>The loop of \<^verbatim>\<open>$add\<close> and \<^verbatim>\<open>$multiply\<close>: a value that is no number ends it with a null.\<close>

fun arith_loop :: "(f64 \<Rightarrow> f64 \<Rightarrow> f64) \<Rightarrow> f64 \<Rightarrow> bool \<Rightarrow> bson list \<Rightarrow> bson" where
  "arith_loop f acc has_double [] = (if has_double then Double acc else i64 (f64_to_i64 acc))"
| "arith_loop f acc has_double (v # vs) = (case v of
     Int32 n \<Rightarrow> arith_loop f (f acc (f64_of_int (sint n))) has_double vs
   | Int64 n \<Rightarrow> arith_loop f (f acc (f64_of_int (sint n))) has_double vs
   | Double n \<Rightarrow> arith_loop f (f acc n) True vs
   | _ \<Rightarrow> Null)"

definition expr_add :: "bson list \<Rightarrow> bson ares" where
  "expr_add vals = Inr (arith_loop f64_add (f64_of_int 0) False vals)"

definition expr_multiply :: "bson list \<Rightarrow> bson ares" where
  "expr_multiply vals = Inr (arith_loop f64_mul (f64_of_int 1) False vals)"

definition expr_subtract :: "bson list \<Rightarrow> bson ares" where
  "expr_subtract vals = (case vals of
     [x, y] \<Rightarrow> (case (as_f64 x, as_f64 y) of
         (Some a, Some b) \<Rightarrow>
           Inr (if is_double x \<or> is_double y then Double (f64_sub a b) else i64 (f64_to_i64 (f64_sub a b)))
       | _ \<Rightarrow> Inr Null)
   | _ \<Rightarrow> Inr Null)"

definition expr_divide :: "bson list \<Rightarrow> bson ares" where
  "expr_divide vals = (case vals of
     [x, y] \<Rightarrow> (case (as_f64 x, as_f64 y) of
         (Some a, Some b) \<Rightarrow> Inr (if \<not> f64_eq b f64_zero then Double (f64_div a b) else Null)
       | _ \<Rightarrow> Inr Null)
   | _ \<Rightarrow> Inr Null)"

definition expr_mod :: "bson list \<Rightarrow> bson ares" where
  "expr_mod vals = (case vals of
     [x, y] \<Rightarrow> (case (as_f64 x, as_f64 y) of
         (Some a, Some b) \<Rightarrow>
           if f64_eq b f64_zero then Inr Null
           else if is_double x \<or> is_double y then Inr (Double (f64_rem a b))
           else if f64_to_i64 a = i64_min \<and> f64_to_i64 b = -1 then Inl ExprPanic
           else Inr (i64 (rem_trunc (f64_to_i64 a) (f64_to_i64 b)))
       | _ \<Rightarrow> Inr Null)
   | _ \<Rightarrow> Inr Null)"

fun concat_loop :: "string \<Rightarrow> bson list \<Rightarrow> bson" where
  "concat_loop acc [] = Str acc"
| "concat_loop acc (v # vs) = (case v of Str s \<Rightarrow> concat_loop (acc @ s) vs | _ \<Rightarrow> Null)"

definition expr_concat :: "bson list \<Rightarrow> bson ares" where
  "expr_concat vals = Inr (concat_loop [] vals)"

definition is_char_boundary :: "string \<Rightarrow> nat \<Rightarrow> bool" where
  "is_char_boundary s i \<longleftrightarrow> i = length s \<or> i < length s \<and> \<not> utf8_cont (byte_of_char (s ! i))"

definition str_slice :: "string \<Rightarrow> nat \<Rightarrow> nat \<Rightarrow> string ares" where
  "str_slice s start stop =
     (if start \<le> stop \<and> is_char_boundary s start \<and> is_char_boundary s stop
      then Inr (take (stop - start) (drop start s)) else Inl ExprPanic)"

definition expr_substr :: "bson list \<Rightarrow> bson ares" where
  "expr_substr vals = (case vals of
     [x, y, z] \<Rightarrow> (case x of
         Str s \<Rightarrow>
           (let start = f64_to_usize (opt_or f64_zero (as_f64 y));
                len = opt_or (f64_of_int (-1)) (as_f64 z) in
            if length s \<le> start then Inr (Str [])
            else if f64_lt len f64_zero then res_bind (str_slice s start (length s)) (\<lambda>t. Inr (Str t))
            else if 2 ^ 64 \<le> start + f64_to_usize len then Inl ExprPanic
            else res_bind (str_slice s start (min (start + f64_to_usize len) (length s))) (\<lambda>t. Inr (Str t)))
       | _ \<Rightarrow> Inr (Str []))
   | _ \<Rightarrow> Inr Null)"

definition expr_to_upper :: "externs \<Rightarrow> bson \<Rightarrow> bson ares" where
  "expr_to_upper X val = Inr (case val of Str s \<Rightarrow> Str (to_uppercase X s) | _ \<Rightarrow> Null)"

definition expr_to_lower :: "externs \<Rightarrow> bson \<Rightarrow> bson ares" where
  "expr_to_lower X val = Inr (case val of Str s \<Rightarrow> Str (to_lowercase X s) | _ \<Rightarrow> Null)"

definition expr_if_null :: "bson list \<Rightarrow> bson ares" where
  "expr_if_null vals = Inr (case find (\<lambda>v. v \<noteq> Null) (butlast vals) of
     Some v \<Rightarrow> v
   | None \<Rightarrow> if vals = [] then Null else last vals)"

definition expr_array_elem_at :: "bson list \<Rightarrow> bson ares" where
  "expr_array_elem_at vals = Inr (case vals of
     [Array arr, i] \<Rightarrow>
       (let idx = f64_to_i64 (opt_or f64_zero (as_f64 i));
            actual = (if idx < 0 then int (length arr) + idx else idx) in
        if 0 \<le> actual \<and> actual < int (length arr) then arr ! nat actual else Null)
   | _ \<Rightarrow> Null)"

definition expr_size :: "bson \<Rightarrow> bson ares" where
  "expr_size val = Inr (case val of Array a \<Rightarrow> i32 (int (length a)) | _ \<Rightarrow> Null)"

definition expr_not :: "bson list \<Rightarrow> bson ares" where
  "expr_not vals = Inr (Boolean (\<not> is_truthy (case vals of v # _ \<Rightarrow> v | [] \<Rightarrow> Null)))"

definition expr_and :: "bson list \<Rightarrow> bson ares" where
  "expr_and vals = Inr (Boolean (list_all is_truthy vals))"

definition expr_or :: "bson list \<Rightarrow> bson ares" where
  "expr_or vals = Inr (Boolean (list_ex is_truthy vals))"

definition expr_cmp_op :: "(ordering \<Rightarrow> bool) \<Rightarrow> bson list \<Rightarrow> bson ares" where
  "expr_cmp_op pred vals = Inr (Boolean (case vals of
     [x, y] \<Rightarrow> pred (compare_bson (Some x) (Some y))
   | _ \<Rightarrow> False))"

definition expr_abs :: "bson \<Rightarrow> bson ares" where
  "expr_abs val = Inr (case val of
     Int32 n \<Rightarrow> Int32 (if sint n < 0 then - n else n)
   | Int64 n \<Rightarrow> Int64 (if sint n < 0 then - n else n)
   | Double n \<Rightarrow> Double (f64_abs n)
   | _ \<Rightarrow> Null)"

definition expr_unary_f64 :: "(f64 \<Rightarrow> f64) \<Rightarrow> bson \<Rightarrow> bson ares" where
  "expr_unary_f64 f val = Inr (case as_f64 val of Some n \<Rightarrow> Double (f n) | None \<Rightarrow> Null)"

definition expr_round :: "externs \<Rightarrow> bson list \<Rightarrow> bson ares" where
  "expr_round X vals =
     (let num = as_f64 (case vals of v # _ \<Rightarrow> v | [] \<Rightarrow> Null);
          places = f64_to_i32 (opt_or f64_zero (case vals of _ # p # _ \<Rightarrow> as_f64 p | _ \<Rightarrow> None)) in
      Inr (case num of
        Some n \<Rightarrow> (let factor = x_powi10 X places in Double (f64_div (f64_round (f64_mul n factor)) factor))
      | None \<Rightarrow> Null))"

fun expr_type_name :: "bson \<Rightarrow> string" where
  "expr_type_name (Double _) = ''double''"
| "expr_type_name (Str _) = ''string''"
| "expr_type_name (Document _) = ''object''"
| "expr_type_name (Array _) = ''array''"
| "expr_type_name (Boolean _) = ''bool''"
| "expr_type_name Null = ''null''"
| "expr_type_name (Int32 _) = ''int''"
| "expr_type_name (Int64 _) = ''long''"
| "expr_type_name (ObjectId _) = ''objectId''"
| "expr_type_name (DateTime _) = ''date''"
| "expr_type_name (RegularExpression _ _) = ''regex''"
| "expr_type_name _ = ''unknown''"

definition expr_type :: "bson \<Rightarrow> bson ares" where
  "expr_type val = Inr (Str (expr_type_name val))"

definition expr_to_string :: "externs \<Rightarrow> bson \<Rightarrow> bson ares" where
  "expr_to_string X val = Inr (case val of
     Str s \<Rightarrow> Str s
   | Int32 n \<Rightarrow> Str (show_int (sint n))
   | Int64 n \<Rightarrow> Str (show_int (sint n))
   | Double n \<Rightarrow> Str (x_f64_to_string X n)
   | Boolean b \<Rightarrow> Str (if b then ''true'' else ''false'')
   | ObjectId oid \<Rightarrow> Str (to_hex oid)
   | _ \<Rightarrow> Null)"

definition expr_to_int :: "bson \<Rightarrow> bson ares" where
  "expr_to_int val = Inr (case val of
     Int32 n \<Rightarrow> Int32 n
   | Int64 n \<Rightarrow> Int32 (ucast n)
   | Double n \<Rightarrow> i32 (f64_to_i32 n)
   | Str s \<Rightarrow> (case parse_i32 s of Some i \<Rightarrow> i32 i | None \<Rightarrow> Null)
   | Boolean b \<Rightarrow> Int32 (if b then 1 else 0)
   | _ \<Rightarrow> Null)"

definition expr_to_double :: "bson \<Rightarrow> bson ares" where
  "expr_to_double val = Inr (case as_f64 val of
     Some n \<Rightarrow> Double n
   | None \<Rightarrow> (case val of
       Str s \<Rightarrow> (case parse_f64 s of Some n \<Rightarrow> Double n | None \<Rightarrow> Null)
     | Boolean b \<Rightarrow> Double (f64_of_int (if b then 1 else 0))
     | _ \<Rightarrow> Null))"

definition expr_to_bool :: "bson \<Rightarrow> bson ares" where
  "expr_to_bool val = Inr (Boolean (is_truthy val))"

definition expr_in :: "externs \<Rightarrow> bson list \<Rightarrow> bson ares" where
  "expr_in X vals = Inr (Boolean (case vals of
     [needle, Array arr] \<Rightarrow> list_ex (\<lambda>e. x_bson_eq X e needle) arr
   | _ \<Rightarrow> False))"

definition doc_extend :: "doc \<Rightarrow> doc \<Rightarrow> doc" where
  "doc_extend d e = foldl (\<lambda>d (k, v). doc_insert k v d) d e"

definition expr_merge_objects :: "bson list \<Rightarrow> bson ares" where
  "expr_merge_objects vals =
     Inr (Document (foldl (\<lambda>merged v. case v of Document d \<Rightarrow> doc_extend merged d | _ \<Rightarrow> merged) [] vals))"

definition expr_meta :: "doc \<Rightarrow> bson \<Rightarrow> bson ares" where
  "expr_meta d args = (case as_str args of
     None \<Rightarrow> Inr Null
   | Some keyword \<Rightarrow>
       if keyword = ''vectorSearchScore'' \<or> keyword = ''searchScore'' then Inr (get_or_null d ''_vectorScore'')
       else if keyword = ''textScore'' then Inr (get_or_null d ''_textScore'')
       else if keyword = ''geoNearDistance'' \<or> keyword = ''indexKey'' then Inr (get_or_null d ''dist'')
       else Inl (InvalidOperator (''Unknown $meta keyword: '' @ keyword)))"

definition expr_date_part :: "externs \<Rightarrow> string \<Rightarrow> bson \<Rightarrow> bson ares" where
  "expr_date_part X part val = Inr (case val of
     DateTime dt \<Rightarrow> (case x_date_part X part dt of Some n \<Rightarrow> i32 n | None \<Rightarrow> Null)
   | _ \<Rightarrow> Null)"

definition expr_object_to_array :: "bson \<Rightarrow> bson ares" where
  "expr_object_to_array val = Inr (case val of
     Document d \<Rightarrow> Array (map (\<lambda>(k, v). Document [(''k'', Str k), (''v'', v)]) d)
   | _ \<Rightarrow> Null)"

definition add_pair :: "doc \<Rightarrow> bson \<Rightarrow> doc" where
  "add_pair result item = (case item of
     Document d \<Rightarrow> (case (doc_get d ''k'', doc_get d ''v'') of
         (Some (Str key), Some v) \<Rightarrow> doc_insert key v result
       | _ \<Rightarrow> result)
   | Array [Str key, v] \<Rightarrow> doc_insert key v result
   | _ \<Rightarrow> result)"

definition expr_array_to_object :: "bson \<Rightarrow> bson ares" where
  "expr_array_to_object val = Inr (case val of
     Array arr \<Rightarrow> Document (foldl add_pair [] arr)
   | _ \<Rightarrow> Null)"

definition expr_bson_size :: "externs \<Rightarrow> bson \<Rightarrow> bson ares" where
  "expr_bson_size X val = Inr (case val of
     Document d \<Rightarrow> i32 (int (length (opt_or [] (x_to_vec X d))))
   | _ \<Rightarrow> Null)"

definition expr_reverse_array :: "bson \<Rightarrow> bson ares" where
  "expr_reverse_array val = Inr (case val of Array a \<Rightarrow> Array (rev a) | _ \<Rightarrow> Null)"

definition expr_is_array :: "bson \<Rightarrow> bson ares" where
  "expr_is_array val = Inr (Boolean (as_array_opt val \<noteq> None))"

section \<open>Variables\<close>

fun replace_var_refs :: "string \<Rightarrow> string \<Rightarrow> bson \<Rightarrow> bson" where
  "replace_var_refs frm to (Str s) =
     (if s = frm then Str to
      else if starts_with s (frm @ ''.'') then Str (to @ ''.'' @ drop (length frm + 1) s)
      else Str s)"
| "replace_var_refs frm to (Document d) =
     Document (doc_extend [] (map (\<lambda>(k, v). (k, replace_var_refs frm to v)) d))"
| "replace_var_refs frm to (Array arr) = Array (map (replace_var_refs frm to) arr)"
| "replace_var_refs frm to v = v"

abbreviation doc_nodes :: "doc \<Rightarrow> nat" where
  "doc_nodes d \<equiv> sum_list (map (\<lambda>(_, v). bson_nodes v) d)"

lemma doc_nodes_insert: "doc_nodes (doc_insert k v d) \<le> doc_nodes d + bson_nodes v"
  by (induction k v d rule: al_insert.induct) auto

lemma doc_nodes_extend: "doc_nodes (doc_extend d e) \<le> doc_nodes d + doc_nodes e"
  unfolding doc_extend_def
proof (induction e arbitrary: d)
  case (Cons kv e)
  obtain k v where kv: "kv = (k, v)" by (cases kv)
  show ?case using Cons.IH [of "doc_insert k v d"] doc_nodes_insert [of k v d] by (simp add: kv)
qed simp

lemma bson_nodes_replace: "bson_nodes (replace_var_refs frm to e) \<le> bson_nodes e"
proof (induction frm to e rule: replace_var_refs.induct)
  case (2 frm to d)
  have "doc_nodes (map (\<lambda>(k, v). (k, replace_var_refs frm to v)) d) \<le> doc_nodes d"
    using "2.IH" by (induction d) (auto intro!: add_mono)
  then show ?case using doc_nodes_extend [of "[]" "map (\<lambda>(k, v). (k, replace_var_refs frm to v)) d"] by simp
next
  case (3 frm to arr)
  then show ?case by (induction arr) (auto intro!: add_mono)
qed simp_all

text \<open>The substitutions of \<^verbatim>\<open>$let\<close>, one variable after the other.\<close>

definition replace_let_vars :: "doc \<Rightarrow> bson \<Rightarrow> bson" where
  "replace_let_vars vars e =
     foldl (\<lambda>e (name, _). replace_var_refs (''$$'' @ name) (''$__let_'' @ name) e) e vars"

lemma bson_nodes_replace_let: "bson_nodes (replace_let_vars vars e) \<le> bson_nodes e"
  unfolding replace_let_vars_def
proof (induction vars arbitrary: e)
  case (Cons v vars)
  obtain n w where v: "v = (n, w)" by (cases v)
  show ?case using Cons.IH [of "replace_var_refs (''$$'' @ n) (''$__let_'' @ n) e"]
      bson_nodes_replace [of "''$$'' @ n" "''$__let_'' @ n" e] by (simp add: v)
qed simp

definition let_scope :: "doc \<Rightarrow> doc \<Rightarrow> bson list \<Rightarrow> doc" where
  "let_scope d vars vals = foldl (\<lambda>d (name, v). doc_insert (''__let_'' @ name) v d) d (zip (map fst vars) vals)"

lemma doc_get_nodes: "doc_get d k = Some v \<Longrightarrow> bson_nodes v < bson_nodes (Document d)"
  by (rule bson_nodes_field) (rule map_of_SomeD)

lemma get_or_null_nodes: "bson_nodes (get_or_null d k) \<le> bson_nodes (Document d)"
  using doc_get_nodes [of d k] by (cases "doc_get d k") auto

text \<open>The branches of \<^verbatim>\<open>$switch\<close> that are documents; the loop skips the others.\<close>

definition switch_branches :: "doc \<Rightarrow> doc list" where
  "switch_branches switch_doc = (case doc_get switch_doc ''branches'' of
     Some (Array bs) \<Rightarrow> List.map_filter as_document bs
   | _ \<Rightarrow> [])"

lemma switch_branches_nodes:
  assumes "b \<in> set (switch_branches switch_doc)"
  shows "bson_nodes (Document b) < bson_nodes (Document switch_doc)"
proof -
  from assms obtain bs where "doc_get switch_doc ''branches'' = Some (Array bs)" "Document b \<in> set bs"
    by (auto simp: switch_branches_def map_filter_def split: option.splits bson.splits dest: sym)
  then show ?thesis using bson_nodes_item doc_get_nodes less_trans by blast
qed

section \<open>The evaluator\<close>

text \<open>
  The dispatch on the operator name: the operators that only look at their evaluated
  arguments, one list or one value, and the ones that evaluate for themselves.
\<close>

datatype expr_op =
    OnArgs "bson list \<Rightarrow> bson ares"
  | OnValue "bson \<Rightarrow> bson ares"
  | OpCond | OpSwitch | OpLiteral | OpMap | OpFilter | OpLet | OpMeta
  | OpConcatArrays | OpReduce | OpSlice | OpSum

definition expr_operators :: "externs \<Rightarrow> (string \<times> expr_op) list" where
  "expr_operators X =
    [(''$add'', OnArgs expr_add),
     (''$subtract'', OnArgs expr_subtract),
     (''$multiply'', OnArgs expr_multiply),
     (''$divide'', OnArgs expr_divide),
     (''$mod'', OnArgs expr_mod),
     (''$concat'', OnArgs expr_concat),
     (''$substr'', OnArgs expr_substr),
     (''$substrBytes'', OnArgs expr_substr),
     (''$toUpper'', OnValue (expr_to_upper X)),
     (''$toLower'', OnValue (expr_to_lower X)),
     (''$cond'', OpCond),
     (''$ifNull'', OnArgs expr_if_null),
     (''$switch'', OpSwitch),
     (''$arrayElemAt'', OnArgs expr_array_elem_at),
     (''$size'', OnValue expr_size),
     (''$literal'', OpLiteral),
     (''$not'', OnArgs expr_not),
     (''$and'', OnArgs expr_and),
     (''$or'', OnArgs expr_or),
     (''$eq'', OnArgs (expr_cmp_op (\<lambda>c. c = Equal))),
     (''$ne'', OnArgs (expr_cmp_op (\<lambda>c. c \<noteq> Equal))),
     (''$gt'', OnArgs (expr_cmp_op (\<lambda>c. c = Greater))),
     (''$gte'', OnArgs (expr_cmp_op (\<lambda>c. c \<noteq> Less))),
     (''$lt'', OnArgs (expr_cmp_op (\<lambda>c. c = Less))),
     (''$lte'', OnArgs (expr_cmp_op (\<lambda>c. c \<noteq> Greater))),
     (''$abs'', OnValue expr_abs),
     (''$ceil'', OnValue (expr_unary_f64 f64_ceil)),
     (''$floor'', OnValue (expr_unary_f64 f64_floor)),
     (''$round'', OnArgs (expr_round X)),
     (''$type'', OnValue expr_type),
     (''$toString'', OnValue (expr_to_string X)),
     (''$toInt'', OnValue expr_to_int),
     (''$toDouble'', OnValue expr_to_double),
     (''$toBool'', OnValue expr_to_bool),
     (''$in'', OnArgs (expr_in X)),
     (''$mergeObjects'', OnArgs expr_merge_objects),
     (''$map'', OpMap),
     (''$filter'', OpFilter),
     (''$let'', OpLet),
     (''$meta'', OpMeta),
     (''$year'', OnValue (expr_date_part X ''$year'')),
     (''$month'', OnValue (expr_date_part X ''$month'')),
     (''$dayOfMonth'', OnValue (expr_date_part X ''$dayOfMonth'')),
     (''$hour'', OnValue (expr_date_part X ''$hour'')),
     (''$minute'', OnValue (expr_date_part X ''$minute'')),
     (''$second'', OnValue (expr_date_part X ''$second'')),
     (''$dayOfWeek'', OnValue (expr_date_part X ''$dayOfWeek'')),
     (''$dayOfYear'', OnValue (expr_date_part X ''$dayOfYear'')),
     (''$objectToArray'', OnValue expr_object_to_array),
     (''$arrayToObject'', OnValue expr_array_to_object),
     (''$bsonSize'', OnValue (expr_bson_size X)),
     (''$concatArrays'', OpConcatArrays),
     (''$reduce'', OpReduce),
     (''$slice'', OpSlice),
     (''$reverseArray'', OnValue expr_reverse_array),
     (''$isArray'', OnValue expr_is_array),
     (''$sum'', OpSum)]"

definition expr_operator :: "externs \<Rightarrow> string \<Rightarrow> expr_op option" where
  "expr_operator X op = map_of (expr_operators X) op"

text \<open>An expression that is no document: a variable, a field reference or a constant.\<close>

definition evaluate_leaf :: "doc \<Rightarrow> bson \<Rightarrow> bson" where
  "evaluate_leaf d e = (case as_str e of
     None \<Rightarrow> e
   | Some s \<Rightarrow>
       if starts_with s ''$$'' then
         (let var = drop 2 s in
          if var = ''ROOT'' \<or> var = ''CURRENT'' then Document d
          else if var = ''REMOVE'' then Null
          else opt_or Null (get_value d var))
       else if starts_with s ''$'' then opt_or Null (get_value d (drop 1 s))
       else e)"

definition slice_count :: "bson \<Rightarrow> int" where
  "slice_count v = (case as_f64 v of Some f \<Rightarrow> f64_to_i64 f | None \<Rightarrow> 0)"

definition slice_from :: "bson list \<Rightarrow> int \<Rightarrow> nat" where
  "slice_from arr n = (if 0 \<le> n then nat n else nat (int (length arr) + n))"

text \<open>What the recursion is on is never larger than the arguments it comes from.\<close>

lemma nodes_nth: "i < length arr \<Longrightarrow> bson_nodes (arr ! i) \<le> bson_nodes (Array arr)"
  using bson_nodes_item [OF nth_mem] by (rule less_imp_le)

lemma nodes_branch: "b \<in> set (switch_branches sd) \<Longrightarrow> bson_nodes (get_or_null b k) \<le> bson_nodes (Document sd)"
  using switch_branches_nodes [of b sd] get_or_null_nodes [of b k] by simp

lemma nodes_replaced: "bson_nodes (replace_var_refs f t (get_or_null d k)) \<le> bson_nodes (Document d)"
  using bson_nodes_replace [of f t "get_or_null d k"] get_or_null_nodes [of d k] by simp

lemma nodes_replaced2:
  "doc_get d k = Some e \<Longrightarrow> bson_nodes (replace_var_refs f t (replace_var_refs g u e)) \<le> bson_nodes (Document d)"
  using bson_nodes_replace [of f t "replace_var_refs g u e"] bson_nodes_replace [of g u e] doc_get_nodes [of d k e] by simp

lemma nodes_replaced_let: "bson_nodes (replace_let_vars vars (get_or_null d k)) \<le> bson_nodes (Document d)"
  using bson_nodes_replace_let [of vars "get_or_null d k"] get_or_null_nodes [of d k] by simp

lemma nodes_var:
  assumes "(n, v) \<in> set (opt_or [] (Option.bind (doc_get d k) as_document))"
  shows "bson_nodes v \<le> bson_nodes (Document d)"
proof (cases "Option.bind (doc_get d k) as_document")
  case (Some vars)
  then have "doc_get d k = Some (Document vars)" "(n, v) \<in> set vars"
    using assms by (auto simp: bind_eq_Some_conv)
  then show ?thesis using bson_nodes_field [of n v vars] doc_get_nodes [of d k "Document vars"] by simp
qed (use assms in simp)

lemma nodes_arg:
  "Suc (Suc (3 * bson_nodes args)) < 3 * bson_nodes (Document ((op, args) # r))"
  "bson_nodes args < bson_nodes (Document ((op, args) # r))"
  by simp_all

lemma nodes_step:
  "a \<le> b \<Longrightarrow> 3 * a < Suc (3 * b)"
  "a < b \<Longrightarrow> 3 * a + 1 < 3 * b"
  by simp_all

lemmas expr_nodes = nodes_nth nodes_branch nodes_replaced nodes_replaced2 nodes_replaced_let nodes_var
  get_or_null_nodes less_imp_le [OF doc_get_nodes] less_imp_le [OF bson_nodes_item] bson_nodes_field [OF list.set_intros(2)]

function
    evaluate_expression :: "externs \<Rightarrow> doc \<Rightarrow> bson \<Rightarrow> bson ares"
and evaluate_operator_expression :: "externs \<Rightarrow> doc \<Rightarrow> doc \<Rightarrow> bson ares"
and get_array_args :: "externs \<Rightarrow> doc \<Rightarrow> bson \<Rightarrow> bson list ares"
and expr_cond :: "externs \<Rightarrow> doc \<Rightarrow> bson \<Rightarrow> bson ares"
and expr_switch :: "externs \<Rightarrow> doc \<Rightarrow> bson \<Rightarrow> bson ares"
and expr_map :: "externs \<Rightarrow> doc \<Rightarrow> bson \<Rightarrow> bson ares"
and expr_filter :: "externs \<Rightarrow> doc \<Rightarrow> bson \<Rightarrow> bson ares"
and expr_let :: "externs \<Rightarrow> doc \<Rightarrow> bson \<Rightarrow> bson ares"
and expr_concat_arrays :: "externs \<Rightarrow> doc \<Rightarrow> bson \<Rightarrow> bson ares"
and expr_reduce :: "externs \<Rightarrow> doc \<Rightarrow> bson \<Rightarrow> bson ares"
and expr_slice :: "externs \<Rightarrow> doc \<Rightarrow> bson \<Rightarrow> bson ares"
and expr_sum_expr :: "externs \<Rightarrow> doc \<Rightarrow> bson \<Rightarrow> bson ares"
where
  "evaluate_expression X d e = (case as_document e of
     Some op_doc \<Rightarrow> evaluate_operator_expression X d op_doc
   | None \<Rightarrow> Inr (evaluate_leaf d e))"
| "evaluate_operator_expression X d op_doc = (case op_doc of
     [] \<Rightarrow> Inr (Document [])
   | (op, args) # _ \<Rightarrow>
      if \<not> starts_with op ''$'' then
        res_bind (map_res (\<lambda>(k, v). res_bind (evaluate_expression X d v) (\<lambda>w. Inr (k, w))) op_doc)
          (\<lambda>kvs. Inr (Document (doc_extend [] kvs)))
      else case expr_operator X op of
        None \<Rightarrow> Inl (InvalidOperator (''Unknown expression operator: '' @ op))
      | Some oper \<Rightarrow> (case oper of
          OnArgs f \<Rightarrow> res_bind (get_array_args X d args) f
        | OnValue f \<Rightarrow> res_bind (evaluate_expression X d args) f
        | OpCond \<Rightarrow> expr_cond X d args
        | OpSwitch \<Rightarrow> expr_switch X d args
        | OpLiteral \<Rightarrow> Inr args
        | OpMap \<Rightarrow> expr_map X d args
        | OpFilter \<Rightarrow> expr_filter X d args
        | OpLet \<Rightarrow> expr_let X d args
        | OpMeta \<Rightarrow> expr_meta d args
        | OpConcatArrays \<Rightarrow> expr_concat_arrays X d args
        | OpReduce \<Rightarrow> expr_reduce X d args
        | OpSlice \<Rightarrow> expr_slice X d args
        | OpSum \<Rightarrow> expr_sum_expr X d args))"
| "get_array_args X d args = (case as_array_opt args of
     Some arr \<Rightarrow> map_res (evaluate_expression X d) arr
   | None \<Rightarrow> res_bind (evaluate_expression X d args) (\<lambda>v. Inr [v]))"
| "expr_cond X d args = (case (as_array_opt args, as_document args) of
     (Some arr, _) \<Rightarrow>
       (if length arr = 3 then
          res_bind (evaluate_expression X d (arr ! 0)) (\<lambda>c.
          if is_truthy c then evaluate_expression X d (arr ! 1) else evaluate_expression X d (arr ! 2))
        else Inr Null)
   | (None, Some spec) \<Rightarrow>
       res_bind (evaluate_expression X d (get_or_null spec ''if'')) (\<lambda>c.
       if is_truthy c then evaluate_expression X d (get_or_null spec ''then'')
       else evaluate_expression X d (get_or_null spec ''else''))
   | (None, None) \<Rightarrow> Inr Null)"
| "expr_switch X d args = (case as_document args of
     None \<Rightarrow> Inr Null
   | Some switch_doc \<Rightarrow>
       res_bind (first_res (\<lambda>b.
           res_bind (evaluate_expression X d (get_or_null b ''case'')) (\<lambda>c.
           if is_truthy c
           then res_bind (evaluate_expression X d (get_or_null b ''then'')) (\<lambda>v. Inr (Some v))
           else Inr None)) (switch_branches switch_doc)) (\<lambda>r.
       case r of
         Some v \<Rightarrow> Inr v
       | None \<Rightarrow> (case doc_get switch_doc ''default'' of
           Some default_expr \<Rightarrow> evaluate_expression X d default_expr
         | None \<Rightarrow> Inr Null)))"
| "expr_map X d args = (case as_document args of
     None \<Rightarrow> Inr Null
   | Some spec \<Rightarrow>
       res_bind (evaluate_expression X d (get_or_null spec ''input'')) (\<lambda>input.
       let as_name = opt_or ''this'' (Option.bind (doc_get spec ''as'') as_str) in
       case as_array_opt input of
         None \<Rightarrow> Inr Null
       | Some arr \<Rightarrow>
           res_bind (map_res (\<lambda>item. evaluate_expression X (doc_insert (''__'' @ as_name) item d)
               (replace_var_refs (''$$'' @ as_name) (''$__'' @ as_name) (get_or_null spec ''in''))) arr)
             (\<lambda>result. Inr (Array result))))"
| "expr_filter X d args = (case as_document args of
     None \<Rightarrow> Inr Null
   | Some spec \<Rightarrow>
       res_bind (evaluate_expression X d (get_or_null spec ''input'')) (\<lambda>input.
       let as_name = opt_or ''this'' (Option.bind (doc_get spec ''as'') as_str) in
       case as_array_opt input of
         None \<Rightarrow> Inr Null
       | Some arr \<Rightarrow>
           res_bind (map_res (\<lambda>item.
               res_bind (evaluate_expression X (doc_insert (''__'' @ as_name) item d)
                   (replace_var_refs (''$$'' @ as_name) (''$__'' @ as_name) (get_or_null spec ''cond'')))
                 (\<lambda>c. Inr (if is_truthy c then [item] else []))) arr)
             (\<lambda>kept. Inr (Array (concat kept)))))"
| "expr_let X d args = (case as_document args of
     None \<Rightarrow> Inr Null
   | Some let_doc \<Rightarrow>
       (let vars = opt_or [] (Option.bind (doc_get let_doc ''vars'') as_document) in
        res_bind (map_res (\<lambda>(name, var_expr). evaluate_expression X d var_expr) vars) (\<lambda>vals.
        evaluate_expression X (let_scope d vars vals) (replace_let_vars vars (get_or_null let_doc ''in'')))))"
| "expr_concat_arrays X d args = (case as_array_opt args of
     None \<Rightarrow> Inr Null
   | Some arrs \<Rightarrow>
       res_bind (fold_res (\<lambda>acc item. case acc of
           None \<Rightarrow> Inr None
         | Some r \<Rightarrow> res_bind (evaluate_expression X d item) (\<lambda>v.
             Inr (map_option (\<lambda>a. r @ a) (as_array_opt v)))) (Some []) arrs) (\<lambda>acc.
       Inr (case acc of Some r \<Rightarrow> Array r | None \<Rightarrow> Null)))"
| "expr_reduce X d args = (case as_document args of
     None \<Rightarrow> Inr Null
   | Some spec \<Rightarrow>
       res_bind (case doc_get spec ''input'' of Some v \<Rightarrow> evaluate_expression X d v | None \<Rightarrow> Inr Null) (\<lambda>input.
       res_bind (case doc_get spec ''initialValue'' of Some v \<Rightarrow> evaluate_expression X d v | None \<Rightarrow> Inr Null) (\<lambda>initial.
       case doc_get spec ''in'' of
         None \<Rightarrow> Inr initial
       | Some in_expr \<Rightarrow> (case as_array_opt input of
           None \<Rightarrow> Inr Null
         | Some arr \<Rightarrow>
             fold_res (\<lambda>accum item.
               evaluate_expression X (doc_insert ''__this__'' item (doc_insert ''__value__'' accum d))
                 (replace_var_refs ''$$this'' ''$__this__'' (replace_var_refs ''$$value'' ''$__value__'' in_expr)))
               initial arr))))"
| "expr_slice X d args = (case as_array_opt args of
     None \<Rightarrow> Inr Null
   | Some params \<Rightarrow>
       if length params < 2 then Inr Null else
       res_bind (evaluate_expression X d (params ! 0)) (\<lambda>v.
       case as_array_opt v of
         None \<Rightarrow> Inr Null
       | Some arr \<Rightarrow>
           res_bind (evaluate_expression X d (params ! 1)) (\<lambda>p.
           if length params = 2 then
             Inr (Array (if 0 \<le> slice_count p then take (nat (slice_count p)) arr else drop (slice_from arr (slice_count p)) arr))
           else
             res_bind (evaluate_expression X d (params ! 2)) (\<lambda>q.
             let count = (case as_f64 q of Some f \<Rightarrow> f64_to_usize f | None \<Rightarrow> 0) in
             Inr (Array (take count (drop (slice_from arr (slice_count p)) arr)))))))"
| "expr_sum_expr X d args = (case as_array_opt args of
     None \<Rightarrow> evaluate_expression X d args
   | Some arr \<Rightarrow>
       res_bind (fold_res (\<lambda>total item.
           res_bind (evaluate_expression X d item) (\<lambda>v.
           Inr (case as_f64 v of Some n \<Rightarrow> f64_add total n | None \<Rightarrow> total))) f64_zero arr) (\<lambda>total.
       Inr (if f64_eq total (f64_of_int (f64_to_i64 total)) then i64 (f64_to_i64 total) else Double total)))"
  by pat_completeness auto

termination
  by (relation "measure (case_sum
    (case_sum (case_sum (\<lambda>(X, d, e). 3 * bson_nodes e + 1)
        (case_sum (\<lambda>(X, d, q). 3 * bson_nodes (Document q)) (\<lambda>(X, d, a). 3 * bson_nodes a + 2)))
      (case_sum (\<lambda>(X, d, a). 3 * bson_nodes a + 2)
        (case_sum (\<lambda>(X, d, a). 3 * bson_nodes a + 2) (\<lambda>(X, d, a). 3 * bson_nodes a + 2))))
    (case_sum (case_sum (\<lambda>(X, d, a). 3 * bson_nodes a + 2)
        (case_sum (\<lambda>(X, d, a). 3 * bson_nodes a + 2) (\<lambda>(X, d, a). 3 * bson_nodes a + 2)))
      (case_sum (\<lambda>(X, d, a). 3 * bson_nodes a + 2)
        (case_sum (\<lambda>(X, d, a). 3 * bson_nodes a + 2) (\<lambda>(X, d, a). 3 * bson_nodes a + 2)))))")
     (auto simp del: bson_nodes.simps One_nat_def intro!: nodes_arg nodes_step intro: expr_nodes)

declare evaluate_expression.simps [simp del] evaluate_operator_expression.simps [simp del]
  get_array_args.simps [simp del] expr_cond.simps [simp del] expr_switch.simps [simp del]
  expr_map.simps [simp del] expr_filter.simps [simp del] expr_let.simps [simp del]
  expr_concat_arrays.simps [simp del] expr_reduce.simps [simp del] expr_slice.simps [simp del]
  expr_sum_expr.simps [simp del]

lemmas expr_eval_simps = evaluate_expression.simps evaluate_operator_expression.simps
  get_array_args.simps expr_cond.simps expr_switch.simps expr_map.simps expr_filter.simps expr_let.simps
  expr_concat_arrays.simps expr_reduce.simps expr_slice.simps expr_sum_expr.simps

end
