(* ===== verification/Query.thy ===== *)
theory Query
  imports Expressions
begin

text \<open>
  The query evaluator (\<^verbatim>\<open>query/mod.rs\<close>): every operator as one definition, and the mutually
  recursive core that walks a query document.  An \<^verbatim>\<open>Err\<close> is an \<open>Inl\<close> with the reason.
\<close>

section \<open>Operators on one value\<close>

datatype query_error =
    ExpectedArray
  | OrRequiresObjects | AndRequiresObjects | NorRequiresObjects
  | UnknownOperator string
  | RegexRequiresString | InvalidRegex string
  | ElemMatchRequiresObject
  | SizeRequiresNumber
  | ModRequiresPair | ModDivisorNotNumeric | ModDivisorZero | ModRemainderNotNumeric
  | RemainderOverflowPanic
  | BitsPositionType | BitsPositionOutOfRange int | BitsRequiresMask
  | TextSearchNotString | TextRequiresSearch | TextRequiresDocument
  | ExprError agg_error
  | NearRequiresGeometry | NearArrayTooShort | LongitudeNotNumeric | LatitudeNotNumeric
  | GeometryTypeMissing | NearRequiresPoint | GeometryRequiresCoordinates
  | NearRequiresArrayOrDocument
  | PointCoordinatesNotArray | PointCoordinatesTooShort
  | GeoWithinRequiresObject | CenterSphereShape | RadiusNotNumeric | RadiusNegative
  | GeoWithinRequiresGeometry
  | GeoIntersectsRequiresObject | GeoIntersectsRequiresGeometry
  | GeoShapeError string

type_synonym 'a qres = "query_error + 'a"

fun as_array :: "bson \<Rightarrow> bson list qres" where
  "as_array (Array arr) = Inr arr"
| "as_array _ = Inl ExpectedArray"

lemma as_array_InrD: "as_array b = Inr xs \<Longrightarrow> b = Array xs"
  by (cases b) auto

definition in_sorted :: "bson list \<Rightarrow> bson \<Rightarrow> bool" where
  "in_sorted srt v = (\<not> isl (binary_search_by (\<lambda>probe. bson_cmp probe v) srt))"

definition eval_in :: "bson option \<Rightarrow> bson \<Rightarrow> bool qres" where
  "eval_in value cond_val =
     res_bind (as_array cond_val) (\<lambda>arr.
       let srt = sort_by bson_cmp arr in
       case value of
         Some v \<Rightarrow> (case v of
             Array val_arr \<Rightarrow> Inr (list_ex (in_sorted srt) val_arr)
           | _ \<Rightarrow> Inr (in_sorted srt v))
       | None \<Rightarrow> Inr False)"

definition eval_nin :: "bson option \<Rightarrow> bson \<Rightarrow> bool qres" where
  "eval_nin value cond_val = res_bind (eval_in value cond_val) (\<lambda>b. Inr (\<not> b))"

definition eval_exists :: "doc \<Rightarrow> string \<Rightarrow> bson \<Rightarrow> bool qres" where
  "eval_exists d key cond_val =
     (let present = field_exists d key;
          want = (case cond_val of Boolean b \<Rightarrow> b | _ \<Rightarrow> True)
      in Inr (if want then present else \<not> present))"

definition bson_type_number_to_name :: "int \<Rightarrow> string option" where
  "bson_type_number_to_name n =
     (if n = 1 then Some ''double'' else if n = 2 then Some ''string''
      else if n = 3 then Some ''object'' else if n = 4 then Some ''array''
      else if n = 5 then Some ''binData'' else if n = 7 then Some ''objectId''
      else if n = 8 then Some ''bool'' else if n = 9 then Some ''date''
      else if n = 10 then Some ''null'' else if n = 11 then Some ''regex''
      else if n = 16 then Some ''int'' else if n = 18 then Some ''long''
      else if n = 19 then Some ''decimal'' else None)"

definition bson_type_matches :: "bson \<Rightarrow> string \<Rightarrow> bool" where
  "bson_type_matches value type_name = (case value of
     Double _ \<Rightarrow> type_name = ''double'' \<or> type_name = ''number''
   | Str _ \<Rightarrow> type_name = ''string''
   | Document _ \<Rightarrow> type_name = ''object''
   | Array _ \<Rightarrow> type_name = ''array''
   | Binary _ _ \<Rightarrow> type_name = ''binData''
   | ObjectId _ \<Rightarrow> type_name = ''objectId''
   | Boolean _ \<Rightarrow> type_name = ''bool''
   | DateTime _ \<Rightarrow> type_name = ''date''
   | Null \<Rightarrow> type_name = ''null''
   | RegularExpression _ _ \<Rightarrow> type_name = ''regex''
   | Int32 _ \<Rightarrow> type_name = ''int'' \<or> type_name = ''number''
   | Int64 _ \<Rightarrow> type_name = ''long'' \<or> type_name = ''number''
   | Decimal128 _ \<Rightarrow> type_name = ''decimal'' \<or> type_name = ''number''
   | _ \<Rightarrow> False)"

definition eval_type :: "bson option \<Rightarrow> bson \<Rightarrow> bool qres" where
  "eval_type value cond_val = (case value of
     None \<Rightarrow> Inr False
   | Some v \<Rightarrow>
       (case (case cond_val of
                Int32 n \<Rightarrow> bson_type_number_to_name (sint n)
              | Int64 n \<Rightarrow> bson_type_number_to_name (sint (ucast n :: 32 word))
              | Str s \<Rightarrow> Some s
              | _ \<Rightarrow> None) of
          None \<Rightarrow> Inr False
        | Some type_name \<Rightarrow> Inr (bson_type_matches v type_name)))"

text \<open>The thread-local cache of compiled patterns does not change what a match returns.\<close>

definition eval_regex :: "externs \<Rightarrow> bson option \<Rightarrow> bson \<Rightarrow> bool qres" where
  "eval_regex X value cond_val = (case value of
     Some (Str value_str) \<Rightarrow>
       res_bind (case cond_val of
           Str s \<Rightarrow> Inr s
         | RegularExpression pattern _ \<Rightarrow> Inr pattern
         | _ \<Rightarrow> Inl RegexRequiresString) (\<lambda>pattern.
       case x_regex_is_match X pattern value_str of
         None \<Rightarrow> Inl (InvalidRegex pattern)
       | Some b \<Rightarrow> Inr b)
   | _ \<Rightarrow> Inr False)"

definition eval_all :: "externs \<Rightarrow> bson option \<Rightarrow> bson \<Rightarrow> bool qres" where
  "eval_all X value cond_val = (case value of
     Some (Array val_arr) \<Rightarrow>
       res_bind (as_array cond_val) (\<lambda>cond_arr.
         let val_keys = set (map (x_canonical_key X) val_arr) in
         Inr (list_all (\<lambda>cond_item. x_canonical_key X cond_item \<in> val_keys) cond_arr))
   | _ \<Rightarrow> Inr False)"

text \<open>\<^verbatim>\<open>as usize\<close> of a signed integer wraps to 64 bits.\<close>

definition eval_size :: "bson option \<Rightarrow> bson \<Rightarrow> bool qres" where
  "eval_size value cond_val = (case value of
     Some (Array val_arr) \<Rightarrow>
       res_bind (case cond_val of
           Int32 n \<Rightarrow> Inr (nat (sint n mod 2 ^ 64))
         | Int64 n \<Rightarrow> Inr (nat (sint n mod 2 ^ 64))
         | _ \<Rightarrow> Inl SizeRequiresNumber) (\<lambda>expected_size.
       Inr (length val_arr = expected_size))
   | _ \<Rightarrow> Inr False)"

fun num_as_i64 :: "bson \<Rightarrow> int option" where
  "num_as_i64 (Int32 n) = Some (sint n)"
| "num_as_i64 (Int64 n) = Some (sint n)"
| "num_as_i64 (Double x) = Some (f64_to_i64 x)"
| "num_as_i64 _ = None"

definition eval_mod :: "bson option \<Rightarrow> bson \<Rightarrow> bool qres" where
  "eval_mod value cond_val =
     res_bind (case cond_val of
         Array [a, b] \<Rightarrow> Inr (a, b)
       | _ \<Rightarrow> Inl ModRequiresPair) (\<lambda>(a, b).
     res_bind (ok_or ModDivisorNotNumeric (num_as_i64 a)) (\<lambda>divisor.
     if divisor = 0 then Inl ModDivisorZero else
     res_bind (ok_or ModRemainderNotNumeric (num_as_i64 b)) (\<lambda>remainder.
     case value of
       None \<Rightarrow> Inr False
     | Some v \<Rightarrow> (case num_as_i64 v of
           None \<Rightarrow> Inr False
         | Some field_val \<Rightarrow>
             if field_val = i64_min \<and> divisor = -1 then Inl RemainderOverflowPanic
             else Inr (rem_trunc field_val divisor = remainder)))))"

datatype bits_mode = AllSet | AnySet | AllClear | AnyClear

definition bits_position :: "bson \<Rightarrow> nat qres" where
  "bits_position pos =
     res_bind (case pos of
         Int32 n \<Rightarrow> Inr (sint n)
       | Int64 n \<Rightarrow> Inr (sint n)
       | _ \<Rightarrow> Inl BitsPositionType) (\<lambda>p.
     if \<not> (0 \<le> p \<and> p \<le> 63) then Inl (BitsPositionOutOfRange p) else Inr (nat p))"

definition bits_mask :: "bson \<Rightarrow> 64 word qres" where
  "bits_mask cond_val = (case cond_val of
     Int32 m \<Rightarrow> Inr (scast m)
   | Int64 m \<Rightarrow> Inr m
   | Double m \<Rightarrow> Inr (word_of_int (f64_to_i64 m))
   | Array positions \<Rightarrow>
       fold_res (\<lambda>m pos. res_bind (bits_position pos) (\<lambda>p. Inr (m OR push_bit p 1))) 0 positions
   | _ \<Rightarrow> Inl BitsRequiresMask)"

definition eval_bits :: "bson option \<Rightarrow> bson \<Rightarrow> bits_mode \<Rightarrow> bool qres" where
  "eval_bits value cond_val mode = (case value of
     None \<Rightarrow> Inr False
   | Some v \<Rightarrow> (case num_as_i64 v of
       None \<Rightarrow> Inr False
     | Some n \<Rightarrow>
         (let field_val = word_of_int n :: 64 word in
          res_bind (bits_mask cond_val) (\<lambda>mask.
          case mode of
            AllSet \<Rightarrow> Inr (field_val AND mask = mask)
          | AnySet \<Rightarrow> Inr (field_val AND mask \<noteq> 0)
          | AllClear \<Rightarrow> Inr (field_val AND mask = 0)
          | AnyClear \<Rightarrow> Inr (field_val AND mask \<noteq> mask)))))"

definition eval_expr :: "externs \<Rightarrow> doc \<Rightarrow> bson \<Rightarrow> bool qres" where
  "eval_expr X d condition =
     res_bind (map_err ExprError (evaluate_expression X d condition)) (\<lambda>r. Inr (is_truthy r))"

fun collect_strings :: "bson \<Rightarrow> string list" where
  "collect_strings (Str s) = [s]"
| "collect_strings (Document d) = concat (map (\<lambda>(_, v). collect_strings v) d)"
| "collect_strings (Array arr) = concat (map collect_strings arr)"
| "collect_strings _ = []"

definition extract_all_strings :: "externs \<Rightarrow> doc \<Rightarrow> string" where
  "extract_all_strings X d =
     to_lowercase X (join_with '' '' (concat (map (\<lambda>(_, v). collect_strings v) d)))"

definition eval_text :: "externs \<Rightarrow> doc \<Rightarrow> bson \<Rightarrow> bool qres" where
  "eval_text X d condition =
     res_bind (case condition of
         Document c \<Rightarrow> (case doc_get c ''$search'' of
             Some (Str s) \<Rightarrow> Inr s
           | Some _ \<Rightarrow> Inl TextSearchNotString
           | None \<Rightarrow> Inl TextRequiresSearch)
       | Str s \<Rightarrow> Inr s
       | _ \<Rightarrow> Inl TextRequiresDocument) (\<lambda>search_str.
     let tokens = split_whitespace X (to_lowercase X search_str) in
     if tokens = [] then Inr True
     else (let all_text = extract_all_strings X d in
           Inr (list_all (\<lambda>t. contains_sub all_text t) tokens)))"

section \<open>Geospatial operators\<close>

text \<open>\<^verbatim>\<open>Bson::as_f64\<close> of the crate: doubles only.\<close>

fun bson_as_f64 :: "bson \<Rightarrow> f64 option" where
  "bson_as_f64 (Double x) = Some x"
| "bson_as_f64 _ = None"

definition in_range :: "int \<Rightarrow> f64 \<Rightarrow> bool" where
  "in_range b x \<longleftrightarrow> f64_le (f64_of_int (- b)) x \<and> f64_le x (f64_of_int b)"

definition parse_lon_lat_pair :: "bson \<Rightarrow> (f64 \<times> f64) option" where
  "parse_lon_lat_pair coords = (case coords of
     Array (a # b # _) \<Rightarrow> (case (bson_as_f64 a, bson_as_f64 b) of
         (Some lon, Some lat) \<Rightarrow>
           if \<not> in_range 180 lon \<or> \<not> in_range 90 lat then None else Some (lon, lat)
       | _ \<Rightarrow> None)
   | _ \<Rightarrow> None)"

definition extract_lon_lat :: "bson option \<Rightarrow> (f64 \<times> f64) option" where
  "extract_lon_lat value = (case value of
     None \<Rightarrow> None
   | Some v \<Rightarrow> (case v of
       Document dict \<Rightarrow>
         (let typ = opt_or [] (Option.bind (doc_get dict ''type'') as_str) in
          if typ \<noteq> ''Point'' then None
          else Option.bind (doc_get dict ''coordinates'') parse_lon_lat_pair)
     | Array (a # b # _) \<Rightarrow>
         Option.bind (bson_as_f64 a) (\<lambda>lon. Option.bind (bson_as_f64 b) (\<lambda>lat. Some (lon, lat)))
     | _ \<Rightarrow> None))"

abbreviation as_f64_bson :: "bson \<Rightarrow> f64 option" where
  "as_f64_bson \<equiv> as_f64"

abbreviation get_f64 :: "doc \<Rightarrow> string \<Rightarrow> f64 option" where
  "get_f64 d k \<equiv> Option.bind (doc_get d k) as_f64_bson"

definition opt_else :: "'a option \<Rightarrow> 'a option \<Rightarrow> 'a option" where
  "opt_else a b = (case a of Some x \<Rightarrow> Some x | None \<Rightarrow> b)"

definition parse_point_coords_near :: "bson \<Rightarrow> (f64 \<times> f64) qres" where
  "parse_point_coords_near coords = (case coords of
     Array cl \<Rightarrow> (case cl of
         a # b # _ \<Rightarrow>
           res_bind (ok_or LongitudeNotNumeric (as_f64_bson a)) (\<lambda>lon.
           res_bind (ok_or LatitudeNotNumeric (as_f64_bson b)) (\<lambda>lat. Inr (lon, lat)))
       | _ \<Rightarrow> Inl PointCoordinatesTooShort)
   | _ \<Rightarrow> Inl PointCoordinatesNotArray)"

definition default_near_max :: f64 where
  "default_near_max = f64_of_int 20000000"

definition earth_radius_meters :: f64 where
  "earth_radius_meters = f64_of_int 6371000"

definition near_target ::
    "doc \<Rightarrow> (f64 \<times> f64 \<times> f64 option \<times> f64 option) qres" where
  "near_target cond_doc =
     (let outer_max = get_f64 cond_doc ''$maxDistance'';
          outer_min = get_f64 cond_doc ''$minDistance'' in
      res_bind (ok_or NearRequiresGeometry
          (opt_else (doc_get cond_doc ''$near'') (doc_get cond_doc ''$nearSphere''))) (\<lambda>nv.
      case nv of
        Array arr \<Rightarrow> (case arr of
            a # b # _ \<Rightarrow>
              res_bind (ok_or LongitudeNotNumeric (as_f64_bson a)) (\<lambda>lon.
              res_bind (ok_or LatitudeNotNumeric (as_f64_bson b)) (\<lambda>lat.
              Inr (lon, lat, outer_max, outer_min)))
          | _ \<Rightarrow> Inl NearArrayTooShort)
      | Document spec \<Rightarrow>
          (let max_d = opt_else (get_f64 spec ''$maxDistance'') outer_max;
               min_d = opt_else (get_f64 spec ''$minDistance'') outer_min in
           res_bind (ok_or NearRequiresGeometry (Option.bind (doc_get spec ''$geometry'') as_document)) (\<lambda>geom.
           res_bind (ok_or GeometryTypeMissing (Option.bind (doc_get geom ''type'') as_str)) (\<lambda>typ.
           if typ \<noteq> ''Point'' then Inl NearRequiresPoint else
           res_bind (ok_or GeometryRequiresCoordinates (doc_get geom ''coordinates'')) (\<lambda>coords.
           res_bind (parse_point_coords_near coords) (\<lambda>(lon, lat).
           Inr (lon, lat, max_d, min_d))))))
      | _ \<Rightarrow> Inl NearRequiresArrayOrDocument))"

definition eval_near_family :: "externs \<Rightarrow> bson option \<Rightarrow> doc \<Rightarrow> bool qres" where
  "eval_near_family X value cond_doc =
     res_bind (near_target cond_doc) (\<lambda>(clon, clat, max_m, min_m).
     case extract_lon_lat value of
       None \<Rightarrow> Inr False
     | Some (dlon, dlat) \<Rightarrow>
         (let dist = x_haversine X clon clat dlon dlat;
              m = opt_or default_near_max max_m in
          if f64_lt m dist then Inr False
          else case min_m of
            Some m \<Rightarrow> Inr (\<not> f64_lt dist m)
          | None \<Rightarrow> Inr True))"

definition eval_geo_within :: "externs \<Rightarrow> bson option \<Rightarrow> doc \<Rightarrow> bool qres" where
  "eval_geo_within X value cond_doc =
     res_bind (ok_or GeoWithinRequiresObject (Option.bind (doc_get cond_doc ''$geoWithin'') as_document)) (\<lambda>inner.
     case doc_get inner ''$centerSphere'' of
       Some cs \<Rightarrow> (case cs of
           Array (Array (lonb # latb # _) # rb # _) \<Rightarrow>
             res_bind (ok_or LongitudeNotNumeric (as_f64_bson lonb)) (\<lambda>clon.
             res_bind (ok_or LatitudeNotNumeric (as_f64_bson latb)) (\<lambda>clat.
             res_bind (ok_or RadiusNotNumeric (as_f64_bson rb)) (\<lambda>rrad.
             if f64_lt rrad (f64_of_int 0) then Inl RadiusNegative
             else let max_m = f64_mul rrad earth_radius_meters in
               case extract_lon_lat value of
                 None \<Rightarrow> Inr False
               | Some (dlon, dlat) \<Rightarrow> Inr (f64_le (x_haversine X clon clat dlon dlat) max_m))))
         | _ \<Rightarrow> Inl CenterSphereShape)
     | None \<Rightarrow>
         res_bind (ok_or GeoWithinRequiresGeometry (Option.bind (doc_get inner ''$geometry'') as_document)) (\<lambda>g.
         res_bind (map_err GeoShapeError (x_geo_contains X g)) (\<lambda>contains_point.
         case extract_lon_lat value of
           None \<Rightarrow> Inr False
         | Some (dlon, dlat) \<Rightarrow> Inr (contains_point dlon dlat))))"

definition eval_geo_intersects :: "externs \<Rightarrow> bson option \<Rightarrow> doc \<Rightarrow> bool qres" where
  "eval_geo_intersects X value cond_doc =
     res_bind (ok_or GeoIntersectsRequiresObject (Option.bind (doc_get cond_doc ''$geoIntersects'') as_document)) (\<lambda>inner.
     res_bind (ok_or GeoIntersectsRequiresGeometry (Option.bind (doc_get inner ''$geometry'') as_document)) (\<lambda>g.
     res_bind (map_err GeoShapeError (x_geo_intersects X g)) (\<lambda>intersects_point.
     case extract_lon_lat value of
       None \<Rightarrow> Inr False
     | Some (dlon, dlat) \<Rightarrow> Inr (intersects_point dlon dlat))))"

section \<open>The evaluator\<close>

lemma as_array_nodes: "as_array c = Inr xs \<Longrightarrow> x \<in> set xs \<Longrightarrow> bson_nodes x < bson_nodes c"
  using bson_nodes_item by (auto dest!: as_array_InrD)

function
    eval_query :: "externs \<Rightarrow> doc \<Rightarrow> doc \<Rightarrow> bool qres"
and eval_or :: "externs \<Rightarrow> doc \<Rightarrow> bson \<Rightarrow> bool qres"
and eval_and :: "externs \<Rightarrow> doc \<Rightarrow> bson \<Rightarrow> bool qres"
and eval_nor :: "externs \<Rightarrow> doc \<Rightarrow> bson \<Rightarrow> bool qres"
and eval_field_condition :: "externs \<Rightarrow> doc \<Rightarrow> string \<Rightarrow> bson \<Rightarrow> bool qres"
and eval_operator :: "externs \<Rightarrow> doc \<Rightarrow> string \<Rightarrow> bson option \<Rightarrow> string \<Rightarrow> bson \<Rightarrow> bool qres"
and eval_not :: "externs \<Rightarrow> doc \<Rightarrow> string \<Rightarrow> bson option \<Rightarrow> bson \<Rightarrow> bool qres"
and eval_elem_match :: "externs \<Rightarrow> bson option \<Rightarrow> bson \<Rightarrow> bool qres"
where
  "eval_query X d query =
     all_res (\<lambda>(key, condition).
       if key = ''$or'' then eval_or X d condition
       else if key = ''$and'' then eval_and X d condition
       else if key = ''$nor'' then eval_nor X d condition
       else if key = ''$expr'' then eval_expr X d condition
       else if key = ''$text'' then eval_text X d condition
       else if key = ''$comment'' then Inr True
       else eval_field_condition X d key condition) query"
| "eval_or X d condition =
     res_bind (as_array condition) (\<lambda>queries.
       any_res (\<lambda>q. case q of Document sub_query \<Rightarrow> eval_query X d sub_query
                           | _ \<Rightarrow> Inl OrRequiresObjects) queries)"
| "eval_and X d condition =
     res_bind (as_array condition) (\<lambda>queries.
       all_res (\<lambda>q. case q of Document sub_query \<Rightarrow> eval_query X d sub_query
                           | _ \<Rightarrow> Inl AndRequiresObjects) queries)"
| "eval_nor X d condition =
     res_bind (as_array condition) (\<lambda>queries.
     res_bind (any_res (\<lambda>q. case q of Document sub_query \<Rightarrow> eval_query X d sub_query
                                   | _ \<Rightarrow> Inl NorRequiresObjects) queries)
       (\<lambda>b. Inr (\<not> b)))"
| "eval_field_condition X d key condition =
     (let value = get_value d key in
      case condition of
        Document cond_doc \<Rightarrow>
          if contains_key cond_doc ''$near'' \<or> contains_key cond_doc ''$nearSphere''
          then eval_near_family X value cond_doc
          else if contains_key cond_doc ''$geoWithin'' then eval_geo_within X value cond_doc
          else if contains_key cond_doc ''$geoIntersects'' then eval_geo_intersects X value cond_doc
          else all_res (\<lambda>(op, cond_val). eval_operator X d key value op cond_val) cond_doc
      | _ \<Rightarrow> Inr (bson_eq value (Some condition)))"
| "eval_operator X d key value op cond_val =
     (if op = ''$gt'' then Inr (bson_gt value cond_val)
      else if op = ''$gte'' then Inr (bson_gte value cond_val)
      else if op = ''$lt'' then Inr (bson_lt value cond_val)
      else if op = ''$lte'' then Inr (bson_lte value cond_val)
      else if op = ''$eq'' then Inr (bson_eq value (Some cond_val))
      else if op = ''$ne'' then Inr (\<not> bson_eq value (Some cond_val))
      else if op = ''$in'' then eval_in value cond_val
      else if op = ''$nin'' then eval_nin value cond_val
      else if op = ''$exists'' then eval_exists d key cond_val
      else if op = ''$type'' then eval_type value cond_val
      else if op = ''$regex'' then eval_regex X value cond_val
      else if op = ''$not'' then eval_not X d key value cond_val
      else if op = ''$all'' then eval_all X value cond_val
      else if op = ''$elemMatch'' then eval_elem_match X value cond_val
      else if op = ''$size'' then eval_size value cond_val
      else if op = ''$mod'' then eval_mod value cond_val
      else if op = ''$bitsAllSet'' then eval_bits value cond_val AllSet
      else if op = ''$bitsAnySet'' then eval_bits value cond_val AnySet
      else if op = ''$bitsAllClear'' then eval_bits value cond_val AllClear
      else if op = ''$bitsAnyClear'' then eval_bits value cond_val AnyClear
      else if op = ''$options'' then Inr True
      else if op \<in> {''$near'', ''$nearSphere'', ''$geoWithin'', ''$geoIntersects''} then Inr True
      else Inl (UnknownOperator op))"
| "eval_not X d key value cond_val = (case cond_val of
     Document cond_doc \<Rightarrow>
       res_bind (any_res (\<lambda>(op, op_val). eval_operator X d key value op op_val) cond_doc)
         (\<lambda>b. Inr (\<not> b))
   | _ \<Rightarrow> Inr False)"
| "eval_elem_match X value cond_val = (case Option.bind value as_array_opt of
     None \<Rightarrow> Inr False
   | Some val_arr \<Rightarrow> (case cond_val of
         Document query \<Rightarrow>
           any_res (\<lambda>item. case item of Document item_doc \<Rightarrow> eval_query X item_doc query
                                      | _ \<Rightarrow> Inr False) val_arr
       | _ \<Rightarrow> Inl ElemMatchRequiresObject))"
  by pat_completeness auto
termination
  by (relation "measure (case_sum
        (case_sum (case_sum (\<lambda>(X, d, q). 3 * bson_nodes (Document q)) (\<lambda>(X, d, c). 3 * bson_nodes c))
                  (case_sum (\<lambda>(X, d, c). 3 * bson_nodes c) (\<lambda>(X, d, c). 3 * bson_nodes c)))
        (case_sum (case_sum (\<lambda>(X, d, k, c). 3 * bson_nodes c) (\<lambda>(X, d, k, v, op, c). 3 * bson_nodes c + 2))
                  (case_sum (\<lambda>(X, d, k, v, c). 3 * bson_nodes c + 1) (\<lambda>(X, v, c). 3 * bson_nodes c + 1))))")
     (auto dest: bson_nodes_field as_array_nodes)

declare eval_query.simps [simp del] eval_or.simps [simp del] eval_and.simps [simp del]
  eval_nor.simps [simp del] eval_field_condition.simps [simp del] eval_operator.simps [simp del]
  eval_not.simps [simp del] eval_elem_match.simps [simp del]

end
