(* ===== verification/Query_Props.thy ===== *)
theory Query_Props
  imports Query
begin

text \<open>
  What the query evaluator computes: the boolean laws of the logical operators, membership
  by binary search, bit masks, remainders, and the agreement of the evaluator with a
  reference semantics of query predicates.
\<close>

section \<open>Shape of queries\<close>

abbreviation logical_key :: "string \<Rightarrow> bool" where
  "logical_key k \<equiv> k \<in> {''$or'', ''$and'', ''$nor'', ''$expr'', ''$text'', ''$comment''}"

lemma eval_query_Nil [simp]: "eval_query X d [] = Inr True"
  by (simp add: eval_query.simps)

lemma eval_query_append:
  "eval_query X d (p @ q) = res_bind (eval_query X d p) (\<lambda>b. if b then eval_query X d q else Inr False)"
  unfolding eval_query.simps [of X d] all_res_append ..

lemma eval_query_field: "\<not> logical_key k \<Longrightarrow> eval_query X d [(k, c)] = eval_field_condition X d k c"
  by (simp add: eval_query.simps all_res_single del: all_res.simps)

lemma eval_query_logical:
  "eval_query X d [(''$or'', c)] = eval_or X d c"
  "eval_query X d [(''$and'', c)] = eval_and X d c"
  "eval_query X d [(''$nor'', c)] = eval_nor X d c"
  by (simp_all add: eval_query.simps all_res_single del: all_res.simps)

lemma eval_or_docs:
  "eval_or X d (Array (map Document qs)) = any_res (eval_query X d) qs"
  by (simp add: eval_or.simps any_res_map)

lemma eval_and_docs:
  "eval_and X d (Array (map Document qs)) = all_res (eval_query X d) qs"
  by (simp add: eval_and.simps all_res_map)

lemma eval_nor_docs:
  "eval_nor X d (Array (map Document qs)) = res_bind (any_res (eval_query X d) qs) (\<lambda>b. Inr (\<not> b))"
  by (simp add: eval_nor.simps any_res_map)

lemma all_res_concat: "all_res (eval_query X d) qs = eval_query X d (concat qs)"
  by (induction qs) (auto simp: eval_query_append intro!: res_bind_cong)

section \<open>Reference semantics\<close>

text \<open>
  Predicates as an abstract syntax, the query document that writes one down, and the plain
  boolean meaning.
\<close>

datatype cmp_op = Gt | Gte | Lt | Lte | Eq | Ne

fun op_name :: "cmp_op \<Rightarrow> string" where
  "op_name Gt = ''$gt''"
| "op_name Gte = ''$gte''"
| "op_name Lt = ''$lt''"
| "op_name Lte = ''$lte''"
| "op_name Eq = ''$eq''"
| "op_name Ne = ''$ne''"

fun op_holds :: "cmp_op \<Rightarrow> bson option \<Rightarrow> bson \<Rightarrow> bool" where
  "op_holds Gt (Some a) b \<longleftrightarrow> bson_cmp a b = Greater"
| "op_holds Gte (Some a) b \<longleftrightarrow> bson_cmp a b \<noteq> Less"
| "op_holds Lt (Some a) b \<longleftrightarrow> bson_cmp a b = Less"
| "op_holds Lte (Some a) b \<longleftrightarrow> bson_cmp a b \<noteq> Greater"
| "op_holds Eq (Some a) b \<longleftrightarrow> bson_cmp a b = Equal"
| "op_holds Ne (Some a) b \<longleftrightarrow> bson_cmp a b \<noteq> Equal"
| "op_holds Ne None b \<longleftrightarrow> True"
| "op_holds _ None b \<longleftrightarrow> False"

datatype pred =
    PAnd "pred list"
  | POr "pred list"
  | PNor "pred list"
  | PCmp string cmp_op bson
  | PNot string cmp_op bson
  | PExists string bool
  | PElem string pred

fun query_of :: "pred \<Rightarrow> doc" where
  "query_of (PAnd ps) = [(''$and'', Array (map (\<lambda>p. Document (query_of p)) ps))]"
| "query_of (POr ps) = [(''$or'', Array (map (\<lambda>p. Document (query_of p)) ps))]"
| "query_of (PNor ps) = [(''$nor'', Array (map (\<lambda>p. Document (query_of p)) ps))]"
| "query_of (PCmp k op v) = [(k, Document [(op_name op, v)])]"
| "query_of (PNot k op v) = [(k, Document [(''$not'', Document [(op_name op, v)])])]"
| "query_of (PExists k b) = [(k, Document [(''$exists'', Boolean b)])]"
| "query_of (PElem k p) = [(k, Document [(''$elemMatch'', Document (query_of p))])]"

fun holds :: "doc \<Rightarrow> pred \<Rightarrow> bool" where
  "holds d (PAnd ps) \<longleftrightarrow> (\<forall>p \<in> set ps. holds d p)"
| "holds d (POr ps) \<longleftrightarrow> (\<exists>p \<in> set ps. holds d p)"
| "holds d (PNor ps) \<longleftrightarrow> (\<forall>p \<in> set ps. \<not> holds d p)"
| "holds d (PCmp k op v) \<longleftrightarrow> op_holds op (get_value d k) v"
| "holds d (PNot k op v) \<longleftrightarrow> \<not> op_holds op (get_value d k) v"
| "holds d (PExists k b) \<longleftrightarrow> (get_value d k \<noteq> None) = b"
| "holds d (PElem k p) \<longleftrightarrow>
     (case get_value d k of
        Some (Array xs) \<Rightarrow> (\<exists>x \<in> set xs. case x of Document e \<Rightarrow> holds e p | _ \<Rightarrow> False)
      | _ \<Rightarrow> False)"

text \<open>Field names that are not logical operators.\<close>

fun pred_ok :: "pred \<Rightarrow> bool" where
  "pred_ok (PAnd ps) \<longleftrightarrow> (\<forall>p \<in> set ps. pred_ok p)"
| "pred_ok (POr ps) \<longleftrightarrow> (\<forall>p \<in> set ps. pred_ok p)"
| "pred_ok (PNor ps) \<longleftrightarrow> (\<forall>p \<in> set ps. pred_ok p)"
| "pred_ok (PCmp k op v) \<longleftrightarrow> \<not> logical_key k"
| "pred_ok (PNot k op v) \<longleftrightarrow> \<not> logical_key k"
| "pred_ok (PExists k b) \<longleftrightarrow> \<not> logical_key k"
| "pred_ok (PElem k p) \<longleftrightarrow> \<not> logical_key k \<and> pred_ok p"

lemma all_res_holds:
  "(\<And>x. x \<in> set xs \<Longrightarrow> f x = Inr (p x)) \<Longrightarrow> all_res f xs = Inr (\<forall>x \<in> set xs. p x)"
  by (induction xs) auto

lemma any_res_holds:
  "(\<And>x. x \<in> set xs \<Longrightarrow> f x = Inr (p x)) \<Longrightarrow> any_res f xs = Inr (\<exists>x \<in> set xs. p x)"
  by (induction xs) auto

lemma op_names [simp]:
  "op_name op \<noteq> ''$near''" "op_name op \<noteq> ''$nearSphere''" "op_name op \<noteq> ''$geoWithin''"
  "op_name op \<noteq> ''$geoIntersects''"
  by (cases op; simp)+

lemma eval_operator_cmp: "eval_operator X d k v (op_name op) c = Inr (op_holds op v c)"
proof (cases v)
  case None
  then show ?thesis
    by (cases op) (simp_all add: eval_operator.simps bson_gt_def bson_gte_def bson_lt_def
        bson_lte_def bson_eq_def)
next
  case (Some a)
  then show ?thesis
    by (cases op; cases "bson_cmp a c") (simp_all add: eval_operator.simps bson_gt_def
        bson_gte_def bson_lt_def bson_lte_def bson_eq_def)
qed

lemma eval_field_operator:
  "op \<notin> {''$near'', ''$nearSphere'', ''$geoWithin'', ''$geoIntersects''} \<Longrightarrow>
     eval_field_condition X d k (Document [(op, v)]) = eval_operator X d k (get_value d k) op v"
  by (auto simp: eval_field_condition.simps contains_key_def all_res_single simp del: all_res.simps)

lemma eval_query_of: "pred_ok p \<Longrightarrow> eval_query X d (query_of p) = Inr (holds d p)"
proof (induction p arbitrary: d)
  case (PAnd ps)
  then have "all_res (eval_query X d) (map query_of ps) = Inr (\<forall>q \<in> set (map query_of ps). eval_query X d q = Inr True)"
    by (intro all_res_holds) auto
  with PAnd show ?case
    using eval_and_docs [of X d "map query_of ps"] by (simp add: eval_query_logical comp_def)
next
  case (POr ps)
  then have "any_res (eval_query X d) (map query_of ps) = Inr (\<exists>q \<in> set (map query_of ps). eval_query X d q = Inr True)"
    by (intro any_res_holds) auto
  with POr show ?case
    using eval_or_docs [of X d "map query_of ps"] by (simp add: eval_query_logical comp_def)
next
  case (PNor ps)
  then have "any_res (eval_query X d) (map query_of ps) = Inr (\<exists>q \<in> set (map query_of ps). eval_query X d q = Inr True)"
    by (intro any_res_holds) auto
  with PNor show ?case
    using eval_nor_docs [of X d "map query_of ps"] by (simp add: eval_query_logical comp_def)
next
  case (PCmp k op v)
  then show ?case by (simp add: eval_query_field eval_field_operator eval_operator_cmp)
next
  case (PNot k op v)
  have "eval_not X d k (get_value d k) (Document [(op_name op, v)]) = Inr (\<not> op_holds op (get_value d k) v)"
    by (simp add: eval_not.simps eval_operator_cmp)
  with PNot show ?case by (simp add: eval_query_field eval_field_operator eval_operator.simps)
next
  case (PExists k b)
  then show ?case
    by (simp add: eval_query_field eval_field_operator eval_operator.simps eval_exists_def
        field_exists_def exists_parts_iff get_value_parts Let_def)
next
  case (PElem k p)
  have "eval_elem_match X (get_value d k) (Document (query_of p)) = Inr (holds d (PElem k p))"
  proof (cases "Option.bind (get_value d k) as_array_opt")
    case None
    then have "\<not> holds d (PElem k p)"
      by (auto split: option.splits bson.splits)
    with None show ?thesis by (simp add: eval_elem_match.simps)
  next
    case (Some xs)
    then have "get_value d k = Some (Array xs)"
      by (cases "get_value d k") (auto elim: as_array_opt.elims)
    moreover have "any_res (\<lambda>item. case item of Document e \<Rightarrow> eval_query X e (query_of p) | _ \<Rightarrow> Inr False) xs
        = Inr (\<exists>x \<in> set xs. case x of Document e \<Rightarrow> holds e p | _ \<Rightarrow> False)"
      using PElem by (intro any_res_holds) (auto split: bson.splits)
    ultimately show ?thesis by (simp add: eval_elem_match.simps)
  qed
  with PElem.prems show ?case by (simp add: eval_query_field eval_field_operator eval_operator.simps)
qed

section \<open>Membership\<close>

lemma in_sorted_iff:
  assumes "exact_bson v" and "\<forall>x \<in> set arr. exact_bson x"
  shows "in_sorted (sort_by bson_cmp arr) v \<longleftrightarrow> (\<exists>x \<in> set arr. bson_cmp x v = Equal)"
proof -
  have "probe_sorted (\<lambda>p. bson_cmp p v) (sort_by bson_cmp arr)"
    using assms by (intro probe_sorted_sort_by [OF bson_cmp_preorder]) auto
  from binary_search_by_is_ok [OF this] show ?thesis by (simp add: in_sorted_def)
qed

section \<open>Bit masks\<close>

lemma bits_position_i32: "p \<le> 63 \<Longrightarrow> bits_position (i32 (int p)) = Inr p"
  by (simp add: bits_position_def i32_def sint_word_of_int32 del: of_int_of_nat_eq)

lemma bits_mask_fold:
  assumes "\<forall>p \<in> set ps. p \<le> 63"
  shows "\<exists>m'. fold_res (\<lambda>m pos. res_bind (bits_position pos) (\<lambda>p. Inr (m OR push_bit p 1))) m
       (map (\<lambda>p. i32 (int p)) ps) = Inr m' \<and>
     (\<forall>n. bit m' n \<longleftrightarrow> bit (m :: 64 word) n \<or> n \<in> set ps)"
  using assms
proof (induction ps arbitrary: m)
  case (Cons p ps)
  have "bit (push_bit p 1 :: 64 word) n \<longleftrightarrow> n = p" for n
    using Cons.prems by (auto simp: bit_exp_iff)
  moreover from Cons obtain m' where
    "fold_res (\<lambda>m pos. res_bind (bits_position pos) (\<lambda>p. Inr (m OR push_bit p 1))) (m OR push_bit p 1)
       (map (\<lambda>p. i32 (int p)) ps) = Inr m'"
    "\<forall>n. bit m' n \<longleftrightarrow> bit (m OR push_bit p 1) n \<or> n \<in> set ps" by force
  ultimately show ?case using Cons.prems by (auto simp: bits_position_i32 bit_or_iff)
qed simp

lemma bits_mask_positions:
  assumes "\<forall>p \<in> set ps. p \<le> 63"
  shows "\<exists>m. bits_mask (Array (map (\<lambda>p. i32 (int p)) ps)) = Inr m \<and> (\<forall>n. bit m n \<longleftrightarrow> n \<in> set ps)"
  using bits_mask_fold [OF assms, of 0] by (auto simp: bits_mask_def)

section \<open>Properties\<close>



text \<open>
  Top-level conditions are an implicit conjunction, evaluated left to right and stopping at
  the first that is false or fails; \<open>$and\<close> over query documents is the same as their
  concatenation, and \<open>$nor\<close> is the negation of \<open>$or\<close>.
\<close>

theorem eval_query_logical_laws:
  "eval_query X d (p @ q) = res_bind (eval_query X d p) (\<lambda>b. if b then eval_query X d q else Inr False) \<and>
   eval_query X d [(''$and'', Array (map Document qs))] = eval_query X d (concat qs) \<and>
   eval_query X d [(''$nor'', Array (map Document qs))] =
     res_bind (eval_query X d [(''$or'', Array (map Document qs))]) (\<lambda>b. Inr (\<not> b))"
  by (simp add: eval_query_append eval_query_logical eval_and_docs all_res_concat
      eval_nor_docs eval_or_docs)



text \<open>
  Bit tests with positions: \<open>$bitsAllSet\<close>, \<open>$bitsAnySet\<close>, \<open>$bitsAllClear\<close> and \<open>$bitsAnyClear\<close> on a
  64-bit field hold exactly when all, some, none, or not all of the listed bits are set.
\<close>

theorem eval_bits_positions:
  assumes "\<forall>p \<in> set ps. p \<le> 63"
  shows "eval_bits (Some (Int64 w)) (Array (map (\<lambda>p. i32 (int p)) ps)) mode =
    Inr (case mode of
           AllSet \<Rightarrow> (\<forall>p \<in> set ps. bit w p)
         | AnySet \<Rightarrow> (\<exists>p \<in> set ps. bit w p)
         | AllClear \<Rightarrow> (\<forall>p \<in> set ps. \<not> bit w p)
         | AnyClear \<Rightarrow> (\<exists>p \<in> set ps. \<not> bit w p))"
proof -
  obtain m where m: "bits_mask (Array (map (\<lambda>p. i32 (int p)) ps)) = Inr m"
    "\<And>n. bit m n \<longleftrightarrow> n \<in> set ps" using bits_mask_positions [OF assms] by blast
  have lt: "p < 64" if "p \<in> set ps" for p using assms that by fastforce
  have "w AND m = m \<longleftrightarrow> (\<forall>p \<in> set ps. bit w p)" "w AND m = 0 \<longleftrightarrow> (\<forall>p \<in> set ps. \<not> bit w p)"
    using m(2) lt by (auto simp: bit_eq_iff bit_and_iff)
  then show ?thesis by (cases mode) (simp_all add: eval_bits_def m(1) Let_def)
qed

theorem eval_bits_positions_witness:
  "eval_bits (Some (Int64 5)) (Array [i32 0, i32 2]) AllSet = Inr True"
  using eval_bits_positions [of "[0, 2]" 5 AllSet] by (simp add: bit_numeral_rec)

text \<open>
  \<open>$mod\<close> on integers: with a non-zero divisor the test is whether the remainder that takes the
  sign of the field equals the given one, except for \<^verbatim>\<open>i64::MIN\<close> with divisor \<open>-1\<close>, where
  the remainder operation overflows and panics.
\<close>

theorem eval_mod_integers:
  assumes "b \<noteq> 0"
  shows "eval_mod (Some (Int64 a)) (Array [Int64 b, Int64 r]) =
    (if sint a = i64_min \<and> sint b = -1 then Inl RemainderOverflowPanic
     else Inr (rem_trunc (sint a) (sint b) = sint r))"
  using assms by (simp add: eval_mod_def ok_or_def)

theorem eval_mod_integers_witness:
  "eval_mod (Some (Int64 (- 7))) (Array [Int64 3, Int64 (- 1)]) = Inr True"
  using eval_mod_integers [of 3 "- 7" "- 1"] by (simp add: rem_trunc_def i64_min_def)

text \<open>
  \<open>$all\<close> compares encoded bytes: when the encoding separates values, the condition holds exactly
  when every listed value is an element of the array field.
\<close>

theorem eval_all_subset:
  assumes "inj_on (x_canonical_key X) (set xs \<union> set cs)"
  shows "eval_all X (Some (Array xs)) (Array cs) = Inr (set cs \<subseteq> set xs)"
proof -
  have "x_canonical_key X c \<in> x_canonical_key X ` set xs \<longleftrightarrow> c \<in> set xs" if "c \<in> set cs" for c
    using inj_on_image_mem_iff [OF assms, of c "set xs"] that by simp
  then have "list_all (\<lambda>c. x_canonical_key X c \<in> x_canonical_key X ` set xs) cs \<longleftrightarrow> set cs \<subseteq> set xs"
    by (auto simp: list_all_iff)
  then show ?thesis by (simp add: eval_all_def Let_def)
qed

theorem eval_all_subset_witness:
  "eval_all sample_externs (Some (Array [Boolean True, Str ''a''])) (Array [Str ''a'']) = Inr True"
proof -
  have "inj_on (x_canonical_key sample_externs) (set [Boolean True, Str ''a''] \<union> set [Str ''a''])"
    by (auto simp: inj_on_def sample_externs_def)
  from eval_all_subset [OF this] show ?thesis by simp
qed

text \<open>
  Outside the exact range the comparison is not transitive, and \<open>$in\<close> can miss a value that is
  listed: \<open>2 ^ 53\<close> is not found among \<open>1, 2, 2 ^ 53 + 1\<close>, the double \<open>2 ^ 53\<close> and \<open>2 ^ 53\<close> itself.
\<close>

theorem eval_in_misses_listed_value:
  "eval_in (Some (i64 9007199254740992))
     (Array [i32 1, i32 2, i64 9007199254740993, Double (f64_of_int 9007199254740992),
             i64 9007199254740992]) = Inr False"
proof -
  let ?x = "f64_of_int 9007199254740992"
  have "cmp_f64 (f64_of_int i) ?x = cmp i 9007199254740992" if "exact_int i" for i
    using f64_cmp_of_int [OF that, of 9007199254740992] by (simp add: exact_int_def)
  then have c: "cmp_f64 (f64_of_int 1) ?x = Less" "cmp_f64 (f64_of_int 2) ?x = Less"
    "cmp_f64 ?x ?x = Equal" by (simp_all add: exact_int_def cmp_def)
  then show ?thesis
    by (simp add: eval_in_def Let_def i32_def i64_def in_sorted_def f64_of_int_inexact
        binary_search_by_def bsearch_between.simps cmp_def)
qed

text \<open>
  Two embedded documents always compare equal, so an equality condition with a document matches
  every field that holds a document, whatever it contains.
\<close>

theorem eq_matches_any_document:
  assumes "\<not> logical_key k" and "get_value d k = Some (Document e)"
  shows "eval_query X d [(k, Document [(''$eq'', Document c)])] = Inr True"
  using assms by (simp add: eval_query_field eval_field_operator eval_operator.simps bson_eq_def)

theorem eq_matches_any_document_witness:
  "eval_query sample_externs [(''a'', Document [(''x'', i32 1)])]
     [(''a'', Document [(''$eq'', Document [(''y'', Null)])])] = Inr True"
  using eq_matches_any_document [of "''a''" "[(''a'', Document [(''x'', i32 1)])]" "[(''x'', i32 1)]"
      sample_externs "[(''y'', Null)]"] by (simp add: get_value_def)

end
