(* ===== verification/Expr_Props.thy ===== *)
theory Expr_Props
  imports Expressions
begin

text \<open>
  Properties of the expression evaluator: which expressions cannot panic, what
  \<^verbatim>\<open>$filter\<close> and \<^verbatim>\<open>$map\<close> return, and the conversions that are inverse to each other.
\<close>

section \<open>Panics\<close>

definition calm :: "'a ares \<Rightarrow> bool" where
  "calm r \<longleftrightarrow> r \<noteq> Inl ExprPanic"

lemma calm_simps [simp]: "calm (Inr x)" "calm (Inl e) \<longleftrightarrow> e \<noteq> ExprPanic"
  by (simp_all add: calm_def)

named_theorems calm_intros

lemma calm_bind [calm_intros]: "calm r \<Longrightarrow> (\<And>x. r = Inr x \<Longrightarrow> calm (f x)) \<Longrightarrow> calm (res_bind r f)"
  by (cases r) auto

lemma calm_map_res [calm_intros]: "(\<And>x. x \<in> set xs \<Longrightarrow> calm (f x)) \<Longrightarrow> calm (map_res f xs)"
  by (induction xs) (auto intro!: calm_bind)

lemma calm_fold_res [calm_intros]: "(\<And>s x. x \<in> set xs \<Longrightarrow> calm (f s x)) \<Longrightarrow> calm (fold_res f s xs)"
  by (induction xs arbitrary: s) (auto intro!: calm_bind)

lemma calm_first_res [calm_intros]: "(\<And>x. x \<in> set xs \<Longrightarrow> calm (f x)) \<Longrightarrow> calm (first_res f xs)"
  by (induction xs) (auto intro!: calm_bind split: option.splits)

text \<open>No operator of the expression is one of the three whose code can panic.\<close>

definition panicking_ops :: "string set" where
  "panicking_ops = {''$mod'', ''$substr'', ''$substrBytes''}"

fun avoids_panics :: "bson \<Rightarrow> bool" where
  "avoids_panics (Document d) \<longleftrightarrow> (\<forall>(k, v) \<in> set d. k \<notin> panicking_ops \<and> avoids_panics v)"
| "avoids_panics (Array arr) \<longleftrightarrow> (\<forall>v \<in> set arr. avoids_panics v)"
| "avoids_panics _ \<longleftrightarrow> True"

lemma avoids_get: "avoids_panics (Document d) \<Longrightarrow> doc_get d k = Some v \<Longrightarrow> avoids_panics v"
  by (auto dest: map_of_SomeD)

lemma avoids_get_or_null: "avoids_panics (Document d) \<Longrightarrow> avoids_panics (get_or_null d k)"
  using avoids_get [of d k] by (cases "doc_get d k") (auto simp del: avoids_panics.simps, simp)

lemma avoids_insert:
  "avoids_panics (Document d) \<Longrightarrow> k \<notin> panicking_ops \<Longrightarrow> avoids_panics v \<Longrightarrow> avoids_panics (Document (doc_insert k v d))"
  by (induction k v d rule: al_insert.induct) auto

lemma avoids_extend:
  "avoids_panics (Document d) \<Longrightarrow> avoids_panics (Document e) \<Longrightarrow> avoids_panics (Document (doc_extend d e))"
  unfolding doc_extend_def
proof (induction e arbitrary: d)
  case (Cons kv e)
  obtain k v where kv: "kv = (k, v)" by (cases kv)
  have e: "k \<notin> panicking_ops" "avoids_panics v" "avoids_panics (Document e)"
    using Cons.prems(2) by (auto simp: kv)
  have "avoids_panics (Document (doc_insert k v d))" by (rule avoids_insert [OF Cons.prems(1) e(1,2)])
  from Cons.IH [OF this e(3)] show ?case by (simp add: kv)
qed simp

lemma avoids_replace: "avoids_panics e \<Longrightarrow> avoids_panics (replace_var_refs frm to e)"
proof (induction frm to e rule: replace_var_refs.induct)
  case (2 frm to d)
  then have "avoids_panics (Document (map (\<lambda>(k, v). (k, replace_var_refs frm to v)) d))" by fastforce
  from avoids_extend [OF _ this, of "[]"] show ?case by simp
qed auto

lemma avoids_replace_let: "avoids_panics e \<Longrightarrow> avoids_panics (replace_let_vars vars e)"
  unfolding replace_let_vars_def
  by (induction vars arbitrary: e) (auto intro!: avoids_replace split: prod.splits)

lemma avoids_branch:
  assumes "avoids_panics (Document sd)" "b \<in> set (switch_branches sd)"
  shows "avoids_panics (Document b)"
proof -
  from assms(2) obtain bs where "doc_get sd ''branches'' = Some (Array bs)" "Document b \<in> set bs"
    by (auto simp: switch_branches_def map_filter_def split: option.splits bson.splits dest: sym)
  then show ?thesis using avoids_get [OF assms(1)] by fastforce
qed

lemma avoids_vars:
  "avoids_panics (Document d) \<Longrightarrow> (n, v) \<in> set (opt_or [] (Option.bind (doc_get d k) as_document)) \<Longrightarrow> avoids_panics v"
proof (cases "Option.bind (doc_get d k) as_document")
  case (Some vars)
  assume "avoids_panics (Document d)" "(n, v) \<in> set (opt_or [] (Option.bind (doc_get d k) as_document))"
  then show ?thesis using Some avoids_get [of d k "Document vars"] by (auto simp: bind_eq_Some_conv)
qed simp

lemma strict_args_calm [simp]:
  "calm (expr_add vs)" "calm (expr_subtract vs)" "calm (expr_multiply vs)" "calm (expr_divide vs)"
  "calm (expr_concat vs)" "calm (expr_if_null vs)" "calm (expr_array_elem_at vs)" "calm (expr_not vs)"
  "calm (expr_and vs)" "calm (expr_or vs)" "calm (expr_cmp_op p vs)" "calm (expr_round X vs)"
  "calm (expr_in X vs)" "calm (expr_merge_objects vs)"
  by (simp_all add: expr_add_def expr_subtract_def expr_multiply_def
    expr_divide_def expr_concat_def expr_if_null_def expr_array_elem_at_def expr_not_def expr_and_def
    expr_or_def expr_cmp_op_def expr_round_def expr_in_def expr_merge_objects_def Let_def
    split: list.splits option.splits)

lemma strict_value_calm [simp]:
  "calm (expr_to_upper X v)" "calm (expr_to_lower X v)" "calm (expr_size v)" "calm (expr_abs v)"
  "calm (expr_unary_f64 g v)" "calm (expr_type v)" "calm (expr_to_string X v)" "calm (expr_to_int v)"
  "calm (expr_to_double v)" "calm (expr_to_bool v)" "calm (expr_date_part X part v)"
  "calm (expr_object_to_array v)" "calm (expr_array_to_object v)" "calm (expr_bson_size X v)"
  "calm (expr_reverse_array v)" "calm (expr_is_array v)"
  by (simp_all add: expr_to_upper_def expr_to_lower_def expr_size_def expr_abs_def
    expr_unary_f64_def expr_type_def expr_to_string_def expr_to_int_def expr_to_double_def expr_to_bool_def
    expr_date_part_def expr_object_to_array_def expr_array_to_object_def expr_bson_size_def
    expr_reverse_array_def expr_is_array_def)

definition calm_entry :: "string \<times> expr_op \<Rightarrow> bool" where
  "calm_entry e = (case snd e of
     OnArgs f \<Rightarrow> fst e \<in> panicking_ops \<or> (\<forall>vs. calm (f vs))
   | OnValue f \<Rightarrow> (\<forall>v. calm (f v))
   | _ \<Rightarrow> True)"

lemma operators_calm: "list_all calm_entry (expr_operators X)"
  by (simp add: expr_operators_def calm_entry_def panicking_ops_def)

lemma operator_calm: "expr_operator X op = Some f \<Longrightarrow> calm_entry (op, f)"
  using operators_calm [of X] by (auto simp: expr_operator_def list_all_iff dest!: map_of_SomeD)

lemmas avoids_intros = avoids_replace avoids_get_or_null avoids_replace_let

lemma expr_meta_calm [simp]: "calm (expr_meta d a)"
  by (simp add: expr_meta_def split: option.split)

text \<open>The helpers are calm when the evaluator is on every expression no larger than their argument.\<close>

definition calm_upto :: "externs \<Rightarrow> nat \<Rightarrow> bool" where
  "calm_upto X n \<longleftrightarrow> (\<forall>d e. bson_nodes e \<le> n \<longrightarrow> avoids_panics e \<longrightarrow> calm (evaluate_expression X d e))"

lemma calm_uptoD: "calm_upto X n \<Longrightarrow> bson_nodes e \<le> n \<Longrightarrow> avoids_panics e \<Longrightarrow> calm (evaluate_expression X d e)"
  by (simp add: calm_upto_def)

lemma calm_field: "calm_upto X (bson_nodes (Document q)) \<Longrightarrow> avoids_panics (Document q) \<Longrightarrow> calm (evaluate_expression X d (get_or_null q k))"
  by (erule calm_uptoD [OF _ get_or_null_nodes]) (rule avoids_get_or_null)

lemma calm_get: "calm_upto X (bson_nodes (Document q)) \<Longrightarrow> avoids_panics (Document q) \<Longrightarrow> doc_get q k = Some e \<Longrightarrow> calm (evaluate_expression X d e)"
  by (erule calm_uptoD [OF _ less_imp_le [OF doc_get_nodes]]) (auto intro: avoids_get simp del: avoids_panics.simps)

lemma calm_item: "calm_upto X (bson_nodes (Array arr)) \<Longrightarrow> avoids_panics (Array arr) \<Longrightarrow> e \<in> set arr \<Longrightarrow> calm (evaluate_expression X d e)"
  by (erule calm_uptoD [OF _ less_imp_le [OF bson_nodes_item]]) auto

lemma calm_replaced:
  "calm_upto X (bson_nodes (Document q)) \<Longrightarrow> avoids_panics (Document q) \<Longrightarrow> calm (evaluate_expression X d (replace_var_refs f t (get_or_null q k)))"
  by (erule calm_uptoD [OF _ nodes_replaced]) (intro avoids_replace avoids_get_or_null)

lemma calm_replaced2:
  "calm_upto X (bson_nodes (Document q)) \<Longrightarrow> avoids_panics (Document q) \<Longrightarrow> doc_get q k = Some e \<Longrightarrow>
    calm (evaluate_expression X d (replace_var_refs f t (replace_var_refs g u e)))"
  by (erule calm_uptoD [OF _ nodes_replaced2]) (auto intro!: avoids_replace intro: avoids_get simp del: avoids_panics.simps)

lemma calm_replaced_let:
  "calm_upto X (bson_nodes (Document q)) \<Longrightarrow> avoids_panics (Document q) \<Longrightarrow> calm (evaluate_expression X d (replace_let_vars vs (get_or_null q k)))"
  by (erule calm_uptoD [OF _ nodes_replaced_let]) (intro avoids_replace_let avoids_get_or_null)

lemma calm_branch:
  "calm_upto X (bson_nodes (Document q)) \<Longrightarrow> avoids_panics (Document q) \<Longrightarrow> b \<in> set (switch_branches q) \<Longrightarrow>
    calm (evaluate_expression X d (get_or_null b k))"
  by (erule calm_uptoD [OF _ nodes_branch]) (auto intro: avoids_get_or_null avoids_branch simp del: avoids_panics.simps)

lemma calm_var:
  "calm_upto X (bson_nodes (Document q)) \<Longrightarrow> avoids_panics (Document q) \<Longrightarrow>
    (k, e) \<in> set (opt_or [] (Option.bind (doc_get q j) as_document)) \<Longrightarrow> calm (evaluate_expression X d e)"
  by (erule calm_uptoD [OF _ nodes_var]) (auto intro: avoids_vars simp del: avoids_panics.simps)

lemmas calm_sub = calm_field calm_get calm_item calm_replaced calm_replaced2 calm_replaced_let calm_branch calm_var

lemma helpers_calm:
  assumes "calm_upto X (bson_nodes a)" "avoids_panics a"
  shows "calm (get_array_args X d a)" "calm (expr_cond X d a)" "calm (expr_switch X d a)" "calm (expr_map X d a)" "calm (expr_filter X d a)" "calm (expr_let X d a)" "calm (expr_concat_arrays X d a)" "calm (expr_reduce X d a)" "calm (expr_slice X d a)" "calm (expr_sum_expr X d a)"
  using assms
  by (auto simp: get_array_args.simps expr_cond.simps expr_switch.simps expr_map.simps expr_filter.simps
    expr_let.simps expr_concat_arrays.simps expr_reduce.simps expr_slice.simps expr_sum_expr.simps Let_def
    simp del: avoids_panics.simps bson_nodes.simps split: option.splits intro!: calm_intros calm_item [OF _ _ nth_mem] intro: calm_sub calm_uptoD)

lemma operator_expression_calm:
  assumes ev: "\<And>d e. bson_nodes e < bson_nodes (Document q) \<Longrightarrow> avoids_panics e \<Longrightarrow> calm (evaluate_expression X d e)"
    and q: "avoids_panics (Document q)"
  shows "calm (evaluate_operator_expression X d q)"
proof (cases q)
  case (Cons kv r)
  obtain op args where kv: "kv = (op, args)" by (cases kv)
  have op: "op \<notin> panicking_ops" and args: "avoids_panics args"
    using q by (auto simp: Cons kv)
  have upto: "calm_upto X (bson_nodes args)"
    using ev nodes_arg(2) [of args op r] by (auto simp: calm_upto_def Cons kv simp del: bson_nodes.simps)
  have fields: "calm (evaluate_expression X d v)" if "(k, v) \<in> set q" for k v
    using that q by (intro ev bson_nodes_field) auto
  show ?thesis
  proof (cases "expr_operator X op")
    case (Some f)
    show ?thesis using operator_calm [OF Some] op fields helpers_calm [OF upto args, of d] calm_uptoD [OF upto order_refl args, of d]
      by (auto simp: evaluate_operator_expression.simps Cons kv Some calm_entry_def simp del: map_res.simps
          intro!: calm_intros split: expr_op.splits)
  qed (use fields in \<open>auto simp: evaluate_operator_expression.simps Cons kv simp del: map_res.simps intro!: calm_intros\<close>)
qed (simp add: evaluate_operator_expression.simps)

lemma evaluate_calm: "avoids_panics e \<Longrightarrow> calm (evaluate_expression X d e)"
proof (induction e arbitrary: d rule: measure_induct_rule [of bson_nodes])
  case (less e)
  show ?case using less.prems operator_expression_calm less.IH
    by (auto simp: evaluate_expression.simps simp del: avoids_panics.simps bson_nodes.simps split: option.splits)
qed

text \<open>
  C13. Evaluating an expression that contains none of \<^verbatim>\<open>$mod\<close>, \<^verbatim>\<open>$substr\<close> and
  \<^verbatim>\<open>$substrBytes\<close> never panics, whatever the document: every failure is an error value.
\<close>

theorem evaluate_no_panic:
  assumes "avoids_panics e"
  shows "evaluate_expression X d e \<noteq> Inl ExprPanic"
  using evaluate_calm [OF assms] by (simp add: calm_def)

theorem evaluate_no_panic_witness:
  "avoids_panics (Document [(''$switch'', Document [(''branches'', Array [Str ''x'']), (''default'', Str ''$a'')])]) \<and>
   evaluate_expression sample_externs [(''a'', Null)]
     (Document [(''$switch'', Document [(''branches'', Array [Str ''x'']), (''default'', Str ''$a'')])]) \<noteq> Inl ExprPanic"
proof -
  have "avoids_panics (Document [(''$switch'', Document [(''branches'', Array [Str ''x'']), (''default'', Str ''$a'')])])"
    by (simp add: panicking_ops_def)
  from evaluate_no_panic [OF this] this show ?thesis by blast
qed

section \<open>Results of the operators\<close>

lemma evaluate_value_op:
  "expr_operator X (CHR ''$'' # op) = Some (OnValue f) \<Longrightarrow>
    evaluate_expression X d (Document [(CHR ''$'' # op, a)]) = res_bind (evaluate_expression X d a) f"
  by (simp add: evaluate_expression.simps evaluate_operator_expression.simps starts_with_def)

lemma evaluate_filter_op:
  "evaluate_expression X d (Document [(''$filter'', a)]) = expr_filter X d a"
  by (simp add: evaluate_expression.simps evaluate_operator_expression.simps starts_with_def
    expr_operator_def expr_operators_def)

lemma map_res_kept:
  assumes "map_res (\<lambda>x. res_bind (f x) (\<lambda>c. Inr (if P c then [x] else []))) xs = Inr kept"
  shows "concat kept = filter (\<lambda>x. \<exists>c. f x = Inr c \<and> P c) xs"
  using assms by (induction xs arbitrary: kept) auto

text \<open>
  \<^verbatim>\<open>$filter\<close> returns the elements of its input, in order, for which the condition
  evaluates to a true value in the document extended by the variable.
\<close>

theorem filter_keeps_matching:
  assumes "evaluate_expression X d (Document [(''$filter'', Document spec)]) = Inr (Array ys)"
    and "doc_get spec ''as'' = Some (Str v)"
  shows "\<exists>xs. evaluate_expression X d (get_or_null spec ''input'') = Inr (Array xs) \<and>
    ys = filter (\<lambda>item. \<exists>c. evaluate_expression X (doc_insert (''__'' @ v) item d)
           (replace_var_refs (''$$'' @ v) (''$__'' @ v) (get_or_null spec ''cond'')) = Inr c \<and> is_truthy c) xs"
  using assms by (auto simp: evaluate_filter_op expr_filter.simps Let_def split: option.splits dest!: map_res_kept)

theorem filter_keeps_matching_witness:
  "\<exists>xs. evaluate_expression sample_externs [(''a'', Array [Int32 1, Null])] (Str ''$a'') = Inr (Array xs) \<and>
     [Int32 1] = filter (\<lambda>item. \<exists>c. evaluate_expression sample_externs
         (doc_insert (''__'' @ ''x'') item [(''a'', Array [Int32 1, Null])]) (Str ''$__x'') = Inr c \<and> is_truthy c) xs"
proof -
  let ?spec = "[(''input'', Str ''$a''), (''as'', Str ''x''), (''cond'', Str ''$$x'')]"
  have "evaluate_leaf [(''a'', Array [Int32 1, Null])] (Str ''$a'') = Array [Int32 1, Null]"
    "evaluate_leaf [(''a'', Array [Int32 1, Null]), (''__x'', Int32 1)] (Str ''$__x'') = Int32 1"
    "evaluate_leaf [(''a'', Array [Int32 1, Null]), (''__x'', Null)] (Str ''$__x'') = Null"
    by code_simp+
  then have "evaluate_expression sample_externs [(''a'', Array [Int32 1, Null])] (Document [(''$filter'', Document ?spec)])
      = Inr (Array [Int32 1])"
    unfolding evaluate_filter_op by (simp add: expr_filter.simps evaluate_expression.simps)
  from filter_keeps_matching [OF this, of "''x''"] show ?thesis by simp
qed

lemma foldl_add_pair:
  "distinct (map fst (acc @ d)) \<Longrightarrow>
    foldl add_pair acc (map (\<lambda>(k, v). Document [(''k'', Str k), (''v'', v)]) d) = acc @ d"
  by (induction d arbitrary: acc) (auto simp: add_pair_def al_insert_fresh)

text \<open>
  \<^verbatim>\<open>$arrayToObject\<close> undoes \<^verbatim>\<open>$objectToArray\<close>: on a document with distinct keys the
  composition is the identity, keys in their order.
\<close>

theorem object_array_roundtrip:
  assumes "evaluate_expression X d e = Inr (Document obj)" and "distinct (map fst obj)"
  shows "evaluate_expression X d (Document [(''$arrayToObject'', Document [(''$objectToArray'', e)])]) = Inr (Document obj)"
proof -
  have "evaluate_expression X d (Document [(''$objectToArray'', e)]) = expr_object_to_array (Document obj)"
    by (subst evaluate_value_op [where f = expr_object_to_array]) (simp_all add: expr_operator_def expr_operators_def assms)
  then show ?thesis using foldl_add_pair [of "[]" obj] assms(2)
    by (subst evaluate_value_op [where f = expr_array_to_object])
      (simp_all add: expr_operator_def expr_operators_def expr_object_to_array_def expr_array_to_object_def)
qed

theorem object_array_roundtrip_witness:
  "evaluate_expression sample_externs [(''a'', Document [(''x'', Null), (''k'', Str ''v'')])]
     (Document [(''$arrayToObject'', Document [(''$objectToArray'', Str ''$a'')])])
   = Inr (Document [(''x'', Null), (''k'', Str ''v'')])"
proof -
  have "evaluate_expression sample_externs [(''a'', Document [(''x'', Null), (''k'', Str ''v'')])] (Str ''$a'')
      = Inr (Document [(''x'', Null), (''k'', Str ''v'')])"
    by (simp add: evaluate_expression.simps) code_simp
  from object_array_roundtrip [OF this] show ?thesis by simp
qed

text \<open>
  \<^verbatim>\<open>$toInt\<close> reads back what \<^verbatim>\<open>$toString\<close> prints for every 32-bit integer.
\<close>

theorem to_string_to_int:
  assumes "evaluate_expression X d e = Inr (Int32 n)"
  shows "evaluate_expression X d (Document [(''$toInt'', Document [(''$toString'', e)])]) = Inr (Int32 n)"
proof -
  have "evaluate_expression X d (Document [(''$toString'', e)]) = Inr (Str (show_int (sint n)))"
    by (subst evaluate_value_op [where f = "expr_to_string X"])
      (simp_all add: expr_operator_def expr_operators_def assms expr_to_string_def)
  then show ?thesis using sint_range_size [of n]
    by (subst evaluate_value_op [where f = expr_to_int])
      (simp_all add: expr_operator_def expr_operators_def expr_to_int_def parse_i32_show_int i32_def word_size)
qed

theorem to_string_to_int_witness:
  "evaluate_expression sample_externs [] (Document [(''$toInt'', Document [(''$toString'', Int32 (- 7))])]) = Inr (Int32 (- 7))"
proof -
  have "evaluate_expression sample_externs [] (Int32 (- 7)) = Inr (Int32 (- 7))"
    by (simp add: evaluate_expression.simps evaluate_leaf_def)
  from to_string_to_int [OF this] show ?thesis .
qed

end
