(* ===== verification/Update.thy ===== *)
theory Update
  imports Query
begin

text \<open>
  The update engine (\<^verbatim>\<open>update/mod.rs\<close>).  Every operator is the loop over its specification
  document; the body of the loop for one field is a definition of its own (\<open>..._step\<close>).  An
  update that fails returns the reason, and its callers drop the half-updated document.
\<close>

datatype update_error =
    NotAnOperator string
  | OperatorNotDocument string
  | NoPositional string
  | SliceBoundaryPanic
  | PathErr path_error
  | IncNotNumeric bson | FieldNotNumeric bson | MulNotNumeric bson | MulFieldNotNumeric bson
  | PushNotArray bson | PushSortSpec | PushSliceSpec
  | PopDirection bson | PopDirectionValue int
  | AddToSetNotArray bson
  | RenameTarget bson

type_synonym 'a ures = "update_error + 'a"

abbreviation set_v :: "doc \<Rightarrow> string \<Rightarrow> bson \<Rightarrow> doc ures" where
  "set_v d k v \<equiv> map_err PathErr (set_value d k v)"

abbreviation unset_v :: "doc \<Rightarrow> string \<Rightarrow> doc ures" where
  "unset_v d k \<equiv> map_err PathErr (unset_value d k)"

abbreviation for_fields :: "(doc \<Rightarrow> string \<Rightarrow> bson \<Rightarrow> doc ures) \<Rightarrow> doc \<Rightarrow> doc \<Rightarrow> doc ures" where
  "for_fields step d spec \<equiv> fold_res (\<lambda>d (k, v). step d k v) d spec"

section \<open>Field operators\<close>

definition set_step :: "doc \<Rightarrow> string \<Rightarrow> bson \<Rightarrow> doc ures" where
  "set_step d key value = set_v d key value"

definition apply_set :: "doc \<Rightarrow> doc \<Rightarrow> doc ures" where
  "apply_set d spec = for_fields set_step d spec"

definition unset_step :: "doc \<Rightarrow> string \<Rightarrow> bson \<Rightarrow> doc ures" where
  "unset_step d key _ = unset_v d key"

definition apply_unset :: "doc \<Rightarrow> doc \<Rightarrow> doc ures" where
  "apply_unset d spec = for_fields unset_step d spec"

section \<open>Numeric operators\<close>

abbreviation bson_to_number :: "bson \<Rightarrow> f64 option" where
  "bson_to_number \<equiv> as_f64"

definition keep_i32 :: "f64 \<Rightarrow> bson" where
  "keep_i32 result =
     (if f64_le (f64_of_int (- (2 ^ 31))) result \<and> f64_le result (f64_of_int (2 ^ 31 - 1)) \<and>
         f64_is_whole result
      then i32 (f64_to_i32 result) else Double result)"

definition keep_i64 :: "f64 \<Rightarrow> bson" where
  "keep_i64 result =
     (if f64_le (f64_of_int (- (2 ^ 63))) result \<and> f64_le result (f64_of_int (2 ^ 63 - 1)) \<and>
         f64_is_whole result
      then i64 (f64_to_i64 result) else Double result)"

definition add_numbers :: "bson option \<Rightarrow> bson \<Rightarrow> bson ures" where
  "add_numbers current increment =
     res_bind (ok_or (IncNotNumeric increment) (bson_to_number increment)) (\<lambda>inc_val.
     case current of
       None \<Rightarrow> Inr increment
     | Some cur \<Rightarrow> (case cur of
         Int32 n \<Rightarrow> Inr (keep_i32 (f64_add (f64_of_int (sint n)) inc_val))
       | Int64 n \<Rightarrow> Inr (keep_i64 (f64_add (f64_of_int (sint n)) inc_val))
       | Double n \<Rightarrow> Inr (Double (f64_add n inc_val))
       | other \<Rightarrow> Inl (FieldNotNumeric other)))"

definition multiply_numbers :: "bson option \<Rightarrow> bson \<Rightarrow> bson ures" where
  "multiply_numbers current multiplier =
     res_bind (ok_or (MulNotNumeric multiplier) (bson_to_number multiplier)) (\<lambda>mul_val.
     case current of
       None \<Rightarrow> Inr (Int32 0)
     | Some cur \<Rightarrow> (case cur of
         Int32 n \<Rightarrow> Inr (keep_i32 (f64_mul (f64_of_int (sint n)) mul_val))
       | Int64 n \<Rightarrow> Inr (keep_i64 (f64_mul (f64_of_int (sint n)) mul_val))
       | Double n \<Rightarrow> Inr (Double (f64_mul n mul_val))
       | other \<Rightarrow> Inl (MulFieldNotNumeric other)))"

definition compare_numbers :: "bson \<Rightarrow> bson \<Rightarrow> ordering option" where
  "compare_numbers a b =
     Option.bind (bson_to_number a) (\<lambda>a_num.
     Option.bind (bson_to_number b) (\<lambda>b_num. f64_partial_cmp a_num b_num))"

definition inc_step :: "doc \<Rightarrow> string \<Rightarrow> bson \<Rightarrow> doc ures" where
  "inc_step d key increment =
     res_bind (add_numbers (get_value d key) increment) (\<lambda>new_value. set_v d key new_value)"

definition apply_inc :: "doc \<Rightarrow> doc \<Rightarrow> doc ures" where
  "apply_inc d spec = for_fields inc_step d spec"

definition mul_step :: "doc \<Rightarrow> string \<Rightarrow> bson \<Rightarrow> doc ures" where
  "mul_step d key multiplier =
     res_bind (multiply_numbers (get_value d key) multiplier) (\<lambda>new_value. set_v d key new_value)"

definition apply_mul :: "doc \<Rightarrow> doc \<Rightarrow> doc ures" where
  "apply_mul d spec = for_fields mul_step d spec"

definition bound_step :: "ordering \<Rightarrow> doc \<Rightarrow> string \<Rightarrow> bson \<Rightarrow> doc ures" where
  "bound_step wanted d key val = (case get_value d key of
     Some current \<Rightarrow>
       if compare_numbers val current = Some wanted then set_v d key val else Inr d
   | None \<Rightarrow> set_v d key val)"

definition apply_min :: "doc \<Rightarrow> doc \<Rightarrow> doc ures" where
  "apply_min d spec = for_fields (bound_step Less) d spec"

definition apply_max :: "doc \<Rightarrow> doc \<Rightarrow> doc ures" where
  "apply_max d spec = for_fields (bound_step Greater) d spec"

section \<open>Array operators\<close>

fun int_value :: "bson \<Rightarrow> int option" where
  "int_value (Int32 n) = Some (sint n)"
| "int_value (Int64 n) = Some (sint n)"
| "int_value _ = None"

definition list_insert :: "nat \<Rightarrow> 'a \<Rightarrow> 'a list \<Rightarrow> 'a list" where
  "list_insert i x xs = take i xs @ x # drop i xs"

definition push_each :: "doc \<Rightarrow> bson list \<Rightarrow> bson list \<Rightarrow> bson list" where
  "push_each modifiers elements arr =
     (case Option.bind (doc_get modifiers ''$position'') int_value of
        Some pos \<Rightarrow>
          (let idx = (if pos < 0 then length arr - nat (- pos) else min (nat pos) (length arr)) in
           foldl (\<lambda>a (i, e). list_insert (idx + i) e a) arr (enumerate 0 elements))
      | None \<Rightarrow> foldl (\<lambda>a e. a @ [e]) arr elements)"

definition directed :: "int \<Rightarrow> ordering \<Rightarrow> ordering" where
  "directed dir c = (if dir < 0 then ord_reverse c else c)"

definition sort_field_of :: "bson \<Rightarrow> string \<Rightarrow> bson option" where
  "sort_field_of v field = (case v of Document d \<Rightarrow> get_value d field | _ \<Rightarrow> None)"

fun sort_doc_cmp :: "doc \<Rightarrow> bson \<Rightarrow> bson \<Rightarrow> ordering" where
  "sort_doc_cmp [] a b = Equal"
| "sort_doc_cmp ((field, direction) # rest) a b =
     (let dir = opt_or 1 (int_value direction);
          result = directed dir (compare_bson (sort_field_of a field) (sort_field_of b field))
      in if result \<noteq> Equal then result else sort_doc_cmp rest a b)"

definition push_sort :: "doc \<Rightarrow> bson list \<Rightarrow> bson list ures" where
  "push_sort modifiers arr = (case doc_get modifiers ''$sort'' of
     None \<Rightarrow> Inr arr
   | Some sort_spec \<Rightarrow> (case int_value sort_spec of
       Some d \<Rightarrow> Inr (sort_by (\<lambda>a b. directed d (compare_bson (Some a) (Some b))) arr)
     | None \<Rightarrow> (case sort_spec of
         Document sort_doc \<Rightarrow> Inr (sort_by (sort_doc_cmp sort_doc) arr)
       | _ \<Rightarrow> Inl PushSortSpec)))"

definition push_slice :: "doc \<Rightarrow> bson list \<Rightarrow> bson list ures" where
  "push_slice modifiers arr = (case doc_get modifiers ''$slice'' of
     None \<Rightarrow> Inr arr
   | Some slice_val \<Rightarrow> (case int_value slice_val of
       None \<Rightarrow> Inl PushSliceSpec
     | Some n \<Rightarrow>
         if n = 0 then Inr []
         else if n > 0 then Inr (take (nat n) arr)
         else let keep = nat (- n) in
           if keep < length arr then Inr (drop (length arr - keep) arr) else Inr arr))"

fun each_elements :: "bson \<Rightarrow> (doc \<times> bson list) option" where
  "each_elements (Document modifiers) = (case doc_get modifiers ''$each'' of
     Some (Array elements) \<Rightarrow> Some (modifiers, elements)
   | _ \<Rightarrow> None)"
| "each_elements _ = None"

definition array_or_new :: "(bson \<Rightarrow> update_error) \<Rightarrow> bson option \<Rightarrow> bson list ures" where
  "array_or_new err value = (case value of
     None \<Rightarrow> Inr []
   | Some v \<Rightarrow> (case v of Array a \<Rightarrow> Inr a | other \<Rightarrow> Inl (err other)))"

definition push_step :: "doc \<Rightarrow> string \<Rightarrow> bson \<Rightarrow> doc ures" where
  "push_step d key value_spec =
     res_bind (array_or_new PushNotArray (get_value d key)) (\<lambda>arr.
     res_bind (case each_elements value_spec of
         Some (modifiers, elements) \<Rightarrow>
           res_bind (push_sort modifiers (push_each modifiers elements arr)) (\<lambda>arr.
           push_slice modifiers arr)
       | None \<Rightarrow> Inr (arr @ [value_spec])) (\<lambda>arr.
     set_v d key (Array arr)))"

definition apply_push :: "doc \<Rightarrow> doc \<Rightarrow> doc ures" where
  "apply_push d spec = for_fields push_step d spec"

definition pull_keeps :: "externs \<Rightarrow> bson \<Rightarrow> bson \<Rightarrow> bool" where
  "pull_keeps X condition elem = (case condition of
     Document query_doc \<Rightarrow> (case elem of
         Document elem_doc \<Rightarrow> \<not> unwrap_or False (eval_query X elem_doc query_doc)
       | _ \<Rightarrow> True)
   | _ \<Rightarrow> \<not> x_bson_eq X elem condition)"

definition pull_step :: "externs \<Rightarrow> doc \<Rightarrow> string \<Rightarrow> bson \<Rightarrow> doc ures" where
  "pull_step X d key condition = (case Option.bind (get_value d key) as_array_opt of
     None \<Rightarrow> Inr d
   | Some arr \<Rightarrow> set_v d key (Array (filter (pull_keeps X condition) arr)))"

definition apply_pull :: "externs \<Rightarrow> doc \<Rightarrow> doc \<Rightarrow> doc ures" where
  "apply_pull X d spec = for_fields (pull_step X) d spec"

definition pop_step :: "doc \<Rightarrow> string \<Rightarrow> bson \<Rightarrow> doc ures" where
  "pop_step d key direction = (case Option.bind (get_value d key) as_array_opt of
     None \<Rightarrow> Inr d
   | Some arr \<Rightarrow>
       if arr = [] then Inr d else
       res_bind (case direction of
           Int32 n \<Rightarrow> Inr (sint n)
         | Int64 n \<Rightarrow> Inr (sint (ucast n :: 32 word))
         | _ \<Rightarrow> Inl (PopDirection direction)) (\<lambda>dir.
       res_bind (if dir = -1 then Inr (tl arr)
                 else if dir = 1 then Inr (butlast arr)
                 else Inl (PopDirectionValue dir)) (\<lambda>arr.
       set_v d key (Array arr))))"

definition apply_pop :: "doc \<Rightarrow> doc \<Rightarrow> doc ures" where
  "apply_pop d spec = for_fields pop_step d spec"

definition add_absent :: "externs \<Rightarrow> bson list \<Rightarrow> bson \<Rightarrow> bson list" where
  "add_absent X arr e = (if list_ex (\<lambda>x. x_bson_eq X x e) arr then arr else arr @ [e])"

definition add_to_set_step :: "externs \<Rightarrow> doc \<Rightarrow> string \<Rightarrow> bson \<Rightarrow> doc ures" where
  "add_to_set_step X d key value_spec =
     res_bind (array_or_new AddToSetNotArray (get_value d key)) (\<lambda>arr.
     let arr' = (case each_elements value_spec of
         Some (_, elements) \<Rightarrow> foldl (add_absent X) arr elements
       | None \<Rightarrow> add_absent X arr value_spec) in
     set_v d key (Array arr'))"

definition apply_add_to_set :: "externs \<Rightarrow> doc \<Rightarrow> doc \<Rightarrow> doc ures" where
  "apply_add_to_set X d spec = for_fields (add_to_set_step X) d spec"

section \<open>Other operators\<close>

definition rename_step :: "doc \<Rightarrow> string \<Rightarrow> bson \<Rightarrow> doc ures" where
  "rename_step d old_name new_name_bson =
     res_bind (ok_or (RenameTarget new_name_bson) (as_str new_name_bson)) (\<lambda>new_name.
     case get_value d old_name of
       Some v \<Rightarrow> res_bind (unset_v d old_name) (\<lambda>d. set_v d new_name v)
     | None \<Rightarrow> Inr d)"

definition apply_rename :: "doc \<Rightarrow> doc \<Rightarrow> doc ures" where
  "apply_rename d spec = for_fields rename_step d spec"

text \<open>Every branch on the type specification writes the same date.\<close>

definition current_date_step :: "externs \<Rightarrow> doc \<Rightarrow> string \<Rightarrow> bson \<Rightarrow> doc ures" where
  "current_date_step X d key type_spec = set_v d key (DateTime (x_now X key))"

definition apply_current_date :: "externs \<Rightarrow> doc \<Rightarrow> doc \<Rightarrow> doc ures" where
  "apply_current_date X d spec = for_fields (current_date_step X) d spec"

definition apply_operator :: "externs \<Rightarrow> doc \<Rightarrow> string \<Rightarrow> doc \<Rightarrow> bool \<Rightarrow> doc ures" where
  "apply_operator X d operator spec_doc is_upsert_insert =
     (if operator = ''$set'' then apply_set d spec_doc
      else if operator = ''$setOnInsert'' then
        (if is_upsert_insert then apply_set d spec_doc else Inr d)
      else if operator = ''$unset'' then apply_unset d spec_doc
      else if operator = ''$inc'' then apply_inc d spec_doc
      else if operator = ''$mul'' then apply_mul d spec_doc
      else if operator = ''$min'' then apply_min d spec_doc
      else if operator = ''$max'' then apply_max d spec_doc
      else if operator = ''$currentDate'' then apply_current_date X d spec_doc
      else if operator = ''$rename'' then apply_rename d spec_doc
      else if operator = ''$addToSet'' then apply_add_to_set X d spec_doc
      else if operator = ''$push'' then apply_push d spec_doc
      else if operator = ''$pull'' then apply_pull X d spec_doc
      else if operator = ''$pop'' then apply_pop d spec_doc
      else Inr d)"

section \<open>Array filters and positional paths\<close>

type_synonym filter_map = "(string \<times> doc) list"

definition parse_array_filters :: "doc list \<Rightarrow> filter_map" where
  "parse_array_filters filters =
     foldl (\<lambda>m f. case f of
         [] \<Rightarrow> m
       | (first_key, _) # _ \<Rightarrow> al_insert (hd (split_on CHR ''.'' first_key)) f m) [] filters"

definition is_positional :: "string \<Rightarrow> bool" where
  "is_positional k \<longleftrightarrow> contains_sub k ''$[''"

definition has_positional_paths :: "doc \<Rightarrow> bool" where
  "has_positional_paths spec = list_ex (\<lambda>(k, _). is_positional k) spec"

definition split_positional_paths :: "doc \<Rightarrow> (string \<times> bson) list \<times> doc" where
  "split_positional_paths spec =
     (filter (\<lambda>(k, _). is_positional k) spec,
      foldl (\<lambda>d (k, v). doc_insert k v d) [] (filter (\<lambda>(k, _). \<not> is_positional k) spec))"

definition rewrite_filter_for_element :: "doc \<Rightarrow> string \<Rightarrow> doc" where
  "rewrite_filter_for_element flt identifier =
     (let prefix = identifier @ ''.'' in
      foldl (\<lambda>rewritten (key, v).
        if key = identifier then doc_insert key v rewritten
        else case strip_prefix prefix key of
          Some rest \<Rightarrow> doc_insert rest v rewritten
        | None \<Rightarrow> doc_insert key v rewritten) [] flt)"

fun position :: "('a \<Rightarrow> bool) \<Rightarrow> 'a list \<Rightarrow> nat option" where
  "position p [] = None"
| "position p (x # xs) = (if p x then Some 0 else map_option Suc (position p xs))"

definition elem_matches :: "externs \<Rightarrow> bool \<Rightarrow> string option \<Rightarrow> doc option \<Rightarrow> bson \<Rightarrow> bool" where
  "elem_matches X is_all identifier flt elem =
     (if is_all then True
      else case flt of
        Some f \<Rightarrow> (case elem of
            Document elem_doc \<Rightarrow>
              unwrap_or False (eval_query X elem_doc (rewrite_filter_for_element f (opt_or [] identifier)))
          | _ \<Rightarrow> False)
      | None \<Rightarrow> False)"

text \<open>\<^verbatim>\<open>if let Bson::Document(ref mut d) = elem\<close>: the element's document is updated in place.\<close>

definition in_doc :: "(doc \<Rightarrow> doc ures) \<Rightarrow> bson \<Rightarrow> bson ures" where
  "in_doc f elem = (case elem of
     Document d \<Rightarrow> res_bind (f d) (\<lambda>d'. Inr (Document d'))
   | _ \<Rightarrow> Inr elem)"

definition positional_elem :: "string \<Rightarrow> string option \<Rightarrow> bson \<Rightarrow> bson \<Rightarrow> bson ures" where
  "positional_elem operator suffix value elem =
     (if operator = ''$set'' \<or> operator = ''$setOnInsert'' then
        (case suffix of
           Some sfx \<Rightarrow> in_doc (\<lambda>d. set_v d sfx value) elem
         | None \<Rightarrow> Inr value)
      else if operator = ''$unset'' then
        (case suffix of
           Some sfx \<Rightarrow> in_doc (\<lambda>d. unset_v d sfx) elem
         | None \<Rightarrow> Inr elem)
      else if operator = ''$inc'' then
        (case suffix of
           Some sfx \<Rightarrow> in_doc (\<lambda>d. inc_step d sfx value) elem
         | None \<Rightarrow> add_numbers (Some elem) value)
      else if operator = ''$mul'' then
        (case suffix of
           Some sfx \<Rightarrow> in_doc (\<lambda>d. mul_step d sfx value) elem
         | None \<Rightarrow> multiply_numbers (Some elem) value)
      else if operator = ''$min'' then
        (case suffix of
           Some sfx \<Rightarrow> in_doc (\<lambda>d. bound_step Less d sfx value) elem
         | None \<Rightarrow> Inr elem)
      else if operator = ''$max'' then
        (case suffix of
           Some sfx \<Rightarrow> in_doc (\<lambda>d. bound_step Greater d sfx value) elem
         | None \<Rightarrow> Inr elem)
      else Inr elem)"

text \<open>
  The identifier between \<^verbatim>\<open>$[\<close> and the last byte; slicing inside a multi-byte character
  panics.
\<close>

definition positional_identifier :: "string \<Rightarrow> string option ures" where
  "positional_identifier positional =
     (if positional \<noteq> ''$[]'' \<and> length positional > 3 then
        (if utf8_cont (last (as_bytes positional)) then Inl SliceBoundaryPanic
         else Inr (Some (take (length positional - 3) (drop 2 positional))))
      else Inr None)"

definition apply_positional_operator ::
    "externs \<Rightarrow> doc \<Rightarrow> string \<Rightarrow> bson \<Rightarrow> string \<Rightarrow> filter_map \<Rightarrow> doc ures" where
  "apply_positional_operator X d path value operator fm =
     (let parts = split_on CHR ''.'' path in
      case position (\<lambda>p. starts_with p ''$['') parts of
        None \<Rightarrow> Inl (NoPositional path)
      | Some pos_idx \<Rightarrow>
          (let positional = parts ! pos_idx;
               prefix = join_with ''.'' (take pos_idx parts);
               suffix = (if pos_idx + 1 < length parts
                         then Some (join_with ''.'' (drop (pos_idx + 1) parts)) else None) in
           case Option.bind (get_value d prefix) as_array_opt of
             None \<Rightarrow> Inr d
           | Some arr \<Rightarrow>
               (let is_all = (positional = ''$[]'') in
                res_bind (positional_identifier positional) (\<lambda>identifier.
                let flt = Option.bind identifier (map_of fm) in
                res_bind (map_res (\<lambda>elem.
                    if \<not> elem_matches X is_all identifier flt elem then Inr elem
                    else positional_elem operator suffix value elem) arr) (\<lambda>arr'.
                set_v d prefix (Array arr'))))))"

section \<open>The update\<close>

definition operator_order :: "string list" where
  "operator_order = [''$set'', ''$setOnInsert'', ''$unset'', ''$inc'', ''$mul'', ''$min'', ''$max'',
     ''$currentDate'', ''$rename'', ''$addToSet'', ''$push'', ''$pull'', ''$pop'']"

definition update_with ::
    "externs \<Rightarrow> doc \<Rightarrow> bool \<Rightarrow> filter_map \<Rightarrow> doc \<Rightarrow> string \<Rightarrow> doc ures" where
  "update_with X update is_upsert_insert fm d operator =
     (case doc_get update operator of
        None \<Rightarrow> Inr d
      | Some spec \<Rightarrow> (case spec of
          Document spec_doc \<Rightarrow>
            if fm \<noteq> [] \<and> has_positional_paths spec_doc then
              (let (positional, normal) = split_positional_paths spec_doc in
               res_bind (if normal \<noteq> [] then apply_operator X d operator normal is_upsert_insert
                         else Inr d) (\<lambda>d.
               fold_res (\<lambda>d (path, v). apply_positional_operator X d path v operator fm) d positional))
            else apply_operator X d operator spec_doc is_upsert_insert
        | _ \<Rightarrow> Inl (OperatorNotDocument operator)))"

definition apply_update_impl :: "externs \<Rightarrow> doc \<Rightarrow> doc \<Rightarrow> bool \<Rightarrow> doc list \<Rightarrow> doc ures" where
  "apply_update_impl X d update is_upsert_insert array_filters =
     (case find (\<lambda>k. \<not> starts_with k ''$'') (map fst update) of
        Some key \<Rightarrow> Inl (NotAnOperator key)
      | None \<Rightarrow>
          (let fm = parse_array_filters array_filters in
           fold_res (update_with X update is_upsert_insert fm) d operator_order))"

definition apply_update :: "externs \<Rightarrow> doc \<Rightarrow> doc \<Rightarrow> doc ures" where
  "apply_update X d update = apply_update_impl X d update False []"

definition apply_update_for_upsert :: "externs \<Rightarrow> doc \<Rightarrow> doc \<Rightarrow> doc ures" where
  "apply_update_for_upsert X d update = apply_update_impl X d update True []"

definition apply_update_with_array_filters :: "externs \<Rightarrow> doc \<Rightarrow> doc \<Rightarrow> doc list \<Rightarrow> doc ures" where
  "apply_update_with_array_filters X d update array_filters =
     apply_update_impl X d update False array_filters"

end
