(* ===== verification/Update_Props.thy ===== *)
theory Update_Props
  imports Update
begin

text \<open>
  Laws of the update operators.  The contract shared by all of them, that a step keeps
  documents well-formed and touches only its own target fields, is the locale
  \<open>field_operator\<close>; its lemmas on whole specifications are used through the interpretations
  on the twelve operators.
\<close>

section \<open>The contract of an operator\<close>

definition top :: "string \<Rightarrow> string" where
  "top key = hd (split_on CHR ''.'' key)"

locale field_operator =
  fixes step :: "doc \<Rightarrow> string \<Rightarrow> bson \<Rightarrow> doc ures"
    and targets :: "string \<Rightarrow> bson \<Rightarrow> string set"
  assumes step_ok: "step d k v = Inr d' \<Longrightarrow> doc_ok d \<Longrightarrow> bson_ok v \<Longrightarrow> doc_ok d'"
    and step_frame: "step d k v = Inr d' \<Longrightarrow> f \<notin> targets k v \<Longrightarrow> doc_get d' f = doc_get d f"
begin

lemma apply_ok:
  assumes "for_fields step d spec = Inr d'" and "doc_ok d" and "doc_ok spec"
  shows "doc_ok d'"
  using assms(1,2)
proof (rule fold_res_invariant)
  fix s x s' assume x: "x \<in> set spec" and s: "doc_ok s" "(case x of (k, v) \<Rightarrow> step s k v) = Inr s'"
  obtain k v where [simp]: "x = (k, v)" by (cases x)
  have "bson_ok v" using x assms(3) by (auto simp: doc_ok_def)
  with s step_ok show "doc_ok s'" by simp
qed

lemma apply_frame:
  assumes "for_fields step d spec = Inr d'" and "\<forall>(k, v) \<in> set spec. f \<notin> targets k v"
  shows "doc_get d' f = doc_get d f"
  using assms(1)
proof (rule fold_res_invariant)
  fix s x s' assume x: "x \<in> set spec" and s: "doc_get s f = doc_get d f" "(case x of (k, v) \<Rightarrow> step s k v) = Inr s'"
  obtain k v where [simp]: "x = (k, v)" by (cases x)
  show "doc_get s' f = doc_get d f" using s step_frame [of s k v s' f] x assms(2) by auto
qed simp

end

section \<open>Reading and writing single fields\<close>

lemma get_parts_ok: "bson_ok v \<Longrightarrow> get_parts v ps = Some w \<Longrightarrow> bson_ok w"
proof (induction v ps rule: get_parts.induct)
  case (2 cur part ps)
  from "2.prems" show ?case
    by (auto split: bson.splits option.splits if_splits dest!: map_of_SomeD intro: "2.IH")
qed simp

lemma get_value_ok: "doc_ok d \<Longrightarrow> get_value d k = Some v \<Longrightarrow> bson_ok v"
  unfolding get_value_parts doc_ok_def by (rule get_parts_ok)

lemma set_value_top_frame:
  assumes "set_value d k v = Inr d'" and "f \<noteq> top k"
  shows "doc_get d' f = doc_get d f"
proof -
  obtain p ps where ps: "split_on CHR ''.'' k = p # ps" by (cases "split_on CHR ''.'' k") auto
  show ?thesis
    using assms by (cases ps) (auto simp: set_value_def ps top_def set_parts_step simp del: set_parts.simps(3))
qed

lemma unset_value_top_frame:
  assumes "unset_value d k = Inr d'" and "f \<noteq> top k"
  shows "doc_get d' f = doc_get d f"
proof -
  obtain p ps where ps: "split_on CHR ''.'' k = p # ps" by (cases "split_on CHR ''.'' k") auto
  show ?thesis
    using assms by (cases ps)
      (auto simp: unset_value_def ps top_def unset_parts_step simp del: unset_parts.simps(3)
        split: option.splits bson.splits)
qed

text \<open>A step that writes at most one value at its key satisfies the contract.\<close>

lemma field_operatorI:
  assumes "\<And>d k v d'. step d k v = Inr d' \<Longrightarrow>
    d' = d \<or> (\<exists>w. set_value d k w = Inr d' \<and> (doc_ok d \<longrightarrow> bson_ok v \<longrightarrow> bson_ok w))"
  shows "field_operator step (\<lambda>k v. {top k})"
proof
  fix d k v d' assume s: "step d k v = Inr d'" and ok: "doc_ok d" "bson_ok v"
  from assms [OF s] ok show "doc_ok d'" by (auto intro: set_value_ok)
next
  fix d k v d' f assume s: "step d k v = Inr d'" and f: "f \<notin> {top k}"
  from assms [OF s] f show "doc_get d' f = doc_get d f" by (auto dest: set_value_top_frame)
qed

lemma field_writeI:
  "set_value d k w = Inr d' \<Longrightarrow> (doc_ok d \<Longrightarrow> bson_ok v \<Longrightarrow> bson_ok w) \<Longrightarrow>
     d' = d \<or> (\<exists>w. set_value d k w = Inr d' \<and> (doc_ok d \<longrightarrow> bson_ok v \<longrightarrow> bson_ok w))"
  by blast

section \<open>The operators satisfy the contract\<close>

lemma number_ok: "as_f64 v = Some x \<Longrightarrow> bson_ok v"
  by (cases v) auto

lemma keep_ok [simp]: "bson_ok (keep_i32 x)" "bson_ok (keep_i64 x)"
  by (simp_all add: keep_i32_def keep_i64_def i32_def i64_def)

lemma add_numbers_ok: "add_numbers c v = Inr w \<Longrightarrow> bson_ok w"
  by (auto simp: add_numbers_def ok_or_def number_ok split: option.splits bson.splits)

lemma multiply_numbers_ok: "multiply_numbers c v = Inr w \<Longrightarrow> bson_ok w"
  by (auto simp: multiply_numbers_def ok_or_def split: option.splits bson.splits)

lemma foldl_snoc: "foldl (\<lambda>a e. a @ [e]) arr es = arr @ es"
  by (induction es arbitrary: arr) simp_all

lemma foldl_insert_run:
  "idx + m \<le> length arr \<Longrightarrow>
   foldl (\<lambda>a (i, e). list_insert (idx + i) e a) arr (enumerate m es) =
     take (idx + m) arr @ es @ drop (idx + m) arr"
proof (induction es arbitrary: m arr)
  case (Cons e es)
  have "idx + Suc m \<le> length (list_insert (idx + m) e arr)"
    using Cons.prems by (simp add: list_insert_def)
  from Cons.IH [OF this] Cons.prems show ?case by (simp add: list_insert_def)
qed simp

lemma push_each_eq:
  "push_each modifiers es arr = (case Option.bind (doc_get modifiers ''$position'') int_value of
     None \<Rightarrow> arr @ es
   | Some pos \<Rightarrow> (let idx = (if pos < 0 then length arr - nat (- pos) else min (nat pos) (length arr))
                   in take idx arr @ es @ drop idx arr))"
  using foldl_insert_run [of _ 0 arr es]
  by (auto simp: push_each_def foldl_snoc Let_def split: option.splits)

lemma set_push_each: "set (push_each modifiers es arr) = set arr \<union> set es"
proof -
  have "set (take i arr @ es @ drop i arr) = set arr \<union> set es" for i
    by (metis Un_commute Un_left_commute append_take_drop_id set_append)
  then show ?thesis by (auto simp: push_each_eq Let_def split: option.splits)
qed

lemma set_push_sort: "push_sort modifiers arr = Inr arr' \<Longrightarrow> set arr' = set arr"
  by (auto simp: push_sort_def split: option.splits bson.splits)

lemma set_push_slice: "push_slice modifiers arr = Inr arr' \<Longrightarrow> set arr' \<subseteq> set arr"
  by (auto simp: push_slice_def Let_def split: option.splits if_splits dest: in_set_takeD in_set_dropD)

lemma each_elements_ok:
  "each_elements v = Some (modifiers, es) \<Longrightarrow> bson_ok v \<Longrightarrow> bson_ok (Array es)"
  by (cases v) (auto split: option.splits bson.splits dest!: map_of_SomeD)

lemma array_or_new_ok:
  "array_or_new err (get_value d k) = Inr arr \<Longrightarrow> doc_ok d \<Longrightarrow> bson_ok (Array arr)"
  by (auto simp: array_or_new_def split: option.splits bson.splits dest: get_value_ok)

lemma array_get_ok:
  "Option.bind (get_value d k) as_array_opt = Some arr \<Longrightarrow> doc_ok d \<Longrightarrow> bson_ok (Array arr)"
  using get_value_ok [of d k "Array arr"] by (auto simp: bind_eq_Some_conv)

lemma foldl_add_absent: "set (foldl (add_absent X) arr es) \<subseteq> set arr \<union> set es"
proof (induction es arbitrary: arr)
  case (Cons e es)
  have "set (add_absent X arr e) \<subseteq> insert e (set arr)" by (auto simp: add_absent_def)
  with Cons.IH [of "add_absent X arr e"] show ?case by auto
qed simp

interpretation set_op: field_operator set_step "\<lambda>k v. {top k}"
  by (rule field_operatorI) (auto simp: set_step_def)

interpretation inc_op: field_operator inc_step "\<lambda>k v. {top k}"
  by (rule field_operatorI) (auto simp: inc_step_def dest: add_numbers_ok)

interpretation mul_op: field_operator mul_step "\<lambda>k v. {top k}"
  by (rule field_operatorI) (auto simp: mul_step_def dest: multiply_numbers_ok)

interpretation bound_op: field_operator "bound_step c" "\<lambda>k v. {top k}" for c
  by (rule field_operatorI) (auto simp: bound_step_def split: option.splits if_splits)

interpretation date_op: field_operator "current_date_step X" "\<lambda>k v. {top k}" for X
  by (rule field_operatorI) (auto simp: current_date_step_def)

interpretation pull_op: field_operator "pull_step X" "\<lambda>k v. {top k}" for X
proof (rule field_operatorI)
  fix d k v d' assume "pull_step X d k v = Inr d'"
  then show "d' = d \<or> (\<exists>w. set_value d k w = Inr d' \<and> (doc_ok d \<longrightarrow> bson_ok v \<longrightarrow> bson_ok w))"
    by (auto simp: pull_step_def split: option.splits dest!: array_get_ok)
qed

lemma pop_step_cases:
  assumes "pop_step d k v = Inr d'"
  obtains "d' = d"
  | arr arr' where "Option.bind (get_value d k) as_array_opt = Some arr" "set arr' \<subseteq> set arr"
      "set_value d k (Array arr') = Inr d'"
proof (cases "Option.bind (get_value d k) as_array_opt")
  case None
  with assms that(1) show ?thesis by (simp add: pop_step_def)
next
  case (Some arr)
  show ?thesis
  proof (cases "arr = []")
    case True
    with Some assms that(1) show ?thesis by (simp add: pop_step_def)
  next
    case False
    with Some assms obtain arr' where "arr' = tl arr \<or> arr' = butlast arr" "set_value d k (Array arr') = Inr d'"
      by (auto simp: pop_step_def split: if_splits)
    with that(2) [OF Some] show ?thesis
      by (metis in_set_butlastD list.set_sel(2) list.sel(2) subsetI)
  qed
qed

interpretation pop_op: field_operator pop_step "\<lambda>k v. {top k}"
proof (rule field_operatorI)
  fix d k v d' assume "pop_step d k v = Inr d'"
  then show "d' = d \<or> (\<exists>w. set_value d k w = Inr d' \<and> (doc_ok d \<longrightarrow> bson_ok v \<longrightarrow> bson_ok w))"
  proof (cases rule: pop_step_cases)
    case (2 arr arr')
    show ?thesis by (rule field_writeI [OF 2(3)]) (use array_get_ok [OF 2(1)] 2(2) in auto)
  qed simp
qed

interpretation push_op: field_operator push_step "\<lambda>k v. {top k}"
proof (rule field_operatorI)
  fix d k v d' assume s: "push_step d k v = Inr d'"
  then obtain arr where arr: "array_or_new PushNotArray (get_value d k) = Inr arr"
    by (auto simp: push_step_def)
  show "d' = d \<or> (\<exists>w. set_value d k w = Inr d' \<and> (doc_ok d \<longrightarrow> bson_ok v \<longrightarrow> bson_ok w))"
  proof (cases "each_elements v")
    case None
    with s arr have "set_value d k (Array (arr @ [v])) = Inr d'" by (auto simp: push_step_def)
    then show ?thesis by (rule field_writeI) (use array_or_new_ok [OF arr] in auto)
  next
    case (Some me)
    then obtain modifiers es where me: "each_elements v = Some (modifiers, es)" by (cases me) auto
    with s arr obtain a1 a2 where a: "push_sort modifiers (push_each modifiers es arr) = Inr a1"
      "push_slice modifiers a1 = Inr a2" "set_value d k (Array a2) = Inr d'"
      by (auto simp: push_step_def)
    have "set a2 \<subseteq> set arr \<union> set es"
      using set_push_slice [OF a(2)] set_push_sort [OF a(1)] set_push_each by blast
    then show ?thesis
      by (intro field_writeI [OF a(3)]) (use array_or_new_ok [OF arr] each_elements_ok [OF me] in auto)
  qed
qed

interpretation add_to_set_op: field_operator "add_to_set_step X" "\<lambda>k v. {top k}" for X
proof (rule field_operatorI)
  fix d k v d' assume s: "add_to_set_step X d k v = Inr d'"
  then obtain arr where arr: "array_or_new AddToSetNotArray (get_value d k) = Inr arr"
    by (auto simp: add_to_set_step_def)
  let ?arr' = "case each_elements v of Some (_, es) \<Rightarrow> foldl (add_absent X) arr es | None \<Rightarrow> add_absent X arr v"
  have "set_value d k (Array ?arr') = Inr d'" using s arr by (simp add: add_to_set_step_def Let_def)
  moreover have "bson_ok (Array ?arr')" if ok: "doc_ok d" "bson_ok v"
  proof (cases "each_elements v")
    case None
    then show ?thesis using array_or_new_ok [OF arr ok(1)] ok(2) by (auto simp: add_absent_def)
  next
    case (Some me)
    then obtain modifiers es where me: "each_elements v = Some (modifiers, es)" by (cases me) auto
    show ?thesis
      using foldl_add_absent [of X arr es] array_or_new_ok [OF arr ok(1)] each_elements_ok [OF me ok(2)]
      by (auto simp: me)
  qed
  ultimately show "d' = d \<or> (\<exists>w. set_value d k w = Inr d' \<and> (doc_ok d \<longrightarrow> bson_ok v \<longrightarrow> bson_ok w))"
    by blast
qed

interpretation unset_op: field_operator unset_step "\<lambda>k v. {top k}"
  by unfold_locales (auto simp: unset_step_def dest: unset_value_ok unset_value_top_frame)

definition rename_targets :: "string \<Rightarrow> bson \<Rightarrow> string set" where
  "rename_targets k v = insert (top k) (case v of Str n \<Rightarrow> {top n} | _ \<Rightarrow> {})"

interpretation rename_op: field_operator rename_step rename_targets
proof
  fix d k v d' assume "rename_step d k v = Inr d'" "doc_ok d" "bson_ok v"
  then show "doc_ok d'"
    by (auto simp: rename_step_def ok_or_def split: option.splits
        dest: unset_value_ok set_value_ok get_value_ok)
next
  fix d k v d' f assume "rename_step d k v = Inr d'" "f \<notin> rename_targets k v"
  then show "doc_get d' f = doc_get d f"
    by (cases v) (auto simp: rename_step_def rename_targets_def ok_or_def split: option.splits
        dest!: unset_value_top_frame set_value_top_frame)
qed

section \<open>Whole updates\<close>

definition operator_targets :: "string \<Rightarrow> string \<Rightarrow> bson \<Rightarrow> string set" where
  "operator_targets operator k v = (if operator = ''$rename'' then rename_targets k v else {top k})"

lemmas apply_defs = apply_set_def apply_unset_def apply_inc_def apply_mul_def apply_min_def
  apply_max_def apply_current_date_def apply_rename_def apply_add_to_set_def apply_push_def
  apply_pull_def apply_pop_def

lemmas apply_oks = set_op.apply_ok unset_op.apply_ok inc_op.apply_ok mul_op.apply_ok
  bound_op.apply_ok date_op.apply_ok rename_op.apply_ok add_to_set_op.apply_ok push_op.apply_ok
  pull_op.apply_ok pop_op.apply_ok

lemmas apply_frames = set_op.apply_frame unset_op.apply_frame inc_op.apply_frame
  mul_op.apply_frame bound_op.apply_frame date_op.apply_frame rename_op.apply_frame
  add_to_set_op.apply_frame push_op.apply_frame pull_op.apply_frame pop_op.apply_frame

lemma if_eqE: "(if b then x else y) = r \<Longrightarrow> (b \<Longrightarrow> x = r \<Longrightarrow> P) \<Longrightarrow> (\<not> b \<Longrightarrow> y = r \<Longrightarrow> P) \<Longrightarrow> P"
  by (cases b) simp_all

lemma apply_operator_ok:
  assumes "apply_operator X d operator spec u = Inr d'" and "doc_ok d" and "doc_ok spec"
  shows "doc_ok d'"
  using assms(1) unfolding apply_operator_def apply_defs
  by (elim if_eqE) ((erule apply_oks, rule assms(2), rule assms(3)) | (use assms(2) in simp))+

lemma apply_operator_frame:
  assumes "apply_operator X d operator spec u = Inr d'"
    and "\<forall>(k, v) \<in> set spec. f \<notin> operator_targets operator k v"
  shows "doc_get d' f = doc_get d f"
  using assms(1) unfolding apply_operator_def apply_defs
  by (elim if_eqE)
     ((erule apply_frames, use assms(2) in \<open>simp add: operator_targets_def\<close>) | simp)+

lemma in_doc_ok:
  assumes "in_doc f e = Inr e'" and "bson_ok e" and "\<And>d d'. f d = Inr d' \<Longrightarrow> doc_ok d \<Longrightarrow> doc_ok d'"
  shows "bson_ok e'"
  using assms(1,2) assms(3) unfolding in_doc_def
  by (cases e) (auto simp: doc_ok_def)

lemma set_v_ok: "set_v d k v = Inr d' \<Longrightarrow> doc_ok d \<Longrightarrow> bson_ok v \<Longrightarrow> doc_ok d'"
  by (auto intro: set_value_ok)

lemma unset_v_ok: "unset_v d k = Inr d' \<Longrightarrow> doc_ok d \<Longrightarrow> bson_ok v \<Longrightarrow> doc_ok d'"
  by (auto intro: unset_value_ok)

lemmas element_step_oks = set_v_ok unset_v_ok inc_op.step_ok mul_op.step_ok bound_op.step_ok

lemma positional_elem_ok:
  assumes "positional_elem operator suffix value e = Inr e'" and "bson_ok e" and "bson_ok value"
  shows "bson_ok e'"
proof (cases suffix)
  case None
  from assms(1) show ?thesis unfolding None positional_elem_def option.case
    by (elim if_eqE) ((erule add_numbers_ok multiply_numbers_ok) | (use assms(2,3) in simp))+
next
  case (Some sfx)
  from assms(1) show ?thesis unfolding Some positional_elem_def option.case
    by (elim if_eqE)
       ((erule in_doc_ok, rule assms(2), erule element_step_oks, assumption, rule assms(3)) |
        (use assms(2,3) in simp))+
qed

lemma map_res_all:
  assumes "map_res f xs = Inr ys" and "\<forall>x \<in> set xs. P x" and "\<And>x y. P x \<Longrightarrow> f x = Inr y \<Longrightarrow> Q y"
  shows "\<forall>y \<in> set ys. Q y"
  using assms(1,2)
proof (induction xs arbitrary: ys)
  case (Cons x xs)
  then obtain y ys' where "f x = Inr y" "map_res f xs = Inr ys'" "ys = y # ys'" by auto
  with Cons assms(3) show ?case by auto
qed simp

lemma apply_positional_operator_ok:
  assumes "apply_positional_operator X d path value operator fm = Inr d'" and "doc_ok d" and "bson_ok value"
  shows "doc_ok d'"
proof -
  obtain idx where idx: "position (\<lambda>p. starts_with p ''$['') (split_on CHR ''.'' path) = Some idx"
    using assms(1) by (auto simp: apply_positional_operator_def Let_def split: option.splits)
  define prefix where "prefix = join_with ''.'' (take idx (split_on CHR ''.'' path))"
  show ?thesis
  proof (cases "Option.bind (get_value d prefix) as_array_opt")
    case None
    with assms idx show ?thesis by (simp add: apply_positional_operator_def Let_def prefix_def)
  next
    case (Some arr)
    with assms(1) idx obtain arr' m suffix where arr':
      "map_res (\<lambda>e. if \<not> m e then Inr e else positional_elem operator suffix value e) arr = Inr arr'"
      "set_value d prefix (Array arr') = Inr d'"
      by (auto simp: apply_positional_operator_def Let_def prefix_def [symmetric])
    have "\<forall>e \<in> set arr'. bson_ok e"
      by (rule map_res_all [OF arr'(1), where P = bson_ok])
         (use array_get_ok [OF Some assms(2)] assms(3) positional_elem_ok in \<open>auto split: if_splits\<close>)
    then show ?thesis using set_value_ok [OF assms(2) _ arr'(2)] by simp
  qed
qed

lemma split_positional_ok:
  assumes "split_positional_paths spec = (positional, normal)" and "doc_ok spec"
  shows "doc_ok normal" "\<forall>(k, v) \<in> set positional. bson_ok v"
proof -
  have ok: "\<forall>(k, v) \<in> set spec. bson_ok v" using assms(2) by (auto simp: doc_ok_def)
  then show "\<forall>(k, v) \<in> set positional. bson_ok v"
    using assms(1) by (auto simp: split_positional_paths_def)
  have "doc_ok (foldl (\<lambda>d (k, v). doc_insert k v d) acc kvs)"
    if "doc_ok acc" "\<forall>(k, v) \<in> set kvs. bson_ok v" for acc kvs
    using that by (induction kvs arbitrary: acc) (auto simp: doc_ok_insert)
  with ok show "doc_ok normal"
    using assms(1) by (auto simp: split_positional_paths_def)
qed

lemma update_with_ok:
  assumes "update_with X update u fm d operator = Inr d'" and "doc_ok d" and "doc_ok update"
  shows "doc_ok d'"
proof (cases "doc_get update operator")
  case None
  with assms show ?thesis by (simp add: update_with_def)
next
  case (Some spec)
  with assms(1) obtain sd where sd: "spec = Document sd" by (cases spec) (auto simp: update_with_def)
  have ok: "doc_ok sd" using doc_ok_get_doc [OF assms(3)] Some sd by simp
  show ?thesis
  proof (cases "fm \<noteq> [] \<and> has_positional_paths sd")
    case False
    with assms Some sd ok show ?thesis by (auto simp: update_with_def intro: apply_operator_ok)
  next
    case True
    obtain pos normal where sp: "split_positional_paths sd = (pos, normal)" by fastforce
    note oks = split_positional_ok [OF sp ok]
    from True assms(1) Some sd sp obtain d1 where
      d1: "(if normal \<noteq> [] then apply_operator X d operator normal u else Inr d) = Inr d1"
      "fold_res (\<lambda>d (path, v). apply_positional_operator X d path v operator fm) d1 pos = Inr d'"
      by (auto simp: update_with_def)
    have "doc_ok d1" using d1(1) assms(2) oks(1) by (auto split: if_splits intro: apply_operator_ok)
    with d1(2) show ?thesis
      by (rule fold_res_invariant) (use oks(2) in \<open>auto intro: apply_positional_operator_ok\<close>)
  qed
qed

lemma apply_update_impl_fold:
  "\<forall>k \<in> set (map fst update). starts_with k ''$'' \<Longrightarrow>
   apply_update_impl X d update u filters =
     fold_res (update_with X update u (parse_array_filters filters)) d operator_order"
proof -
  assume "\<forall>k \<in> set (map fst update). starts_with k ''$''"
  then have "find (\<lambda>k. \<not> starts_with k ''$'') (map fst update) = None"
    unfolding find_None_iff by blast
  then show ?thesis unfolding apply_update_impl_def by simp
qed

lemma apply_update_impl_keys:
  "apply_update_impl X d update u filters = Inr d' \<Longrightarrow> \<forall>k \<in> set (map fst update). starts_with k ''$''"
  unfolding apply_update_impl_def by (auto simp: find_None_iff split: option.splits)

section \<open>Arithmetic\<close>

lemma f64_le_of_int:
  assumes "exact_int i" and "exact_int j"
  shows "f64_le (f64_of_int i) (f64_of_int j) \<longleftrightarrow> i \<le> j"
  unfolding f64_le_def f64_lt_def f64_eq_def f64_cmp_of_int [OF assms] by (auto simp: cmp_def)

lemma keep_i32_of_int:
  assumes "exact_int s"
  shows "keep_i32 (f64_of_int s) =
    (if - (2 ^ 31) \<le> s \<and> s < 2 ^ 31 then i32 s else Double (f64_of_int s))"
proof -
  have e: "exact_int (- (2 ^ 31))" "exact_int (2 ^ 31 - 1)" by (simp_all add: exact_int_def)
  have "f64_to_i32 (f64_of_int s) = s" if "- (2 ^ 31) \<le> s" "s < 2 ^ 31"
    using that is_finite_not_special [OF f64_of_int_exact(1) [OF assms]] f64_trunc_of_int [OF assms]
    by (simp add: f64_to_i32_def)
  then show ?thesis
    unfolding keep_i32_def f64_le_of_int [OF e(1) assms] f64_le_of_int [OF assms e(2)]
    using f64_is_whole_of_int [OF assms] by auto
qed

lemma i32_add: "i32 (sint m + sint n) = Int32 (m + n)"
  by (simp add: i32_def)

lemma i64_add: "i64 (sint m + sint n) = Int64 (m + n)"
  by (simp add: i64_def)

lemma keep_i64_of_int:
  assumes "exact_int s"
  shows "keep_i64 (f64_of_int s) = i64 s"
proof -
  have le: "f64_le (f64_of_int i) (f64_of_int j)" if "i \<le> j" for i j
    using f64_key_of_int_mono [OF that] f64_of_int_not_nan
    by (auto simp: f64_le_def f64_lt_def f64_eq_def f64_partial_cmp_def cmp_def)
  have "- (2 ^ 63) \<le> s" "s \<le> 2 ^ 63 - 1" using assms by (simp_all add: exact_int_def)
  then show ?thesis
    using le f64_is_whole_of_int [OF assms] f64_to_i64_of_int [OF assms] by (simp add: keep_i64_def)
qed

section \<open>Single array operators\<close>

lemma add_absent_mem: "x_bson_eq X e e \<Longrightarrow> list_ex (\<lambda>x. x_bson_eq X x e) (add_absent X arr e)"
  by (simp add: add_absent_def)

lemma add_absent_mono: "list_ex (\<lambda>x. x_bson_eq X x e) arr \<Longrightarrow> list_ex (\<lambda>x. x_bson_eq X x e) (add_absent X arr f)"
  by (simp add: add_absent_def)

lemma foldl_add_absent_mono:
  "list_ex (\<lambda>x. x_bson_eq X x e) arr \<Longrightarrow> list_ex (\<lambda>x. x_bson_eq X x e) (foldl (add_absent X) arr es)"
  by (induction es arbitrary: arr) (simp_all add: add_absent_mono)

lemma foldl_add_absent_all:
  "\<forall>e \<in> set es. x_bson_eq X e e \<Longrightarrow> e \<in> set es \<Longrightarrow>
     list_ex (\<lambda>x. x_bson_eq X x e) (foldl (add_absent X) arr es)"
  by (induction es arbitrary: arr) (auto intro: foldl_add_absent_mono add_absent_mem)

lemma foldl_add_absent_id:
  "\<forall>e \<in> set es. list_ex (\<lambda>x. x_bson_eq X x e) arr \<Longrightarrow> foldl (add_absent X) arr es = arr"
  by (induction es) (simp_all add: add_absent_def)

fun added_values :: "bson \<Rightarrow> bson list" where
  "added_values v = (case each_elements v of Some (_, es) \<Rightarrow> es | None \<Rightarrow> [v])"

declare added_values.simps [simp del]

lemma add_to_set_step_eq:
  "add_to_set_step X d k v = res_bind (array_or_new AddToSetNotArray (get_value d k)) (\<lambda>arr.
     set_v d k (Array (foldl (add_absent X) arr (added_values v))))"
  by (auto simp: add_to_set_step_def added_values.simps Let_def split: option.splits
      intro!: res_bind_cong)

lemma array_or_new_Array [simp]: "array_or_new err (Some (Array a)) = Inr a"
  by (simp add: array_or_new_def)

lemma push_slice_shape:
  assumes "Option.bind (doc_get mods ''$slice'') int_value = Some n"
  shows "\<exists>r i j. push_slice mods xs = Inr r \<and> length r \<le> nat \<bar>n\<bar> \<and> r = take i (drop j xs)"
proof -
  let ?i = "if n < 0 then length xs else nat n" and ?j = "if n < 0 then length xs - nat (- n) else 0"
  have "push_slice mods xs = Inr (take ?i (drop ?j xs))"
    using assms by (auto simp: push_slice_def Let_def bind_eq_Some_conv)
  moreover have "length (take ?i (drop ?j xs)) \<le> nat \<bar>n\<bar>" by auto
  ultimately show ?thesis by blast
qed

lemma set_value_again: "set_value d k v = Inr d' \<Longrightarrow> set_value d' k w = set_value d k w"
  unfolding set_value_def by (rule set_set_parts)

section \<open>Properties\<close>





text \<open>
  The operators run in a fixed order: two update documents with the same operators and
  specifications, listed in any order, have the same effect.
\<close>

theorem apply_update_operator_order:
  assumes "doc_get update = doc_get update'" and "\<forall>k \<in> set (map fst update). starts_with k ''$''"
  shows "apply_update_impl X d update u filters = apply_update_impl X d update' u filters"
proof -
  have "set (map fst update) = set (map fst update')"
    using assms(1) by (metis dom_map_of_conv_image_fst set_map)
  then show ?thesis
    using assms by (simp add: apply_update_impl_fold update_with_def [abs_def])
qed

theorem apply_update_operator_order_witness:
  "apply_update_impl sample_externs [] [(''$set'', Document []), (''$inc'', Null)] False [] =
   apply_update_impl sample_externs [] [(''$inc'', Null), (''$set'', Document [])] False []"
  by (rule apply_update_operator_order) (auto simp: starts_with_def)

text \<open>
  A key that is not an operator rejects the whole update before anything is applied; an
  operator whose specification is not a document is an error, never a partial result.
\<close>

theorem apply_update_rejects:
  assumes "k \<in> fst ` set update" and "\<not> starts_with k ''$''"
  shows "\<exists>k'. apply_update_impl X d update u filters = Inl (NotAnOperator k') \<and>
     k' \<in> fst ` set update \<and> \<not> starts_with k' ''$''"
proof -
  have "find (\<lambda>k. \<not> starts_with k ''$'') (map fst update) \<noteq> None"
    using assms by (auto simp: find_None_iff)
  then obtain k' where k': "find (\<lambda>k. \<not> starts_with k ''$'') (map fst update) = Some k'" by blast
  then have "k' \<in> fst ` set update" "\<not> starts_with k' ''$''"
    by (auto simp: find_Some_iff)
  with k' show ?thesis by (simp add: apply_update_impl_def)
qed

theorem apply_update_rejects_witness:
  "\<exists>k'. apply_update_impl sample_externs [] [(''$set'', Document []), (''a'', Null)] False [] =
     Inl (NotAnOperator k')"
  using apply_update_rejects [of "''a''" "[(''$set'', Document []), (''a'', Null)]" sample_externs "[]" False "[]"]
  by (auto simp: starts_with_def)

text \<open>
  Incrementing a 32-bit field by a 32-bit amount is exact: the sum as a 32-bit integer when it
  fits, the sum as a double when it does not.
\<close>

theorem add_numbers_i32:
  "add_numbers (Some (Int32 n)) (Int32 m) =
     Inr (if - (2 ^ 31) \<le> sint n + sint m \<and> sint n + sint m < 2 ^ 31 then Int32 (n + m)
          else Double (f64_of_int (sint n + sint m)))"
proof -
  have "exact_int (sint n + sint m)"
    using sint32_bounds [of n] sint32_bounds [of m] by (simp add: exact_int_def)
  from keep_i32_of_int [OF this] show ?thesis
    by (simp add: add_numbers_def ok_or_def f64_add_of_int i32_add)
qed

text \<open>
  C8. Incrementing a 64-bit field goes through doubles: it is exact while field, amount and sum stay
  within \<open>2 ^ 53\<close>; at \<open>2 ^ 53\<close> an increment by one leaves the field as it is.
\<close>

theorem add_numbers_i64:
  assumes "exact_int (sint n)" and "exact_int (sint m)" and "exact_int (sint n + sint m)"
  shows "add_numbers (Some (Int64 n)) (Int64 m) = Inr (Int64 (n + m)) \<and>
    add_numbers (Some (i64 9007199254740992)) (i32 1) = Inr (i64 9007199254740992)"
proof -
  have "keep_i64 (f64_of_int (9007199254740992 + 1)) = i64 9007199254740992"
    using keep_i64_of_int [of 9007199254740992] by (simp add: f64_of_int_inexact exact_int_def)
  moreover have "sint (word_of_int 9007199254740992 :: 64 word) = 9007199254740992"
    "sint (word_of_int 1 :: 32 word) = 1" by simp_all
  moreover have "exact_int 9007199254740992" "exact_int 1" by (simp_all add: exact_int_def)
  ultimately have "add_numbers (Some (i64 9007199254740992)) (i32 1) = Inr (i64 9007199254740992)"
    by (simp add: add_numbers_def ok_or_def i64_def [of 9007199254740992] i32_def f64_add_of_int)
  then show ?thesis
    using assms keep_i64_of_int [OF assms(3)] by (simp add: add_numbers_def ok_or_def f64_add_of_int i64_add)
qed

theorem add_numbers_i64_witness:
  "add_numbers (Some (Int64 40)) (Int64 2) = Inr (Int64 42)"
  using add_numbers_i64 [of 40 2] by (simp add: exact_int_def)

text \<open>
  \<open>$addToSet\<close> is idempotent and complete: every added value is in the field's array
  afterwards, the old elements are kept in front, and doing it again changes nothing (for values
  that equal themselves).
\<close>

theorem add_to_set_idempotent:
  assumes "add_to_set_step X d k v = Inr d'" and "\<forall>e \<in> set (added_values v). x_bson_eq X e e"
  shows "add_to_set_step X d' k v = Inr d' \<and>
    (\<exists>arr news. get_value d' k = Some (Array (arr @ news)) \<and>
       array_or_new AddToSetNotArray (get_value d k) = Inr arr \<and> set news \<subseteq> set (added_values v) \<and>
       (\<forall>e \<in> set (added_values v). \<exists>x \<in> set (arr @ news). x_bson_eq X x e))"
proof -
  from assms(1) obtain arr where arr: "array_or_new AddToSetNotArray (get_value d k) = Inr arr"
    and set: "set_value d k (Array (foldl (add_absent X) arr (added_values v))) = Inr d'"
    by (auto simp: add_to_set_step_eq)
  let ?a = "foldl (add_absent X) arr (added_values v)"
  have get: "get_value d' k = Some (Array ?a)" by (rule get_set_value [OF set])
  have all: "\<forall>e \<in> set (added_values v). list_ex (\<lambda>x. x_bson_eq X x e) ?a"
    using foldl_add_absent_all [OF assms(2)] by blast
  have "\<exists>news. foldl (add_absent X) arr es = arr @ news \<and> set news \<subseteq> set es" for es
  proof (induction es rule: rev_induct)
    case (snoc e es)
    then obtain news where n: "foldl (add_absent X) arr es = arr @ news" "set news \<subseteq> set es" by blast
    have "foldl (add_absent X) arr (es @ [e]) = add_absent X (arr @ news) e" by (simp add: n(1))
    then have "foldl (add_absent X) arr (es @ [e]) = arr @ news \<or>
        foldl (add_absent X) arr (es @ [e]) = arr @ (news @ [e])" by (simp add: add_absent_def)
    then show ?case using n(2) by fastforce
  qed simp
  then obtain news where "?a = arr @ news" "set news \<subseteq> set (added_values v)" by blast
  moreover have "add_to_set_step X d' k v = Inr d'"
    using set_value_again [OF set, of "Array ?a"] set
    by (simp add: add_to_set_step_eq get foldl_add_absent_id [OF all])
  ultimately show ?thesis using get arr all by (auto simp: list_ex_iff)
qed

theorem add_to_set_idempotent_witness:
  "add_to_set_step sample_externs [(''t'', Array [Str ''a'', Str ''b''])] ''t'' (Str ''b'') =
     Inr [(''t'', Array [Str ''a'', Str ''b''])]"
  using add_to_set_idempotent [of sample_externs "[(''t'', Array [Str ''a''])]" "''t''" "Str ''b''"
      "[(''t'', Array [Str ''a'', Str ''b''])]"]
  by (simp add: add_to_set_step_eq get_value_def set_value_def added_values.simps add_absent_def)

text \<open>
  \<open>$pull\<close> removes exactly the matching elements: the field's array afterwards is the old one
  without them, in the same order; a field that is not an array is left alone.
\<close>

theorem pull_step_filters:
  "pull_step X d k c = (case get_value d k of
     Some (Array arr) \<Rightarrow> set_v d k (Array (filter (pull_keeps X c) arr))
   | _ \<Rightarrow> Inr d) \<and>
   (pull_step X d k c = Inr d' \<longrightarrow> pull_step X d' k c = Inr d')"
proof -
  have eq: "pull_step X e k c = (case get_value e k of
     Some (Array arr) \<Rightarrow> set_v e k (Array (filter (pull_keeps X c) arr)) | _ \<Rightarrow> Inr e)" for e
    by (simp add: pull_step_def split: option.splits bson.splits)
  have "pull_step X d' k c = Inr d'" if p: "pull_step X d k c = Inr d'"
  proof (cases "\<exists>arr. get_value d k = Some (Array arr)")
    case True
    then obtain arr where "get_value d k = Some (Array arr)" by blast
    with p have set: "set_value d k (Array (filter (pull_keeps X c) arr)) = Inr d'" by (simp add: eq)
    from set_value_again [OF set, of "Array (filter (pull_keeps X c) arr)"] set get_set_value [OF set]
    show ?thesis by (simp add: eq)
  next
    case False
    then have "pull_step X d k c = Inr d" by (simp add: eq split: option.splits bson.splits)
    with p show ?thesis by simp
  qed
  with eq show ?thesis by blast
qed

theorem pull_step_filters_witness:
  "pull_step sample_externs [(''t'', Array [Str ''a''])] ''t'' (Str ''b'') = Inr [(''t'', Array [Str ''a''])]"
  using pull_step_filters [of sample_externs "[(''t'', Array [Str ''b'', Str ''a'', Str ''b''])]" "''t''" "Str ''b''"
      "[(''t'', Array [Str ''a''])]"]
  by (simp add: get_value_def set_value_def pull_keeps_def)



text \<open>
  \<open>$min\<close> and \<open>$max\<close> on numbers leave the smaller and the larger of the field and the
  operand, compared as doubles.
\<close>

theorem bound_step_extremum:
  assumes "get_value d k = Some c" and "as_f64 c = Some x" and "as_f64 v = Some y"
    and "\<not> is_nan x" and "\<not> is_nan y"
  shows "\<exists>d1 w1 z1 d2 w2 z2.
    bound_step Less d k v = Inr d1 \<and> get_value d1 k = Some w1 \<and> as_f64 w1 = Some z1 \<and>
      f64_key z1 = min (f64_key x) (f64_key y) \<and>
    bound_step Greater d k v = Inr d2 \<and> get_value d2 k = Some w2 \<and> as_f64 w2 = Some z2 \<and>
      f64_key z2 = max (f64_key x) (f64_key y)"
proof -
  obtain e where e: "set_value d k v = Inr e" using set_value_total by blast
  note g = get_set_value [OF e]
  have c: "compare_numbers v c = Some (cmp (f64_key y) (f64_key x))"
    using assms by (simp add: compare_numbers_def f64_partial_cmp_def)
  have "\<exists>d1 w1 z1. bound_step Less d k v = Inr d1 \<and> get_value d1 k = Some w1 \<and> as_f64 w1 = Some z1 \<and>
      f64_key z1 = min (f64_key x) (f64_key y)"
    using assms c e g by (cases "f64_key y < f64_key x") (auto simp: bound_step_def min_def)
  moreover have "\<exists>d2 w2 z2. bound_step Greater d k v = Inr d2 \<and> get_value d2 k = Some w2 \<and> as_f64 w2 = Some z2 \<and>
      f64_key z2 = max (f64_key x) (f64_key y)"
    using assms c e g by (cases "f64_key x < f64_key y") (auto simp: bound_step_def max_def)
  ultimately show ?thesis by blast
qed

theorem bound_step_extremum_witness:
  "\<exists>d1 w1. bound_step Less [(''n'', i32 5)] ''n'' (i32 3) = Inr d1 \<and> get_value d1 ''n'' = Some w1"
  using bound_step_extremum [of "[(''n'', i32 5)]" "''n''" "i32 5" "f64_of_int 5" "i32 3" "f64_of_int 3"]
  by (auto simp: get_value_def i32_def f64_of_int_not_nan)

text \<open>
  \<open>$rename\<close> of a top-level field moves its value: it is read under the new name and no
  longer under the old one; a missing field is left alone.
\<close>

theorem rename_step_moves:
  assumes "CHR ''.'' \<notin> set old" and "CHR ''.'' \<notin> set new" and "old \<noteq> new"
  shows "\<exists>d'. rename_step d old (Str new) = Inr d' \<and>
    (case doc_get d old of
       None \<Rightarrow> d' = d
     | Some v \<Rightarrow> doc_get d' new = Some v \<and> doc_get d' old = None)"
  using assms
  by (auto simp: rename_step_def ok_or_def get_value_top unset_value_top set_value_top split: option.splits)

theorem rename_step_moves_witness:
  "\<exists>d'. rename_step [(''a'', Null)] ''a'' (Str ''b'') = Inr d' \<and> doc_get d' ''b'' = Some Null"
  using rename_step_moves [of "''a''" "''b''" "[(''a'', Null)]"] by auto

end
