(* ===== verification/Storage.thy ===== *)
theory Storage
  imports Ordered
begin

text \<open>
  The storage layer: the error type and the session and cursor interfaces of
  \<^verbatim>\<open>storage/mod.rs\<close>, and the in-memory backend of \<^verbatim>\<open>storage/memory.rs\<close> with its cursor as
  explicit state.  A cursor operation takes the tables and the cursor and returns its result with
  the cursor afterwards (a failed operation may have moved it).  Poisoned locks are not
  modelled.  The locale \<open>session_store\<close> is what a collection relies on; \<open>txn_store\<close> adds
  transactions.
\<close>

section \<open>Interfaces\<close>

datatype storage_error = NotFound string | DuplicateKey string | OtherError string

type_synonym rows = "(bytes \<times> bytes) list"

text \<open>
  In the contract \<open>inv\<close> is the invariant of the backend and \<open>has s t\<close> says that table \<open>t\<close>
  exists.  The operations of a session as a collection uses them through cursors: the rows a fresh
  cursor iterates over, a point lookup (\<^verbatim>\<open>search\<close> then \<^verbatim>\<open>get_value_raw\<close>), a write (\<^verbatim>\<open>set_key\<close>,
  \<^verbatim>\<open>set_value\<close>, \<^verbatim>\<open>insert\<close>) and a removal (\<^verbatim>\<open>set_key\<close>, \<^verbatim>\<open>remove\<close>).
\<close>

record 's session_ops =
  so_create_table :: "'s \<Rightarrow> string \<Rightarrow> 's"
  so_drop_table :: "'s \<Rightarrow> string \<Rightarrow> 's"
  so_rows :: "'s \<Rightarrow> string \<Rightarrow> rows"
  so_search :: "'s \<Rightarrow> string \<Rightarrow> bytes \<Rightarrow> bytes option"
  so_put :: "'s \<Rightarrow> string \<Rightarrow> bytes \<Rightarrow> bytes \<Rightarrow> 's"
  so_del :: "'s \<Rightarrow> string \<Rightarrow> bytes \<Rightarrow> 's"
  so_begin :: "'s \<Rightarrow> 's"
  so_commit :: "'s \<Rightarrow> 's"
  so_rollback :: "'s \<Rightarrow> 's"
  so_in_txn :: "'s \<Rightarrow> bool"

locale session_store =
  fixes S :: "'s session_ops"
    and inv :: "'s \<Rightarrow> bool"
    and has :: "'s \<Rightarrow> string \<Rightarrow> bool"
  assumes rows_ok: "inv s \<Longrightarrow> bt_ok (so_rows S s t)"
    and search_rows: "inv s \<Longrightarrow> \<not> so_in_txn S s \<Longrightarrow> so_search S s t k = map_of (so_rows S s t) k"
    and rows_put: "inv s \<Longrightarrow> has s t \<Longrightarrow> so_rows S (so_put S s t k v) t' =
          (if t' = t then bt_insert k v (so_rows S s t) else so_rows S s t')"
    and rows_del: "inv s \<Longrightarrow> has s t \<Longrightarrow> so_rows S (so_del S s t k) t' =
          (if t' = t then bt_remove k (so_rows S s t) else so_rows S s t')"
    and rows_begin: "inv s \<Longrightarrow> \<not> so_in_txn S s \<Longrightarrow> so_rows S (so_begin S s) t = so_rows S s t"
    and rows_commit: "inv s \<Longrightarrow> has s t \<Longrightarrow> so_rows S (so_commit S s) t = so_rows S s t"
    and inv_put: "inv s \<Longrightarrow> inv (so_put S s t k v)"
    and inv_del: "inv s \<Longrightarrow> inv (so_del S s t k)"
    and inv_begin: "inv s \<Longrightarrow> inv (so_begin S s)"
    and inv_commit: "inv s \<Longrightarrow> inv (so_commit S s)"
    and inv_rollback: "inv s \<Longrightarrow> inv (so_rollback S s)"
    and has_put: "inv s \<Longrightarrow> has s t' \<Longrightarrow> has (so_put S s t k v) t'"
    and has_del: "inv s \<Longrightarrow> has s t' \<Longrightarrow> has (so_del S s t k) t'"
    and has_begin: "has s t' \<Longrightarrow> has (so_begin S s) t'"
    and has_commit: "inv s \<Longrightarrow> has s t' \<Longrightarrow> has (so_commit S s) t'"
    and has_rollback: "has s t' \<Longrightarrow> has (so_rollback S s) t'"
    and has_create: "inv s \<Longrightarrow> has (so_create_table S s t) t"
    and in_txn_put: "so_in_txn S (so_put S s t k v) = so_in_txn S s"
    and in_txn_del: "so_in_txn S (so_del S s t k) = so_in_txn S s"
    and in_txn_commit: "\<not> so_in_txn S (so_commit S s)"
    and in_txn_rollback: "\<not> so_in_txn S (so_rollback S s)"
begin

lemma lookup_put: "inv s \<Longrightarrow> has s t \<Longrightarrow> map_of (so_rows S (so_put S s t k v) t) = (map_of (so_rows S s t))(k \<mapsto> v)"
  by (simp add: rows_put)

lemma lookup_del: "inv s \<Longrightarrow> has s t \<Longrightarrow> map_of (so_rows S (so_del S s t k) t) = (map_of (so_rows S s t))(k := None)"
  by (simp add: rows_del rows_ok)

end

text \<open>
  A store with real transactions: what has been committed stays what it is until the commit,
  and a rollback goes back to it.
\<close>

locale txn_store = session_store S inv has
  for S :: "'s session_ops" and inv :: "'s \<Rightarrow> bool" and has :: "'s \<Rightarrow> string \<Rightarrow> bool" +
  fixes committed :: "'s \<Rightarrow> string \<Rightarrow> rows"
  assumes in_txn_begin: "so_in_txn S (so_begin S s)"
    and committed_outside: "inv s \<Longrightarrow> \<not> so_in_txn S s \<Longrightarrow> committed s t = so_rows S s t"
    and committed_begin: "inv s \<Longrightarrow> committed (so_begin S s) t = committed s t"
    and committed_put: "inv s \<Longrightarrow> so_in_txn S s \<Longrightarrow> committed (so_put S s t k v) t' = committed s t'"
    and committed_del: "inv s \<Longrightarrow> so_in_txn S s \<Longrightarrow> committed (so_del S s t k) t' = committed s t'"
    and committed_rollback: "inv s \<Longrightarrow> committed (so_rollback S s) t = committed s t"
begin

lemma rollback_restores:
  assumes "inv s" and "\<not> so_in_txn S s" and "inv s'" and "\<And>t. committed s' t = committed (so_begin S s) t"
  shows "so_rows S (so_rollback S s') t = so_rows S s t"
  using assms committed_outside [of "so_rollback S s'" t] committed_outside [of s t]
  by (simp add: inv_rollback in_txn_rollback committed_rollback committed_begin)

end

section \<open>The in-memory backend\<close>

type_synonym mem_tables = "(string \<times> rows) list"

definition mem_list_tables :: "mem_tables \<Rightarrow> string list" where
  "mem_list_tables T = map fst T"

definition mem_create_table :: "mem_tables \<Rightarrow> string \<Rightarrow> mem_tables" where
  "mem_create_table T name = (case map_of T name of None \<Rightarrow> bt_insert name [] T | Some _ \<Rightarrow> T)"

definition mem_drop_table :: "mem_tables \<Rightarrow> string \<Rightarrow> mem_tables" where
  "mem_drop_table T name = bt_remove name T"

definition mem_rename_table :: "mem_tables \<Rightarrow> string \<Rightarrow> string \<Rightarrow> storage_error + mem_tables" where
  "mem_rename_table T frm to = (case map_of T frm of
     None \<Rightarrow> Inl (NotFound (''table '' @ frm @ '' does not exist''))
   | Some data \<Rightarrow> Inr (bt_insert to data (bt_remove frm T)))"

record mem_cursor =
  c_table :: string
  c_entries :: "rows option"
  c_position :: "nat option"
  c_key :: "bytes option"
  c_value :: "bytes option"
  c_pending_key :: "bytes option"
  c_pending_value :: "bytes option"

definition mem_open_cursor :: "string \<Rightarrow> mem_cursor" where
  "mem_open_cursor name = \<lparr>c_table = name, c_entries = None, c_position = None, c_key = None,
     c_value = None, c_pending_key = None, c_pending_value = None\<rparr>"

definition mem_rows :: "mem_tables \<Rightarrow> string \<Rightarrow> rows" where
  "mem_rows T name = (case map_of T name of Some r \<Rightarrow> r | None \<Rightarrow> [])"

definition mem_materialize :: "mem_tables \<Rightarrow> mem_cursor \<Rightarrow> mem_cursor" where
  "mem_materialize T c = (case c_entries c of
     Some _ \<Rightarrow> c
   | None \<Rightarrow> c\<lparr>c_entries := Some (mem_rows T (c_table c)), c_position := None\<rparr>)"

definition effective_key :: "mem_cursor \<Rightarrow> storage_error + bytes" where
  "effective_key c = (case c_pending_key c of
     Some k \<Rightarrow> Inr k
   | None \<Rightarrow> ok_or (OtherError ''no key set on cursor'') (c_key c))"

definition effective_value :: "mem_cursor \<Rightarrow> storage_error + bytes" where
  "effective_value c = (case c_pending_value c of
     Some v \<Rightarrow> Inr v
   | None \<Rightarrow> ok_or (OtherError ''no value set on cursor'') (c_value c))"

definition set_key_str :: "string \<Rightarrow> mem_cursor \<Rightarrow> mem_cursor" where
  "set_key_str k c = c\<lparr>c_pending_key := Some (as_bytes k)\<rparr>"

definition get_key_str :: "mem_cursor \<Rightarrow> storage_error + string" where
  "get_key_str c =
     res_bind (ok_or (NotFound ''cursor not positioned'') (c_key c)) (\<lambda>b.
     ok_or (OtherError ''key not UTF-8'') (from_utf8 b))"

definition set_key_raw :: "bytes \<Rightarrow> mem_cursor \<Rightarrow> mem_cursor" where
  "set_key_raw k c = c\<lparr>c_pending_key := Some k\<rparr>"

definition get_key_raw :: "mem_cursor \<Rightarrow> storage_error + bytes" where
  "get_key_raw c = ok_or (NotFound ''cursor not positioned'') (c_key c)"

definition set_value_str :: "string \<Rightarrow> mem_cursor \<Rightarrow> mem_cursor" where
  "set_value_str v c = c\<lparr>c_pending_value := Some (as_bytes v)\<rparr>"

definition get_value_str :: "mem_cursor \<Rightarrow> storage_error + string" where
  "get_value_str c =
     res_bind (ok_or (NotFound ''cursor not positioned'') (c_value c)) (\<lambda>b.
     ok_or (OtherError ''value not UTF-8'') (from_utf8 b))"

definition set_value_raw :: "bytes \<Rightarrow> mem_cursor \<Rightarrow> mem_cursor" where
  "set_value_raw v c = c\<lparr>c_pending_value := Some v\<rparr>"

definition get_value_raw :: "mem_cursor \<Rightarrow> storage_error + bytes" where
  "get_value_raw c = ok_or (NotFound ''cursor not positioned'') (c_value c)"

type_synonym 'a cres = "(storage_error + 'a) \<times> mem_cursor"

definition mem_search :: "mem_tables \<Rightarrow> mem_cursor \<Rightarrow> unit cres" where
  "mem_search T c = (case effective_key c of
     Inl e \<Rightarrow> (Inl e, c)
   | Inr key \<Rightarrow> (case map_of T (c_table c) of
       None \<Rightarrow> (Inl (NotFound ''table does not exist''), c)
     | Some table \<Rightarrow> (case map_of table key of
         Some v \<Rightarrow> (Inr (), c\<lparr>c_key := Some key, c_value := Some v\<rparr>)
       | None \<Rightarrow> (Inl (NotFound ''key not found''), c))))"

definition mem_move_to :: "rows \<Rightarrow> nat \<Rightarrow> mem_cursor \<Rightarrow> mem_cursor" where
  "mem_move_to es i c = c\<lparr>c_position := Some i, c_key := Some (fst (es ! i)), c_value := Some (snd (es ! i))\<rparr>"

text \<open>The part of \<^verbatim>\<open>search_near\<close> and \<^verbatim>\<open>next\<close> after the snapshot has been taken; both backends have it.\<close>

definition seek_near :: "mem_cursor \<Rightarrow> int cres" where
  "seek_near c = (case effective_key c of
     Inl e \<Rightarrow> (Inl e, c)
   | Inr seek \<Rightarrow> (case c_entries c of
       None \<Rightarrow> (Inl (OtherError ''not materialized''), c)
     | Some es \<Rightarrow>
         if es = [] then (Inl (NotFound ''table is empty''), c)
         else case binary_search_by (\<lambda>(k, _). cmp k seek) es of
           Inr idx \<Rightarrow> (Inr 0, mem_move_to es idx c)
         | Inl idx \<Rightarrow>
             if idx < length es then (Inr 1, mem_move_to es idx c)
             else if idx > 0 then (Inr (-1), mem_move_to es (idx - 1) c)
             else (Inl (NotFound ''no entries near key''), c)))"

definition advance :: "mem_cursor \<Rightarrow> unit cres" where
  "advance c = (case c_entries c of
     None \<Rightarrow> (Inl (OtherError ''not materialized''), c)
   | Some es \<Rightarrow>
       (let next_pos = (case c_position c of Some p \<Rightarrow> p + 1 | None \<Rightarrow> 0) in
        if length es \<le> next_pos then (Inl (NotFound ''end of cursor''), c)
        else let c' = mem_move_to es next_pos c in (Inr (), c'\<lparr>c_pending_key := c_key c'\<rparr>)))"

definition mem_search_near :: "mem_tables \<Rightarrow> mem_cursor \<Rightarrow> int cres" where
  "mem_search_near T c = seek_near (mem_materialize T (c\<lparr>c_entries := None\<rparr>))"

definition mem_next :: "mem_tables \<Rightarrow> mem_cursor \<Rightarrow> unit cres" where
  "mem_next T c = advance (mem_materialize T c)"

definition mem_insert :: "mem_tables \<Rightarrow> mem_cursor \<Rightarrow> storage_error + mem_tables" where
  "mem_insert T c =
     res_bind (effective_key c) (\<lambda>key.
     res_bind (effective_value c) (\<lambda>v.
     Inr (bt_insert (c_table c) (bt_insert key v (mem_rows T (c_table c))) T)))"

definition mem_update :: "mem_tables \<Rightarrow> mem_cursor \<Rightarrow> storage_error + mem_tables" where
  "mem_update T c = mem_insert T c"

definition mem_remove :: "mem_tables \<Rightarrow> mem_cursor \<Rightarrow> storage_error + mem_tables" where
  "mem_remove T c =
     res_bind (effective_key c) (\<lambda>key.
     Inr (case map_of T (c_table c) of
       Some table \<Rightarrow> bt_insert (c_table c) (bt_remove key table) T
     | None \<Rightarrow> T))"

definition mem_reset :: "mem_cursor \<Rightarrow> mem_cursor" where
  "mem_reset c = mem_open_cursor (c_table c)"

section \<open>The in-memory session\<close>

definition mem_put :: "mem_tables \<Rightarrow> string \<Rightarrow> bytes \<Rightarrow> bytes \<Rightarrow> mem_tables" where
  "mem_put T t k v = bt_insert t (bt_insert k v (mem_rows T t)) T"

definition mem_del :: "mem_tables \<Rightarrow> string \<Rightarrow> bytes \<Rightarrow> mem_tables" where
  "mem_del T t k = (case map_of T t of Some r \<Rightarrow> bt_insert t (bt_remove k r) T | None \<Rightarrow> T)"

definition mem_session :: "mem_tables session_ops" where
  "mem_session = \<lparr>
     so_create_table = mem_create_table,
     so_drop_table = mem_drop_table,
     so_rows = mem_rows,
     so_search = (\<lambda>T t k. Option.bind (map_of T t) (\<lambda>r. map_of r k)),
     so_put = mem_put,
     so_del = mem_del,
     so_begin = (\<lambda>T. T),
     so_commit = (\<lambda>T. T),
     so_rollback = (\<lambda>T. T),
     so_in_txn = (\<lambda>_. False)\<rparr>"

definition mem_inv :: "mem_tables \<Rightarrow> bool" where
  "mem_inv T \<longleftrightarrow> bt_ok T \<and> (\<forall>n r. map_of T n = Some r \<longrightarrow> bt_ok r)"

lemma mem_rows_ok: "mem_inv T \<Longrightarrow> bt_ok (mem_rows T t)"
  by (auto simp: mem_inv_def mem_rows_def split: option.splits)

lemma mem_inv_put: "mem_inv T \<Longrightarrow> mem_inv (mem_put T t k v)"
  using mem_rows_ok [of T t] by (auto simp: mem_inv_def mem_put_def)

lemma mem_inv_del: "mem_inv T \<Longrightarrow> mem_inv (mem_del T t k)"
  by (auto simp: mem_inv_def mem_del_def split: option.splits)

lemma mem_inv_tables:
  "mem_inv T \<Longrightarrow> mem_inv (mem_create_table T t)" "mem_inv T \<Longrightarrow> mem_inv (mem_drop_table T t)"
  by (auto simp: mem_inv_def mem_create_table_def mem_drop_table_def split: option.splits if_splits)

lemma mem_rows_put: "mem_rows (mem_put T t k v) t' = (if t' = t then bt_insert k v (mem_rows T t) else mem_rows T t')"
  by (simp add: mem_put_def mem_rows_def)

lemma mem_rows_del:
  "mem_rows (mem_del T t k) t' = (if t' = t then bt_remove k (mem_rows T t) else mem_rows T t')"
  by (auto simp: mem_del_def mem_rows_def split: option.splits)

lemma mem_session_simps [simp]:
  "so_create_table mem_session = mem_create_table" "so_drop_table mem_session = mem_drop_table"
  "so_rows mem_session = mem_rows" "so_put mem_session = mem_put" "so_del mem_session = mem_del"
  "so_search mem_session T t k = map_of (mem_rows T t) k"
  "so_begin mem_session T = T" "so_commit mem_session T = T" "so_rollback mem_session T = T"
  "so_in_txn mem_session T = False"
  by (auto simp: mem_session_def mem_rows_def split: option.splits)

interpretation mem: session_store mem_session mem_inv "\<lambda>_ _. True"
  by unfold_locales
     (simp_all add: mem_rows_ok mem_rows_put mem_rows_del mem_inv_put mem_inv_del)

section \<open>Cursors implement the session operations\<close>

lemma cursor_put:
  "mem_insert T (set_value_raw v (set_key_raw k (mem_open_cursor t))) = Inr (mem_put T t k v)"
  by (simp add: mem_insert_def effective_key_def effective_value_def set_key_raw_def
      set_value_raw_def mem_open_cursor_def mem_put_def)

lemma cursor_del: "mem_remove T (set_key_raw k (mem_open_cursor t)) = Inr (mem_del T t k)"
  by (simp add: mem_remove_def effective_key_def set_key_raw_def mem_open_cursor_def mem_del_def
      split: option.split)

lemma cursor_search:
  "(case mem_search T (set_key_raw k (mem_open_cursor t)) of
      (Inl e, c) \<Rightarrow> None
    | (Inr _, c) \<Rightarrow> (case get_value_raw c of Inl e \<Rightarrow> None | Inr v \<Rightarrow> Some v)) =
   so_search mem_session T t k"
  by (auto simp: mem_search_def effective_key_def set_key_raw_def mem_open_cursor_def
      get_value_raw_def ok_or_def mem_rows_def split: option.splits)

text \<open>
  The loop of the sources over a cursor: \<^verbatim>\<open>next\<close> until it fails, reading key and value at
  each stop.
\<close>

fun cursor_scan :: "nat \<Rightarrow> mem_tables \<Rightarrow> mem_cursor \<Rightarrow> rows" where
  "cursor_scan 0 T c = []"
| "cursor_scan (Suc n) T c = (case mem_next T c of
     (Inl e, c') \<Rightarrow> []
   | (Inr _, c') \<Rightarrow> (the (c_key c'), the (c_value c')) # cursor_scan n T c')"

lemma mem_next_snapshot: "c_entries c = Some es \<Longrightarrow> mem_next T c = mem_next T' c"
  by (simp add: mem_next_def mem_materialize_def)

lemma mem_materialized: "c_entries c = Some es \<Longrightarrow> mem_materialize T c = c"
  by (simp add: mem_materialize_def)

lemma cursor_scan_at:
  assumes "c_entries c = Some es" and "(case c_position c of Some p \<Rightarrow> p + 1 | None \<Rightarrow> 0) = i"
    and "length es - i < n"
  shows "cursor_scan n T c = drop i es"
  using assms
proof (induction n arbitrary: c i)
  case (Suc n)
  show ?case
  proof (cases "length es \<le> i")
    case True
    with Suc.prems show ?thesis by (simp add: mem_next_def advance_def mem_materialized Let_def)
  next
    case False
    define c' where "c' = (mem_move_to es i c)\<lparr>c_pending_key := Some (fst (es ! i))\<rparr>"
    have step: "mem_next T c = (Inr (), c')"
      using False Suc.prems by (simp add: mem_next_def advance_def mem_materialized Let_def c'_def mem_move_to_def)
    have "cursor_scan n T c' = drop (Suc i) es"
      by (rule Suc.IH) (use Suc.prems False in \<open>simp_all add: c'_def mem_move_to_def\<close>)
    then show ?thesis
      using False step by (simp add: c'_def mem_move_to_def Cons_nth_drop_Suc)
  qed
qed simp

lemma cursor_scan_rows: "length (mem_rows T t) < n \<Longrightarrow> cursor_scan n T (mem_open_cursor t) = mem_rows T t"
proof -
  assume n: "length (mem_rows T t) < n"
  define c where "c = mem_materialize T (mem_open_cursor t)"
  have c: "c_entries c = Some (mem_rows T t)" "c_position c = None"
    by (simp_all add: c_def mem_materialize_def mem_open_cursor_def)
  have "mem_next T (mem_open_cursor t) = mem_next T c"
    by (simp add: mem_next_def c_def mem_materialized [OF c(1)[unfolded c_def]])
  then have "cursor_scan n T (mem_open_cursor t) = cursor_scan n T c" by (cases n) simp_all
  also have "\<dots> = drop 0 (mem_rows T t)" by (rule cursor_scan_at) (use c n in simp_all)
  finally show ?thesis by simp
qed

lemma seek_near_lands:
  assumes es: "c_entries c = Some es" "bt_ok es" "es \<noteq> []" and key: "effective_key c = Inr seek"
  shows "\<exists>r c' k v. seek_near c = (Inr r, c') \<and> c_key c' = Some k \<and> c_value c' = Some v \<and> (k, v) \<in> set es \<and>
    (r = 0 \<and> k = seek \<or>
     r = 1 \<and> seek < k \<and> (\<forall>(k', _) \<in> set es. k' < seek \<or> k \<le> k') \<or>
     r = -1 \<and> k < seek \<and> (\<forall>(k', _) \<in> set es. k' \<le> k))"
proof -
  let ?f = "\<lambda>(k, _ :: bytes). cmp k seek"
  have so: "sorted_wrt (<) (map fst es)" using es(2) by (simp add: bt_ok_def)
  then have nth_less: "fst (es ! i) < fst (es ! j)" if "i < j" "j < length es" for i j
    using that by (simp add: sorted_wrt_iff_nth_less)
  have nth_le: "fst (es ! i) \<le> fst (es ! j)" if "i \<le> j" "j < length es" for i j
    using nth_less [of i j] that by (cases "i = j") auto
  have ps: "probe_sorted ?f es"
    unfolding probe_sorted_def using so
    by (auto simp: sorted_wrt_map cmp_def split: if_splits elim!: sorted_wrt_mono_rel [rotated])
  show ?thesis
  proof (cases "binary_search_by ?f es")
    case (Inr i)
    note b = binary_search_by_Inr [OF ps Inr]
    have "seek_near c = (Inr 0, mem_move_to es i c)" using es key Inr by (simp add: seek_near_def)
    moreover have "fst (es ! i) = seek" using b(2) by (simp add: case_prod_unfold)
    ultimately show ?thesis using b(1) by (auto simp: mem_move_to_def)
  next
    case (Inl i)
    note b = binary_search_by_Inl [OF ps Inl]
    have lt: "fst (es ! j) < seek" if "j < i" for j using b(2) [OF that] by (simp add: case_prod_unfold)
    have gt: "seek < fst (es ! j)" if "i \<le> j" "j < length es" for j
      using b(3) [OF that] by (simp add: case_prod_unfold)
    show ?thesis
    proof (cases "i < length es")
      case True
      have "seek_near c = (Inr 1, mem_move_to es i c)" using es key Inl True by (simp add: seek_near_def)
      moreover have "k' < seek \<or> fst (es ! i) \<le> k'" if kv: "(k', v') \<in> set es" for k' v'
      proof -
        obtain j where "j < length es" "es ! j = (k', v')" using kv by (auto simp: in_set_conv_nth)
        then show ?thesis using lt [of j] nth_le [of i j] by (cases "j < i") auto
      qed
      ultimately show ?thesis using gt [of i] True by (auto simp: mem_move_to_def intro: nth_mem)
    next
      case False
      then have i: "i = length es" "0 < i" using b(1) es(3) by auto
      have "seek_near c = (Inr (-1), mem_move_to es (i - 1) c)"
        using es key Inl False i(2) by (simp add: seek_near_def)
      moreover have "k' \<le> fst (es ! (i - 1))" if kv: "(k', v') \<in> set es" for k' v'
      proof -
        obtain j where "j < length es" "es ! j = (k', v')" using kv by (auto simp: in_set_conv_nth)
        then show ?thesis using nth_le [of j "i - 1"] i by auto
      qed
      ultimately show ?thesis using lt [of "i - 1"] i by (auto simp: mem_move_to_def intro: nth_mem)
    qed
  qed
qed

section \<open>Properties\<close>

text \<open>
  C10. Iterating a cursor visits exactly the rows of the table in key order and then ends; a cursor
  that has started iterates over its snapshot, whatever is written meanwhile.
\<close>

theorem cursor_iteration:
  assumes "mem_inv T" and "length (mem_rows T t) < n"
  shows "cursor_scan n T (mem_open_cursor t) = mem_rows T t \<and> bt_ok (mem_rows T t) \<and>
    (c_entries c \<noteq> None \<longrightarrow> mem_next T c = mem_next T' c)"
  using cursor_scan_rows [OF assms(2)] mem_rows_ok [OF assms(1)] mem_next_snapshot [of c] by auto

theorem cursor_iteration_witness:
  "cursor_scan 5 [(''t'', [([1], [10]), ([2], [20])])] (mem_open_cursor ''t'') = [([1], [10]), ([2], [20])]"
  using cursor_iteration [of "[(''t'', [([1], [10]), ([2], [20])])]" "''t''" 5]
  by (simp add: mem_inv_def mem_rows_def)

text \<open>
  \<open>search_near\<close> lands where its documentation says: on the key (0), on the least greater key
  (1), or, when every key is smaller, on the greatest (-1); it fails exactly on an empty or
  missing table.
\<close>

theorem search_near_lands:
  assumes "mem_inv T" and "mem_rows T t \<noteq> []"
  shows "\<exists>r c k v. mem_search_near T (set_key_raw seek (mem_open_cursor t)) = (Inr r, c) \<and>
    c_key c = Some k \<and> c_value c = Some v \<and> (k, v) \<in> set (mem_rows T t) \<and>
    (r = 0 \<and> k = seek \<or>
     r = 1 \<and> seek < k \<and> (\<forall>(k', _) \<in> set (mem_rows T t). k' < seek \<or> k \<le> k') \<or>
     r = -1 \<and> k < seek \<and> (\<forall>(k', _) \<in> set (mem_rows T t). k' \<le> k))"
  unfolding mem_search_near_def
  by (rule seek_near_lands) (use assms in \<open>simp_all add: mem_materialize_def mem_open_cursor_def
    set_key_raw_def effective_key_def mem_rows_ok\<close>)

theorem search_near_lands_witness:
  "\<exists>r c k. mem_search_near [(''t'', [([1], [10]), ([3], [30])])] (set_key_raw [2] (mem_open_cursor ''t'')) = (Inr r, c) \<and>
     c_key c = Some k \<and> k = [3]"
proof -
  have "mem_inv [(''t'', [([1], [10]), ([3], [30])])]" by (simp add: mem_inv_def)
  from search_near_lands [OF this, of "''t''" "[2]"] show ?thesis by (auto simp: mem_rows_def)
qed

end
