(* ===== verification/Redb.thy ===== *)
theory Redb
  imports Storage
begin

text \<open>
  The production backend (\<^verbatim>\<open>storage/redb_backend.rs\<close>): a session over a \<^verbatim>\<open>redb\<close> database that
  buffers the writes of a transaction and merges them into what its cursors read.  The database
  itself is a third-party crate: its operations are the fields of \<open>redb_ops\<close>, and the locale
  \<open>redb_db\<close> states what its documentation promises (ordered tables, reads of committed
  data).  I/O errors of the database are not modelled.
\<close>

section \<open>The database\<close>

record 'd redb_ops =
  rd_rows :: "'d \<Rightarrow> string \<Rightarrow> rows option"
  rd_get :: "'d \<Rightarrow> string \<Rightarrow> bytes \<Rightarrow> bytes option"
  rd_open :: "'d \<Rightarrow> string \<Rightarrow> 'd"
  rd_insert :: "'d \<Rightarrow> string \<Rightarrow> bytes \<Rightarrow> bytes \<Rightarrow> 'd"
  rd_remove :: "'d \<Rightarrow> string \<Rightarrow> bytes \<Rightarrow> 'd"
  rd_delete :: "'d \<Rightarrow> string \<Rightarrow> 'd"
  rd_already_open :: "string \<Rightarrow> string"

section \<open>Sessions\<close>

datatype pending_write = PInsert bytes bytes | PRemove bytes

record 'd redb_session =
  rs_db :: 'd
  rs_in_txn :: bool
  rs_pending :: "(string \<times> pending_write list) list"

definition redb_open_session :: "'d \<Rightarrow> 'd redb_session" where
  "redb_open_session db = \<lparr>rs_db = db, rs_in_txn = False, rs_pending = []\<rparr>"

definition redb_create_table :: "'d redb_ops \<Rightarrow> 'd redb_session \<Rightarrow> string \<Rightarrow> 'd redb_session" where
  "redb_create_table R s name = s\<lparr>rs_db := rd_open R (rs_db s) name\<rparr>"

definition redb_drop_table :: "'d redb_ops \<Rightarrow> 'd redb_session \<Rightarrow> string \<Rightarrow> 'd redb_session" where
  "redb_drop_table R s name = s\<lparr>rs_db := rd_delete R (rs_db s) name\<rparr>"

definition redb_begin :: "'d redb_session \<Rightarrow> 'd redb_session" where
  "redb_begin s = s\<lparr>rs_in_txn := True, rs_pending := []\<rparr>"

definition apply_write :: "'d redb_ops \<Rightarrow> string \<Rightarrow> 'd \<Rightarrow> pending_write \<Rightarrow> 'd" where
  "apply_write R t db op = (case op of
     PInsert key v \<Rightarrow> rd_insert R db t key v
   | PRemove key \<Rightarrow> rd_remove R db t key)"

definition redb_commit :: "'d redb_ops \<Rightarrow> 'd redb_session \<Rightarrow> 'd redb_session" where
  "redb_commit R s =
     s\<lparr>rs_pending := [], rs_in_txn := False,
       rs_db := foldl (\<lambda>db (t, ops). foldl (apply_write R t) (rd_open R db t) ops) (rs_db s) (rs_pending s)\<rparr>"

definition redb_rollback :: "'d redb_session \<Rightarrow> 'd redb_session" where
  "redb_rollback s = s\<lparr>rs_pending := [], rs_in_txn := False\<rparr>"

definition redb_rename_table ::
    "'d redb_ops \<Rightarrow> 'd redb_session \<Rightarrow> string \<Rightarrow> string \<Rightarrow> storage_error + 'd redb_session" where
  "redb_rename_table R s frm to =
     (let db = rd_open R (rs_db s) frm in
      case rd_rows R db frm of
        None \<Rightarrow> Inl (NotFound (''table '' @ frm @ '' does not exist''))
      | Some rows \<Rightarrow>
          if frm = to then Inl (OtherError (rd_already_open R to))
          else (let db = foldl (\<lambda>db (k, v). rd_insert R db to k v) (rd_open R db to) rows in
           Inr (s\<lparr>rs_db := rd_delete R db frm\<rparr>)))"

section \<open>Cursors\<close>

text \<open>The buffered writes of a table, merged into the committed rows of a snapshot.\<close>

definition merge_write :: "rows \<Rightarrow> pending_write \<Rightarrow> rows" where
  "merge_write rows op = (case op of
     PInsert key v \<Rightarrow> filter (\<lambda>(k, _). k \<noteq> key) rows @ [(key, v)]
   | PRemove key \<Rightarrow> filter (\<lambda>(k, _). k \<noteq> key) rows)"

definition redb_materialize :: "'d redb_ops \<Rightarrow> 'd redb_session \<Rightarrow> string \<Rightarrow> rows" where
  "redb_materialize R s t = (case rd_rows R (rs_db s) t of
     None \<Rightarrow> []
   | Some rows \<Rightarrow>
       if rs_in_txn s then
         (case map_of (rs_pending s) t of
            Some ops \<Rightarrow> sort_by (\<lambda>a b. cmp (fst a) (fst b)) (foldl merge_write rows ops)
          | None \<Rightarrow> rows)
       else rows)"

definition write_immediate :: "'d redb_ops \<Rightarrow> 'd redb_session \<Rightarrow> string \<Rightarrow> pending_write \<Rightarrow> 'd redb_session" where
  "write_immediate R s t op = s\<lparr>rs_db := apply_write R t (rd_open R (rs_db s) t) op\<rparr>"

definition do_write :: "'d redb_ops \<Rightarrow> 'd redb_session \<Rightarrow> string \<Rightarrow> pending_write \<Rightarrow> 'd redb_session" where
  "do_write R s t op =
     (if rs_in_txn s
      then s\<lparr>rs_pending := al_insert t (opt_or [] (map_of (rs_pending s) t) @ [op]) (rs_pending s)\<rparr>
      else write_immediate R s t op)"

text \<open>
  A cursor has the fields of the in-memory one; its handles on the session's state are the
  argument \<open>s\<close>.  A snapshot of a missing table leaves the position of the cursor alone.
\<close>

definition redb_snapshot :: "'d redb_ops \<Rightarrow> 'd redb_session \<Rightarrow> mem_cursor \<Rightarrow> mem_cursor" where
  "redb_snapshot R s c = (case c_entries c of
     Some _ \<Rightarrow> c
   | None \<Rightarrow> (case rd_rows R (rs_db s) (c_table c) of
       None \<Rightarrow> c\<lparr>c_entries := Some []\<rparr>
     | Some _ \<Rightarrow> c\<lparr>c_entries := Some (redb_materialize R s (c_table c)), c_position := None\<rparr>))"

definition redb_cursor_search :: "'d redb_ops \<Rightarrow> 'd redb_session \<Rightarrow> mem_cursor \<Rightarrow> unit cres" where
  "redb_cursor_search R s c = (case effective_key c of
     Inl e \<Rightarrow> (Inl e, c)
   | Inr key \<Rightarrow> (case rd_rows R (rs_db s) (c_table c) of
       None \<Rightarrow> (Inl (NotFound ''table does not exist''), c)
     | Some _ \<Rightarrow> (case rd_get R (rs_db s) (c_table c) key of
         Some v \<Rightarrow> (Inr (), c\<lparr>c_key := Some key, c_value := Some v\<rparr>)
       | None \<Rightarrow> (Inl (NotFound ''key not found''), c))))"

definition redb_search_near :: "'d redb_ops \<Rightarrow> 'd redb_session \<Rightarrow> mem_cursor \<Rightarrow> int cres" where
  "redb_search_near R s c = seek_near (redb_snapshot R s (c\<lparr>c_entries := None\<rparr>))"

definition redb_next :: "'d redb_ops \<Rightarrow> 'd redb_session \<Rightarrow> mem_cursor \<Rightarrow> unit cres" where
  "redb_next R s c = advance (redb_snapshot R s c)"

definition redb_insert :: "'d redb_ops \<Rightarrow> 'd redb_session \<Rightarrow> mem_cursor \<Rightarrow> storage_error + 'd redb_session" where
  "redb_insert R s c =
     res_bind (effective_key c) (\<lambda>key.
     res_bind (effective_value c) (\<lambda>v.
     Inr (do_write R s (c_table c) (PInsert key v))))"

definition redb_update :: "'d redb_ops \<Rightarrow> 'd redb_session \<Rightarrow> mem_cursor \<Rightarrow> storage_error + 'd redb_session" where
  "redb_update R s c = redb_insert R s c"

definition redb_remove :: "'d redb_ops \<Rightarrow> 'd redb_session \<Rightarrow> mem_cursor \<Rightarrow> storage_error + 'd redb_session" where
  "redb_remove R s c =
     res_bind (effective_key c) (\<lambda>key. Inr (do_write R s (c_table c) (PRemove key)))"

section \<open>The session as collections use it\<close>

definition redb_search :: "'d redb_ops \<Rightarrow> 'd redb_session \<Rightarrow> string \<Rightarrow> bytes \<Rightarrow> bytes option" where
  "redb_search R s t key = (case rd_rows R (rs_db s) t of
     None \<Rightarrow> None
   | Some _ \<Rightarrow> rd_get R (rs_db s) t key)"

definition redb_session_ops :: "'d redb_ops \<Rightarrow> 'd redb_session session_ops" where
  "redb_session_ops R = \<lparr>
     so_create_table = redb_create_table R,
     so_drop_table = redb_drop_table R,
     so_rows = redb_materialize R,
     so_search = redb_search R,
     so_put = (\<lambda>s t k v. do_write R s t (PInsert k v)),
     so_del = (\<lambda>s t k. do_write R s t (PRemove k)),
     so_begin = redb_begin,
     so_commit = redb_commit R,
     so_rollback = redb_rollback,
     so_in_txn = rs_in_txn\<rparr>"

lemma redb_cursor_put:
  "redb_insert R s (set_value_raw v (set_key_raw k (mem_open_cursor t))) = Inr (so_put (redb_session_ops R) s t k v)"
  by (simp add: redb_insert_def effective_key_def effective_value_def set_key_raw_def
      set_value_raw_def mem_open_cursor_def redb_session_ops_def)

lemma redb_cursor_del:
  "redb_remove R s (set_key_raw k (mem_open_cursor t)) = Inr (so_del (redb_session_ops R) s t k)"
  by (simp add: redb_remove_def effective_key_def set_key_raw_def mem_open_cursor_def redb_session_ops_def)

lemma redb_cursor_lookup:
  "(case redb_cursor_search R s (set_key_raw k (mem_open_cursor t)) of
      (Inl e, c) \<Rightarrow> None
    | (Inr _, c) \<Rightarrow> (case get_value_raw c of Inl e \<Rightarrow> None | Inr v \<Rightarrow> Some v)) =
   so_search (redb_session_ops R) s t k"
  by (auto simp: redb_cursor_search_def effective_key_def set_key_raw_def mem_open_cursor_def redb_search_def
      get_value_raw_def ok_or_def redb_session_ops_def split: option.splits)

lemma redb_cursor_entries:
  "c_entries (redb_snapshot R s (mem_open_cursor t)) = Some (so_rows (redb_session_ops R) s t)"
  by (simp add: redb_snapshot_def mem_open_cursor_def redb_session_ops_def redb_materialize_def split: option.split)

section \<open>The merged view\<close>

definition bt_write :: "rows \<Rightarrow> pending_write \<Rightarrow> rows" where
  "bt_write rows op = (case op of PInsert k v \<Rightarrow> bt_insert k v rows | PRemove k \<Rightarrow> bt_remove k rows)"

lemma bt_ok_bt_write: "bt_ok rows \<Longrightarrow> bt_ok (bt_write rows op)"
  by (cases op) (simp_all add: bt_write_def)

lemma bt_ok_foldl_bt_write: "bt_ok rows \<Longrightarrow> bt_ok (foldl bt_write rows ops)"
  by (induction ops arbitrary: rows) (simp_all add: bt_ok_bt_write)

lemma map_of_filter_keys: "map_of (filter (\<lambda>(k, _). k \<noteq> key) rows) = (map_of rows)(key := None)"
  by (induction rows) (auto simp: fun_eq_iff)

lemma merge_write_distinct: "distinct (map fst rows) \<Longrightarrow> distinct (map fst (merge_write rows op))"
  by (cases op) (auto simp: merge_write_def distinct_map_filter)

lemma merge_write_map_of:
  assumes "bt_ok srt" and "map_of rows = map_of srt"
  shows "map_of (merge_write rows op) = map_of (bt_write srt op)"
  using assms by (cases op)
    (auto simp: merge_write_def bt_write_def map_of_filter_keys map_add_def fun_eq_iff
      split: option.splits if_splits)

lemma foldl_merge_write:
  assumes "bt_ok srt" and "map_of rows = map_of srt" and "distinct (map fst rows)"
  shows "map_of (foldl merge_write rows ops) = map_of (foldl bt_write srt ops) \<and>
    distinct (map fst (foldl merge_write rows ops))"
  using assms
proof (induction ops arbitrary: rows srt)
  case (Cons op ops)
  show ?case
    using Cons.IH [OF bt_ok_bt_write [OF Cons.prems(1)] merge_write_map_of [OF Cons.prems(1,2)]
        merge_write_distinct [OF Cons.prems(3)]] by simp
qed simp

lemma sort_rows_bt_ok:
  fixes rows :: rows
  assumes "distinct (map fst rows)"
  shows "bt_ok (sort_by (\<lambda>a b. cmp (fst a) (fst b)) rows)"
    and "map_of (sort_by (\<lambda>a b. cmp (fst a) (fst b)) rows) = map_of rows"
proof -
  let ?s = "sort_by (\<lambda>a b. cmp (fst a) (fst b)) rows"
  have "mset (map fst ?s) = mset (map fst rows)" by simp
  then have d: "distinct (map fst ?s)" using assms by (metis mset_eq_imp_distinct_iff)
  have "total_preorder_on UNIV (\<lambda>a b :: bytes \<times> bytes. cmp (fst a) (fst b))"
    by (rule total_preorder_onI_key [where k = fst]) (rule refl)
  from sorted_sort_by [OF this, of rows] have "sorted_wrt (\<lambda>a b. fst a \<le> fst b) ?s"
    by (rule sorted_wrt_mono_rel [rotated]) (auto simp: cmp_def split: if_splits)
  with d show "bt_ok ?s"
    by (simp add: bt_ok_def strict_sorted_iff sorted_map)
  show "map_of ?s = map_of rows" using d assms by (simp add: map_of_inject_set)
qed

lemma merged_view:
  assumes "bt_ok rows"
  shows "sort_by (\<lambda>a b. cmp (fst a) (fst b)) (foldl merge_write rows ops) = foldl bt_write rows ops"
proof -
  note f = foldl_merge_write [OF assms refl bt_ok_distinct [OF assms], of ops]
  show ?thesis
    by (rule bt_ok_ext) (simp_all add: sort_rows_bt_ok f bt_ok_foldl_bt_write assms)
qed

section \<open>What the database promises\<close>

locale redb_db =
  fixes R :: "'d redb_ops"
    and dinv :: "'d \<Rightarrow> bool"
  assumes rows_sorted: "dinv d \<Longrightarrow> rd_rows R d t = Some r \<Longrightarrow> bt_ok r"
    and get_rows: "dinv d \<Longrightarrow> rd_get R d t k = Option.bind (rd_rows R d t) (\<lambda>r. map_of r k)"
    and rows_open: "dinv d \<Longrightarrow> rd_rows R (rd_open R d t) t' =
          (if t' = t then Some (opt_or [] (rd_rows R d t)) else rd_rows R d t')"
    and rows_insert: "dinv d \<Longrightarrow> rd_rows R d t = Some r \<Longrightarrow> rd_rows R (rd_insert R d t k v) t' =
          (if t' = t then Some (bt_insert k v r) else rd_rows R d t')"
    and rows_remove: "dinv d \<Longrightarrow> rd_rows R d t = Some r \<Longrightarrow> rd_rows R (rd_remove R d t k) t' =
          (if t' = t then Some (bt_remove k r) else rd_rows R d t')"
    and rows_delete: "dinv d \<Longrightarrow> rd_rows R (rd_delete R d t) t' = (if t' = t then None else rd_rows R d t')"
    and dinv_open: "dinv d \<Longrightarrow> dinv (rd_open R d t)"
    and dinv_insert: "dinv d \<Longrightarrow> dinv (rd_insert R d t k v)"
    and dinv_remove: "dinv d \<Longrightarrow> dinv (rd_remove R d t k)"
    and dinv_delete: "dinv d \<Longrightarrow> dinv (rd_delete R d t)"
begin

lemma write_rows:
  assumes "dinv d" and "rd_rows R d t = Some r"
  shows "dinv (apply_write R t d op)"
    and "rd_rows R (apply_write R t d op) t' = (if t' = t then Some (bt_write r op) else rd_rows R d t')"
  using assms by (cases op;
    simp add: apply_write_def bt_write_def rows_insert rows_remove dinv_insert dinv_remove)+

lemma writes_rows:
  assumes "dinv d" and "rd_rows R d t = Some r"
  shows "dinv (foldl (apply_write R t) d ops) \<and>
    rd_rows R (foldl (apply_write R t) d ops) t' = (if t' = t then Some (foldl bt_write r ops) else rd_rows R d t')"
  using assms
proof (induction ops arbitrary: d r)
  case (Cons op ops)
  show ?case
    using Cons.IH [of "apply_write R t d op" "bt_write r op"] write_rows [OF Cons.prems] by simp
qed simp

lemma open_writes_rows:
  assumes "dinv d"
  shows "dinv (foldl (apply_write R t) (rd_open R d t) ops)"
    and "rd_rows R (foldl (apply_write R t) (rd_open R d t) ops) t' =
      (if t' = t then Some (foldl bt_write (opt_or [] (rd_rows R d t)) ops) else rd_rows R d t')"
  using writes_rows [OF dinv_open [OF assms], of t t "opt_or [] (rd_rows R d t)" ops t'] assms
  by (simp_all add: rows_open)

text \<open>Committing applies the buffered writes of each table in their order.\<close>

lemma commit_rows:
  assumes "dinv d" and "distinct (map fst pending)"
  shows "dinv (foldl (\<lambda>db (t, ops). foldl (apply_write R t) (rd_open R db t) ops) d pending) \<and>
    rd_rows R (foldl (\<lambda>db (t, ops). foldl (apply_write R t) (rd_open R db t) ops) d pending) t' =
      (case map_of pending t' of
         Some ops \<Rightarrow> Some (foldl bt_write (opt_or [] (rd_rows R d t')) ops)
       | None \<Rightarrow> rd_rows R d t')"
  using assms
proof (induction pending arbitrary: d)
  case (Cons p pending)
  obtain t ops where p: "p = (t, ops)" by (cases p)
  note o = open_writes_rows [OF Cons.prems(1), of t ops]
  have "map_of pending t = None" using Cons.prems(2) p by (simp add: map_of_eq_None_iff)
  with Cons.IH [OF o(1)] Cons.prems(2) show ?case by (auto simp: p o(2) split: option.splits)
qed simp

end

definition redb_inv :: "('d \<Rightarrow> bool) \<Rightarrow> 'd redb_session \<Rightarrow> bool" where
  "redb_inv dinv s \<longleftrightarrow>
     dinv (rs_db s) \<and> distinct (map fst (rs_pending s)) \<and> (\<not> rs_in_txn s \<longrightarrow> rs_pending s = [])"

definition redb_has :: "'d redb_ops \<Rightarrow> 'd redb_session \<Rightarrow> string \<Rightarrow> bool" where
  "redb_has R s t \<longleftrightarrow> rd_rows R (rs_db s) t \<noteq> None"

definition redb_committed :: "'d redb_ops \<Rightarrow> 'd redb_session \<Rightarrow> string \<Rightarrow> rows" where
  "redb_committed R s t = opt_or [] (rd_rows R (rs_db s) t)"

lemma redb_session_ops_simps [simp]:
  "so_create_table (redb_session_ops R) = redb_create_table R"
  "so_drop_table (redb_session_ops R) = redb_drop_table R"
  "so_rows (redb_session_ops R) = redb_materialize R"
  "so_search (redb_session_ops R) = redb_search R"
  "so_put (redb_session_ops R) s t k v = do_write R s t (PInsert k v)"
  "so_del (redb_session_ops R) s t k = do_write R s t (PRemove k)"
  "so_begin (redb_session_ops R) = redb_begin"
  "so_commit (redb_session_ops R) = redb_commit R"
  "so_rollback (redb_session_ops R) = redb_rollback"
  "so_in_txn (redb_session_ops R) = rs_in_txn"
  by (simp_all add: redb_session_ops_def)

context redb_db
begin

lemma view_eq:
  assumes "redb_inv dinv s"
  shows "redb_materialize R s t = (case rd_rows R (rs_db s) t of
     None \<Rightarrow> []
   | Some rows \<Rightarrow> foldl bt_write rows (opt_or [] (map_of (rs_pending s) t)))"
proof (cases "rd_rows R (rs_db s) t")
  case None
  then show ?thesis by (simp add: redb_materialize_def)
next
  case (Some rows)
  with assms have "bt_ok rows" by (auto simp: redb_inv_def intro: rows_sorted)
  with Some assms show ?thesis
    by (auto simp: redb_materialize_def merged_view redb_inv_def split: option.splits)
qed

lemma view_ok: "redb_inv dinv s \<Longrightarrow> bt_ok (redb_materialize R s t)"
  by (auto simp: view_eq redb_inv_def split: option.splits intro!: bt_ok_foldl_bt_write dest: rows_sorted)

lemma do_write_inv: "redb_inv dinv s \<Longrightarrow> redb_inv dinv (do_write R s t op)"
  using open_writes_rows(1) [of "rs_db s" t "[op]"]
  by (auto simp: redb_inv_def do_write_def write_immediate_def)

lemma do_write_view:
  assumes "redb_inv dinv s" and "redb_has R s t"
  shows "redb_materialize R (do_write R s t op) t' =
    (if t' = t then bt_write (redb_materialize R s t) op else redb_materialize R s t')"
proof (cases "rs_in_txn s")
  case True
  then show ?thesis
    using assms unfolding view_eq [OF assms(1)] view_eq [OF do_write_inv [OF assms(1)]]
    by (auto simp: do_write_def redb_has_def split: option.splits)
next
  case False
  then have "rs_pending s = []" using assms(1) by (simp add: redb_inv_def)
  with False show ?thesis
    using assms open_writes_rows(2) [of "rs_db s" t "[op]" t']
    unfolding view_eq [OF assms(1)] view_eq [OF do_write_inv [OF assms(1)]]
    by (auto simp: do_write_def write_immediate_def redb_has_def redb_inv_def split: option.splits)
qed

lemma do_write_has: "redb_inv dinv s \<Longrightarrow> redb_has R s t' \<Longrightarrow> redb_has R (do_write R s t op) t'"
  using open_writes_rows(2) [of "rs_db s" t "[op]" t']
  by (auto simp: redb_has_def do_write_def write_immediate_def redb_inv_def)

lemma commit_view:
  assumes "redb_inv dinv s"
  shows "redb_inv dinv (redb_commit R s)"
    and "rd_rows R (rs_db s) t \<noteq> None \<or> map_of (rs_pending s) t = None \<Longrightarrow>
      redb_materialize R (redb_commit R s) t = redb_materialize R s t"
    and "redb_has R s t \<Longrightarrow> redb_has R (redb_commit R s) t"
proof -
  note c = commit_rows [of "rs_db s" "rs_pending s"]
  show inv: "redb_inv dinv (redb_commit R s)"
    using assms c by (simp add: redb_inv_def redb_commit_def)
  show "redb_has R s t \<Longrightarrow> redb_has R (redb_commit R s) t"
    using assms c [of t] by (auto simp: redb_inv_def redb_commit_def redb_has_def split: option.splits)
  show "redb_materialize R (redb_commit R s) t = redb_materialize R s t"
    if "rd_rows R (rs_db s) t \<noteq> None \<or> map_of (rs_pending s) t = None"
    unfolding view_eq [OF assms] view_eq [OF inv] using assms c [of t] that
    by (auto simp: redb_inv_def redb_commit_def split: option.splits)
qed

end

sublocale redb_db \<subseteq> redb: txn_store "redb_session_ops R" "redb_inv dinv" "redb_has R" "redb_committed R"
proof
  fix s t k v t'
  show "redb_inv dinv s \<Longrightarrow> bt_ok (so_rows (redb_session_ops R) s t)" by (simp add: view_ok)
  show "so_search (redb_session_ops R) s t k = map_of (so_rows (redb_session_ops R) s t) k"
    if "redb_inv dinv s" "\<not> so_in_txn (redb_session_ops R) s"
    using that by (auto simp: redb_search_def redb_materialize_def redb_inv_def get_rows split: option.splits)
  show "so_rows (redb_session_ops R) (so_put (redb_session_ops R) s t k v) t' =
      (if t' = t then bt_insert k v (so_rows (redb_session_ops R) s t) else so_rows (redb_session_ops R) s t')"
    if "redb_inv dinv s" "redb_has R s t"
    using do_write_view [OF that] by (simp add: bt_write_def)
  show "so_rows (redb_session_ops R) (so_del (redb_session_ops R) s t k) t' =
      (if t' = t then bt_remove k (so_rows (redb_session_ops R) s t) else so_rows (redb_session_ops R) s t')"
    if "redb_inv dinv s" "redb_has R s t"
    using do_write_view [OF that] by (simp add: bt_write_def)
  show "so_rows (redb_session_ops R) (so_begin (redb_session_ops R) s) t = so_rows (redb_session_ops R) s t"
    if "redb_inv dinv s" "\<not> so_in_txn (redb_session_ops R) s"
    using that by (auto simp: redb_begin_def redb_materialize_def split: option.splits)
  show "so_rows (redb_session_ops R) (so_commit (redb_session_ops R) s) t = so_rows (redb_session_ops R) s t"
    if "redb_inv dinv s" "redb_has R s t"
    using commit_view(2) [OF that(1)] that(2) by (simp add: redb_has_def)
  show "redb_has R (so_create_table (redb_session_ops R) s t) t" if "redb_inv dinv s"
    using that by (simp add: redb_has_def redb_create_table_def redb_inv_def rows_open)
  show "redb_inv dinv s \<Longrightarrow> redb_inv dinv (so_put (redb_session_ops R) s t k v)"
    "redb_inv dinv s \<Longrightarrow> redb_inv dinv (so_del (redb_session_ops R) s t k)"
    "redb_inv dinv s \<Longrightarrow> redb_inv dinv (so_commit (redb_session_ops R) s)"
    by (simp_all add: do_write_inv commit_view(1))
  show "redb_inv dinv s \<Longrightarrow> redb_has R s t' \<Longrightarrow> redb_has R (so_put (redb_session_ops R) s t k v) t'"
    "redb_inv dinv s \<Longrightarrow> redb_has R s t' \<Longrightarrow> redb_has R (so_del (redb_session_ops R) s t k) t'"
    "redb_inv dinv s \<Longrightarrow> redb_has R s t' \<Longrightarrow> redb_has R (so_commit (redb_session_ops R) s) t'"
    by (simp_all add: do_write_has commit_view(3))
qed (auto simp: redb_inv_def redb_has_def redb_begin_def redb_commit_def redb_rollback_def
    do_write_def write_immediate_def redb_committed_def redb_materialize_def split: option.splits)

section \<open>Sequences of writes\<close>

definition redb_writes :: "'d redb_ops \<Rightarrow> 'd redb_session \<Rightarrow> (string \<times> pending_write) list \<Rightarrow> 'd redb_session" where
  "redb_writes R s ws = foldl (\<lambda>s (t, op). do_write R s t op) s ws"

lemma redb_writes_simps [simp]:
  "redb_writes R s [] = s"
  "redb_writes R s ((t, op) # ws) = redb_writes R (do_write R s t op) ws"
  by (simp_all add: redb_writes_def)

lemma do_write_in_txn:
  "rs_in_txn (do_write R s t op) = rs_in_txn s"
  "rs_in_txn s \<Longrightarrow> rs_db (do_write R s t op) = rs_db s"
  by (simp_all add: do_write_def write_immediate_def)

lemma redb_writes_in_txn:
  "rs_in_txn (redb_writes R s ws) = rs_in_txn s"
  "rs_in_txn s \<Longrightarrow> rs_db (redb_writes R s ws) = rs_db s"
  by (induction ws arbitrary: s) (auto simp: do_write_in_txn)

lemma redb_search_committed:
  "redb_search R (redb_writes R (redb_begin s) ws) t k = redb_search R s t k"
proof -
  have "rs_db (redb_writes R (redb_begin s) ws) = rs_db s"
    by (subst redb_writes_in_txn(2)) (simp_all add: redb_begin_def)
  then show ?thesis unfolding redb_search_def by (simp only:)
qed

context redb_db
begin

lemma writes_inv:
  "redb_inv dinv s \<Longrightarrow> redb_inv dinv (redb_writes R s ws)"
  "redb_inv dinv s \<Longrightarrow> redb_has R s t \<Longrightarrow> redb_has R (redb_writes R s ws) t"
  by (induction ws arbitrary: s) (auto simp: do_write_inv do_write_has)

text \<open>Two sessions with the same view keep it under the same writes, buffered or not.\<close>

lemma writes_view_cong:
  assumes "redb_inv dinv s" and "redb_inv dinv s'"
    and "\<And>t. redb_materialize R s t = redb_materialize R s' t"
    and "\<And>t op. (t, op) \<in> set ws \<Longrightarrow> redb_has R s t \<and> redb_has R s' t"
  shows "redb_materialize R (redb_writes R s ws) t = redb_materialize R (redb_writes R s' ws) t"
  using assms
proof (induction ws arbitrary: s s')
  case (Cons w ws)
  obtain t' op where w: "w = (t', op)" by (cases w)
  have has: "redb_has R s t'" "redb_has R s' t'" using Cons.prems(4) [of t' op] by (simp_all add: w)
  have tail: "redb_has R s t \<and> redb_has R s' t" if "(t, op) \<in> set ws" for t op
    using Cons.prems(4) [of t op] that by simp
  show ?case unfolding w redb_writes_simps
    by (rule Cons.IH)
       (use Cons.prems(1-3) has tail in \<open>auto simp: do_write_inv do_write_has do_write_view\<close>)
qed simp

lemma txn_writes:
  fixes s ws
  assumes inv: "redb_inv dinv s" and out: "\<not> rs_in_txn s"
    and has: "\<And>t op. (t, op) \<in> set ws \<Longrightarrow> redb_has R s t"
  defines "u \<equiv> redb_writes R (redb_begin s) ws"
  shows "redb_materialize R u t = redb_materialize R (redb_writes R s ws) t"
    and "redb_has R s t \<Longrightarrow> redb_materialize R (redb_commit R u) t = redb_materialize R (redb_writes R s ws) t"
    and "redb_materialize R (redb_rollback u) t = redb_materialize R s t"
proof -
  have b: "redb_inv dinv (redb_begin s)" "\<And>t. redb_has R (redb_begin s) t = redb_has R s t"
    using inv by (simp_all add: redb_inv_def redb_begin_def redb_has_def)
  have v: "redb_materialize R (redb_begin s) t' = redb_materialize R s t'" for t'
    using out by (simp add: redb_begin_def redb_materialize_def split: option.split)
  show view: "redb_materialize R u t = redb_materialize R (redb_writes R s ws) t"
    unfolding u_def by (rule writes_view_cong) (use b v inv has in auto)
  have u: "redb_inv dinv u" "rs_db u = rs_db s"
    unfolding u_def using b(1) by (simp_all add: writes_inv redb_writes_in_txn redb_begin_def)
  show "redb_materialize R (redb_commit R u) t = redb_materialize R (redb_writes R s ws) t" if "redb_has R s t"
    using commit_view(2) [OF u(1), of t] that view u(2) by (simp add: redb_has_def)
  show "redb_materialize R (redb_rollback u) t = redb_materialize R s t"
    using u(2) out by (simp add: redb_rollback_def redb_materialize_def split: option.split)
qed

lemma inserts_rows:
  assumes "dinv d" and "rd_rows R d t = Some r"
  shows "dinv (foldl (\<lambda>d (k, v). rd_insert R d t k v) d kvs) \<and>
    rd_rows R (foldl (\<lambda>d (k, v). rd_insert R d t k v) d kvs) t' =
      (if t' = t then Some (foldl (\<lambda>r (k, v). bt_insert k v r) r kvs) else rd_rows R d t')"
  using assms by (induction kvs arbitrary: d r) (auto simp: dinv_insert rows_insert)

end

lemma foldl_bt_insert:
  "bt_ok r \<Longrightarrow> bt_ok (foldl (\<lambda>r (k, v). bt_insert k v r) r kvs)"
  "distinct (map fst kvs) \<Longrightarrow> map_of (foldl (\<lambda>r (k, v). bt_insert k v r) r kvs) = map_of r ++ map_of kvs"
proof (induction kvs arbitrary: r)
  case (Cons kv kvs)
  { case 1 then show ?case by (cases kv) (simp add: Cons.IH) }
  { case 2 then show ?case using Cons.IH(2) [of "bt_insert (fst kv) (snd kv) r"]
      by (cases kv) (auto simp: fun_eq_iff map_add_def map_of_eq_None_iff dest: map_of_SomeD split: option.splits) }
qed simp_all

section \<open>An ordered map as the database\<close>

definition btree_redb :: "mem_tables redb_ops" where
  "btree_redb = \<lparr>
     rd_rows = map_of,
     rd_get = (\<lambda>T t k. Option.bind (map_of T t) (\<lambda>r. map_of r k)),
     rd_open = mem_create_table,
     rd_insert = mem_put,
     rd_remove = mem_del,
     rd_delete = mem_drop_table,
     rd_already_open = (\<lambda>t. t)\<rparr>"

interpretation btree_redb: redb_db btree_redb mem_inv
  by unfold_locales
     (auto simp: btree_redb_def mem_inv_put mem_inv_del mem_inv_tables mem_put_def mem_del_def mem_rows_def
       mem_create_table_def mem_drop_table_def mem_inv_def split: option.splits)

lemmas btree_redb_eval = btree_redb_def redb_inv_def redb_has_def redb_open_session_def redb_begin_def
  redb_commit_def redb_rollback_def redb_materialize_def do_write_def write_immediate_def apply_write_def
  mem_inv_def mem_put_def mem_rows_def mem_create_table_def

section \<open>Properties\<close>

text \<open>
  C11. Transactions of the redb session are atomic.  A transaction that makes a sequence of writes
  to existing tables reads, through its cursors, exactly what the same writes would have left had
  each been made outside a transaction; committing keeps that, and rolling back restores every
  table to what it was before the transaction began.
\<close>

theorem redb_transaction_atomic:
  assumes "redb_db R dinv" and "redb_inv dinv s" and "\<not> rs_in_txn s"
    and "\<And>t op. (t, op) \<in> set ws \<Longrightarrow> redb_has R s t" and "redb_has R s t"
  shows "redb_materialize R (redb_writes R (redb_begin s) ws) t = redb_materialize R (redb_writes R s ws) t \<and>
    redb_materialize R (redb_commit R (redb_writes R (redb_begin s) ws)) t = redb_materialize R (redb_writes R s ws) t \<and>
    redb_materialize R (redb_rollback (redb_writes R (redb_begin s) ws)) t = redb_materialize R s t"
  using redb_db.txn_writes [OF assms(1-3), of ws] assms(4,5) by blast

theorem redb_transaction_atomic_witness:
  "let s = redb_open_session [(''t'', [([1], [10])])]; ws = [(''t'', PInsert [2] [20]), (''t'', PRemove [1])] in
   redb_materialize btree_redb (redb_commit btree_redb (redb_writes btree_redb (redb_begin s) ws)) ''t'' =
   redb_materialize btree_redb (redb_writes btree_redb s ws) ''t''"
proof -
  let ?s = "redb_open_session [(''t'', [([1], [10])])]" and ?ws = "[(''t'', PInsert [2] [20]), (''t'', PRemove [1])]"
  have "redb_inv mem_inv ?s" "\<not> rs_in_txn ?s" "redb_has btree_redb ?s ''t''"
    by (simp_all add: btree_redb_eval)
  then show ?thesis
    unfolding Let_def
    by (intro redb_transaction_atomic [OF btree_redb.redb_db_axioms, THEN conjunct2, THEN conjunct1]) auto
qed

text \<open>
  C12. Point lookups do not see a transaction's own writes: inside a transaction \<open>search\<close> answers as
  it did before the transaction, although an iterating cursor of the same session sees the
  writes.
\<close>

theorem redb_search_ignores_buffer:
  "redb_search R (redb_writes R (redb_begin s) ws) t k = redb_search R s t k \<and>
   redb_materialize btree_redb (redb_writes btree_redb (redb_begin (redb_open_session [(''t'', [])])) [(''t'', PInsert [1] [10])]) ''t''
     = [([1], [10])]"
  by (rule conjI, rule redb_search_committed) (simp add: btree_redb_eval merge_write_def)

text \<open>
  \<open>rename_table\<close> moves the rows of the source to the destination and removes the source.  It
  never reports a missing source (opening a table for writing creates it) and it keeps the rows of an
  existing destination whose keys the source does not have.
\<close>

theorem redb_rename_table_merges:
  assumes "redb_db R dinv" and "dinv (rs_db s)" and "frm \<noteq> to"
  shows "\<exists>s' r. redb_rename_table R s frm to = Inr s' \<and> rd_rows R (rs_db s') frm = None \<and>
    rd_rows R (rs_db s') to = Some r \<and>
    map_of r = map_of (redb_committed R s to) ++ map_of (redb_committed R s frm) \<and>
    (\<forall>t. t = frm \<or> t = to \<or> rd_rows R (rs_db s') t = rd_rows R (rs_db s) t)"
proof -
  note db = redb_db.rows_open [OF assms(1)] redb_db.dinv_open [OF assms(1)] redb_db.rows_delete [OF assms(1)]
  let ?rows = "redb_committed R s frm" and ?d = "rd_open R (rd_open R (rs_db s) frm) to"
  let ?i = "foldl (\<lambda>db (k, v). rd_insert R db to k v) ?d ?rows"
  have d: "dinv ?d" "rd_rows R ?d to = Some (redb_committed R s to)"
    using assms(2,3) by (simp_all add: db redb_committed_def)
  have bt: "bt_ok ?rows"
    using redb_db.rows_sorted [OF assms(1,2), of frm] by (cases "rd_rows R (rs_db s) frm") (simp_all add: redb_committed_def)
  note i = redb_db.inserts_rows [OF assms(1) d, of ?rows]
  have "redb_rename_table R s frm to = Inr (s\<lparr>rs_db := rd_delete R ?i frm\<rparr>)"
    using assms(2,3) by (simp add: redb_rename_table_def db redb_committed_def)
  moreover have "map_of (foldl (\<lambda>r (k, v). bt_insert k v r) (redb_committed R s to) ?rows) =
      map_of (redb_committed R s to) ++ map_of ?rows"
    by (rule foldl_bt_insert(2)) (rule bt_ok_distinct [OF bt])
  ultimately show ?thesis using i assms(2,3) by (auto simp: db)
qed

theorem redb_rename_table_merges_witness:
  "\<exists>s' r. redb_rename_table btree_redb (redb_open_session [(''a'', [([1], [10])]), (''b'', [([2], [20])])]) ''a'' ''b'' = Inr s' \<and>
     rd_rows btree_redb (rs_db s') ''b'' = Some r \<and> map_of r [1] = Some [10] \<and> map_of r [2] = Some [20]"
proof -
  let ?s = "redb_open_session [(''a'', [([1], [10])]), (''b'', [([2], [20])])]"
  have "mem_inv (rs_db ?s)" by (simp add: redb_open_session_def mem_inv_def)
  from redb_rename_table_merges [OF btree_redb.redb_db_axioms this, of "''a''" "''b''"]
  obtain s' r where "redb_rename_table btree_redb ?s ''a'' ''b'' = Inr s'" "rd_rows btree_redb (rs_db s') ''b'' = Some r"
    and m: "map_of r = map_of (redb_committed btree_redb ?s ''b'') ++ map_of (redb_committed btree_redb ?s ''a'')"
    by auto
  moreover have "map_of r [1] = Some [10]" "map_of r [2] = Some [20]"
    unfolding m by (simp_all add: redb_open_session_def redb_committed_def btree_redb_def)
  ultimately show ?thesis by blast
qed

end
