(* ===== verification/Schema.thy ===== *)
theory Schema
  imports Paths Externs
begin

text \<open>
  Validation of documents against a \<^verbatim>\<open>$jsonSchema\<close> (\<^verbatim>\<open>schema.rs\<close>): the checks of one value, the
  mutually recursive walk over a value and its schema, and a reference predicate
  \<open>conforms\<close> that the walk decides for schemas within the nesting limit.
\<close>

section \<open>Checks of one value\<close>

abbreviation max_nesting_depth :: nat where
  "max_nesting_depth \<equiv> 100"

abbreviation max_regex_pattern_len :: nat where
  "max_regex_pattern_len \<equiv> 1024"

record validation_error =
  ve_path :: string
  ve_message :: string

definition verr :: "string \<Rightarrow> string \<Rightarrow> validation_error" where
  "verr path message = \<lparr>ve_path = path, ve_message = message\<rparr>"

definition quoted :: "string \<Rightarrow> string" where
  "quoted s = CHR 0x27 # s @ [CHR 0x27]"

definition join_path :: "string \<Rightarrow> string \<Rightarrow> string" where
  "join_path base field = (if base = [] then field else base @ ''.'' @ field)"

fun bson_type_name :: "bson \<Rightarrow> string" where
  "bson_type_name (Double _) = ''double''"
| "bson_type_name (Str _) = ''string''"
| "bson_type_name (Document _) = ''object''"
| "bson_type_name (Array _) = ''array''"
| "bson_type_name (Boolean _) = ''bool''"
| "bson_type_name Null = ''null''"
| "bson_type_name (Int32 _) = ''int''"
| "bson_type_name (Int64 _) = ''long''"
| "bson_type_name (ObjectId _) = ''objectId''"
| "bson_type_name (DateTime _) = ''date''"
| "bson_type_name (RegularExpression _ _) = ''regex''"
| "bson_type_name (Binary _ _) = ''binData''"
| "bson_type_name _ = ''unknown''"

definition is_numeric :: "bson \<Rightarrow> bool" where
  "is_numeric v = (case v of Int32 _ \<Rightarrow> True | Int64 _ \<Rightarrow> True | Double _ \<Rightarrow> True | _ \<Rightarrow> False)"

definition check_bson_type :: "bson \<Rightarrow> string \<Rightarrow> bool" where
  "check_bson_type v name =
     (if name = ''number'' then is_numeric v
      else if name = ''boolean'' then bson_type_name v = ''bool''
      else if name \<in> {''string'', ''int'', ''long'', ''double'', ''bool'', ''object'', ''array'', ''null'',
                       ''objectId'', ''date'', ''regex'', ''binData''}
      then bson_type_name v = name
      else False)"

definition check_bson_type_name :: "string \<Rightarrow> bson \<Rightarrow> bool" where
  "check_bson_type_name actual type_spec = (case type_spec of
     Str s \<Rightarrow> s = actual
   | Array arr \<Rightarrow> list_ex (\<lambda>t. as_str t = Some actual) arr
   | _ \<Rightarrow> True)"

definition check_type_spec :: "bson \<Rightarrow> bson \<Rightarrow> bool" where
  "check_type_spec v type_spec = (case type_spec of
     Str s \<Rightarrow> check_bson_type v s
   | Array arr \<Rightarrow> list_ex (\<lambda>t. case as_str t of Some s \<Rightarrow> check_bson_type v s | None \<Rightarrow> False) arr
   | _ \<Rightarrow> True)"

definition type_spec_label :: "bson \<Rightarrow> string" where
  "type_spec_label type_spec = (case type_spec of
     Str s \<Rightarrow> s
   | Array arr \<Rightarrow> ''['' @ join_with '', '' (List.map_filter as_str arr) @ '']''
   | _ \<Rightarrow> ''unknown'')"

definition schema_type :: "doc \<Rightarrow> bson option" where
  "schema_type schema = (case doc_get schema ''bsonType'' of Some t \<Rightarrow> Some t | None \<Rightarrow> doc_get schema ''type'')"

definition names_null :: "bson \<Rightarrow> bool" where
  "names_null type_spec \<longleftrightarrow> type_spec = Str ''null'' \<or>
     (case as_array_opt type_spec of Some arr \<Rightarrow> list_ex (\<lambda>t. as_str t = Some ''null'') arr | None \<Rightarrow> False)"

definition type_error :: "bson \<Rightarrow> bson \<Rightarrow> string \<Rightarrow> validation_error" where
  "type_error v type_spec path = verr path
     (''Expected type '' @ type_spec_label type_spec @ '', got '' @ CHR 0x22 # bson_type_name v @ [CHR 0x22])"

definition check_type :: "bson \<Rightarrow> doc \<Rightarrow> string \<Rightarrow> validation_error + unit" where
  "check_type v schema path = (case schema_type schema of
     Some type_spec \<Rightarrow> ensure (check_type_spec v type_spec) (type_error v type_spec path)
   | None \<Rightarrow> Inr ())"

definition schema_num :: "doc \<Rightarrow> string \<Rightarrow> f64 option" where
  "schema_num schema key = Option.bind (doc_get schema key) as_f64"

text \<open>A bound given by a number of the schema.\<close>

definition check_bound :: "doc \<Rightarrow> string \<Rightarrow> (f64 \<Rightarrow> bool) \<Rightarrow> (f64 \<Rightarrow> validation_error) \<Rightarrow> validation_error + unit" where
  "check_bound schema key ok err = (case schema_num schema key of
     Some b \<Rightarrow> ensure (ok b) (err b)
   | None \<Rightarrow> Inr ())"

definition f64_len :: "'a list \<Rightarrow> f64" where
  "f64_len xs = f64_of_int (int (length xs))"

definition check_numeric :: "externs \<Rightarrow> f64 \<Rightarrow> doc \<Rightarrow> string \<Rightarrow> validation_error + unit" where
  "check_numeric X n schema path =
     (let pr = x_f64_to_string X; msg = (\<lambda>what b. verr path (''Value '' @ pr n @ what @ pr b)) in
      res_then (check_bound schema ''minimum'' (\<lambda>b. \<not> f64_lt n b) (msg '' is less than minimum '')) (
      res_then (check_bound schema ''maximum'' (\<lambda>b. \<not> f64_gt n b) (msg '' is greater than maximum '')) (
      res_then (check_bound schema ''exclusiveMinimum'' (\<lambda>b. \<not> f64_le n b) (msg '' must be greater than '')) (
      check_bound schema ''exclusiveMaximum'' (\<lambda>b. \<not> f64_ge n b) (msg '' must be less than '')))))"

definition check_pattern :: "externs \<Rightarrow> string \<Rightarrow> string \<Rightarrow> string \<Rightarrow> validation_error + unit" where
  "check_pattern X s pattern path =
     (if max_regex_pattern_len < length pattern
      then Inl (verr path (''Pattern too long ('' @ show_nat (length pattern) @ '' chars, max '' @ show_nat max_regex_pattern_len @ '')''))
      else case x_regex_is_match X pattern s of
        Some matches \<Rightarrow> ensure matches (verr path (''String '' @ quoted s @ '' does not match pattern '' @ quoted pattern))
      | None \<Rightarrow> Inl (verr path (''Invalid regex pattern '' @ quoted pattern @ '': '' @ x_regex_error X pattern)))"

definition check_string :: "externs \<Rightarrow> string \<Rightarrow> doc \<Rightarrow> string \<Rightarrow> validation_error + unit" where
  "check_string X s schema path =
     (let msg = (\<lambda>what b. verr path (''String length '' @ show_nat (length s) @ what @ show_int (f64_to_i64 b))) in
      res_then (check_bound schema ''minLength'' (\<lambda>b. \<not> f64_lt (f64_len s) b) (msg '' is less than minLength '')) (
      res_then (check_bound schema ''maxLength'' (\<lambda>b. \<not> f64_gt (f64_len s) b) (msg '' exceeds maxLength '')) (
      case Option.bind (doc_get schema ''pattern'') as_str of
        Some pattern \<Rightarrow> check_pattern X s pattern path
      | None \<Rightarrow> Inr ())))"

definition validate_scalar :: "externs \<Rightarrow> bson \<Rightarrow> doc \<Rightarrow> string \<Rightarrow> validation_error + unit" where
  "validate_scalar X v schema path =
     res_then (if is_numeric v then check_numeric X (opt_or f64_zero (as_f64 v)) schema path else Inr ()) (
     res_then (case as_str v of Some s \<Rightarrow> check_string X s schema path | None \<Rightarrow> Inr ()) (
     case Option.bind (doc_get schema ''enum'') as_array_opt of
       Some enum_vals \<Rightarrow> ensure (list_ex (\<lambda>e. x_bson_eq X e v) enum_vals) (verr path (''Value '' @ x_bson_debug X v @ '' not in enum''))
     | None \<Rightarrow> Inr ()))"

text \<open>The first pair of equal elements, in the order of the two loops.\<close>

definition first_duplicate :: "externs \<Rightarrow> bson list \<Rightarrow> (nat \<times> nat) option" where
  "first_duplicate X arr = find (\<lambda>(i, j). x_bson_eq X (arr ! i) (arr ! j))
     (concat (map (\<lambda>i. map (\<lambda>j. (i, j)) [i + 1..<length arr]) [0..<length arr]))"

definition check_items :: "externs \<Rightarrow> bson list \<Rightarrow> doc \<Rightarrow> string \<Rightarrow> validation_error + unit" where
  "check_items X arr schema path =
     (let msg = (\<lambda>what b. verr path (''Array has '' @ show_nat (length arr) @ '' items, '' @ what @ show_int (f64_to_i64 b))) in
      res_then (check_bound schema ''minItems'' (\<lambda>b. \<not> f64_lt (f64_len arr) b) (msg ''minimum is '')) (
      res_then (check_bound schema ''maxItems'' (\<lambda>b. \<not> f64_gt (f64_len arr) b) (msg ''maximum is '')) (
      if doc_get schema ''uniqueItems'' = Some (Boolean True) then
        (case first_duplicate X arr of
           Some (i, j) \<Rightarrow> Inl (verr path (''Array items at index '' @ show_nat i @ '' and '' @ show_nat j @ '' are not unique''))
         | None \<Rightarrow> Inr ())
      else Inr ())))"

definition check_required :: "doc \<Rightarrow> doc \<Rightarrow> string \<Rightarrow> validation_error + unit" where
  "check_required d schema path = (case Option.bind (doc_get schema ''required'') as_array_opt of
     Some required \<Rightarrow> each_res (\<lambda>name. ensure (doc_get d name \<noteq> None)
         (verr (join_path path name) (''Required field '' @ quoted name @ '' is missing'')))
       (List.map_filter as_str required)
   | None \<Rightarrow> Inr ())"

definition check_additional :: "doc \<Rightarrow> doc \<Rightarrow> string \<Rightarrow> validation_error + unit" where
  "check_additional d schema path =
     (case (doc_get schema ''additionalProperties'', Option.bind (doc_get schema ''properties'') as_document) of
        (Some (Boolean False), Some properties) \<Rightarrow>
          each_res (\<lambda>key. ensure (key = ''_id'' \<or> doc_get properties key \<noteq> None)
            (verr (join_path path key) (''Additional property '' @ quoted key @ '' not allowed''))) (map fst d)
      | _ \<Rightarrow> Inr ())"

definition check_size :: "doc \<Rightarrow> doc \<Rightarrow> string \<Rightarrow> validation_error + unit" where
  "check_size d schema path =
     (let msg = (\<lambda>what b. verr path (''Document has '' @ show_nat (length d) @ '' properties, '' @ what @ show_int (f64_to_i64 b))) in
      res_then (check_bound schema ''minProperties'' (\<lambda>b. \<not> f64_lt (f64_len d) b) (msg ''minimum is '')) (
      check_bound schema ''maxProperties'' (\<lambda>b. \<not> f64_gt (f64_len d) b) (msg ''maximum is '')))"

section \<open>The schemas inside a schema\<close>

definition sub_schemas :: "doc \<Rightarrow> string \<Rightarrow> (nat \<times> doc) list option" where
  "sub_schemas schema key = map_option (\<lambda>schemas.
       List.map_filter (\<lambda>(i, s). map_option (Pair i) (as_document s)) (zip [0..<length schemas] schemas))
     (Option.bind (doc_get schema key) as_array_opt)"

definition property_schemas :: "doc \<Rightarrow> doc \<Rightarrow> (string \<times> bson \<times> doc) list" where
  "property_schemas d schema = (case Option.bind (doc_get schema ''properties'') as_document of
     Some properties \<Rightarrow> List.map_filter (\<lambda>(field, sub). case (doc_get d field, as_document sub) of
         (Some v, Some s) \<Rightarrow> Some (field, v, s) | _ \<Rightarrow> None) properties
   | None \<Rightarrow> [])"

lemma sub_schemas_nodes:
  assumes "sub_schemas schema key = Some subs" "(i, s) \<in> set subs"
  shows "bson_nodes (Document s) < bson_nodes (Document schema)"
proof -
  from assms obtain xs where "doc_get schema key = Some (Array xs)" "Document s \<in> set xs"
    by (auto simp: sub_schemas_def map_filter_def bind_eq_Some_conv dest!: set_zip_rightD)
  then show ?thesis using bson_nodes_item [of "Document s" xs]
      bson_nodes_field [OF map_of_SomeD, of schema key "Array xs"] by simp
qed

lemma property_schemas_nodes:
  assumes "(field, v, s) \<in> set (property_schemas d schema)"
  shows "bson_nodes (Document s) < bson_nodes (Document schema)"
proof -
  from assms obtain props where "doc_get schema ''properties'' = Some (Document props)" "(field, Document s) \<in> set props"
    by (cases "Option.bind (doc_get schema ''properties'') as_document")
      (auto simp: property_schemas_def map_filter_def bind_eq_Some_conv split: option.splits)
  then show ?thesis using bson_nodes_field [of field "Document s" props]
      bson_nodes_field [OF map_of_SomeD, of schema "''properties''" "Document props"] by simp
qed

lemma inner_schema_nodes:
  "Option.bind (doc_get schema key) as_document = Some s \<Longrightarrow> bson_nodes (Document s) < bson_nodes (Document schema)"
  using bson_nodes_field [OF map_of_SomeD, of schema key "Document s"] by (auto simp: bind_eq_Some_conv)

section \<open>The validator\<close>

function
    validate_value :: "externs \<Rightarrow> bson \<Rightarrow> doc \<Rightarrow> string \<Rightarrow> nat \<Rightarrow> validation_error + unit"
and validate_object :: "externs \<Rightarrow> bson \<Rightarrow> doc \<Rightarrow> string \<Rightarrow> nat \<Rightarrow> validation_error + unit"
and validate_doc_fields :: "externs \<Rightarrow> doc \<Rightarrow> doc \<Rightarrow> string \<Rightarrow> nat \<Rightarrow> validation_error + unit"
and validate_combinators :: "externs \<Rightarrow> bson \<Rightarrow> doc \<Rightarrow> string \<Rightarrow> nat \<Rightarrow> validation_error + unit"
and validate_array :: "externs \<Rightarrow> bson list \<Rightarrow> doc \<Rightarrow> string \<Rightarrow> nat \<Rightarrow> validation_error + unit"
where
  "validate_value X v schema path depth =
     (if v = Null \<and> (case schema_type schema of Some t \<Rightarrow> names_null t | None \<Rightarrow> False) then Inr ()
      else res_then (check_type v schema path) (
        res_then (validate_combinators X v schema path depth) (
        case as_document v of
          Some _ \<Rightarrow> validate_object X v schema path depth
        | None \<Rightarrow> (case as_array_opt v of
            Some arr \<Rightarrow> validate_array X arr schema path depth
          | None \<Rightarrow> validate_scalar X v schema path))))"
| "validate_object X v schema path depth =
     (if max_nesting_depth < depth
      then Inl (verr path (''Maximum nesting depth ('' @ show_nat max_nesting_depth @ '') exceeded''))
      else if v = Null \<and> (case schema_type schema of Some t \<Rightarrow> \<not> check_type_spec v t \<and> names_null t | None \<Rightarrow> False) then Inr ()
      else res_then (check_type v schema path) (
        case as_document v of
          Some d \<Rightarrow> validate_doc_fields X d schema path depth
        | None \<Rightarrow> (case as_array_opt v of
            Some arr \<Rightarrow> validate_array X arr schema path depth
          | None \<Rightarrow> validate_scalar X v schema path)))"
| "validate_doc_fields X d schema path depth =
     res_then (check_required d schema path) (
     res_then (each_res (\<lambda>(field, v, s). validate_value X v s (join_path path field) (depth + 1))
        (property_schemas d schema)) (
     res_then (check_additional d schema path) (
     res_then (check_size d schema path) (
     validate_combinators X (Document d) schema path depth))))"
| "validate_combinators X v schema path depth =
     res_then (case sub_schemas schema ''allOf'' of
         Some subs \<Rightarrow> each_res (\<lambda>(i, s). map_err
             (\<lambda>e. verr (ve_path e) (''allOf['' @ show_nat i @ '']: '' @ ve_message e))
             (validate_value X v s path (depth + 1))) subs
       | None \<Rightarrow> Inr ()) (
     res_then (case sub_schemas schema ''anyOf'' of
         Some subs \<Rightarrow> ensure (list_ex (\<lambda>(i, s). is_ok (validate_value X v s path (depth + 1))) subs)
             (verr path ''Value does not match any schema in anyOf'')
       | None \<Rightarrow> Inr ()) (
     res_then (case sub_schemas schema ''oneOf'' of
         Some subs \<Rightarrow>
           (let match_count = min 2 (length (filter (\<lambda>(i, s). is_ok (validate_value X v s path (depth + 1))) subs)) in
            ensure (match_count = 1)
              (verr path (''Value must match exactly one schema in oneOf, but matched '' @ show_nat match_count)))
       | None \<Rightarrow> Inr ()) (
     case Option.bind (doc_get schema ''not'') as_document of
       Some s \<Rightarrow> ensure (\<not> is_ok (validate_value X v s path (depth + 1)))
           (verr path (''Value must not match the schema in '' @ quoted ''not''))
     | None \<Rightarrow> Inr ())))"
| "validate_array X arr schema path depth =
     res_then (check_items X arr schema path) (
     case Option.bind (doc_get schema ''items'') as_document of
       Some s \<Rightarrow> each_res (\<lambda>(i, item). validate_value X item s (path @ ''['' @ show_nat i @ '']'') (depth + 1))
           (zip [0..<length arr] arr)
     | None \<Rightarrow> Inr ())"
  by pat_completeness auto

termination
  by (relation "measure (case_sum
      (case_sum (\<lambda>(X, v, s, p, n). 4 * bson_nodes (Document s) + 3) (\<lambda>(X, v, s, p, n). 4 * bson_nodes (Document s) + 2))
      (case_sum (\<lambda>(X, d, s, p, n). 4 * bson_nodes (Document s) + 1)
        (case_sum (\<lambda>(X, v, s, p, n). 4 * bson_nodes (Document s)) (\<lambda>(X, a, s, p, n). 4 * bson_nodes (Document s)))))")
    (auto simp del: bson_nodes.simps dest!: sub_schemas_nodes property_schemas_nodes inner_schema_nodes)

definition validate_document :: "externs \<Rightarrow> doc \<Rightarrow> doc \<Rightarrow> validation_error + unit" where
  "validate_document X d schema =
     (if schema = [] then Inr ()
      else res_then (case schema_type schema of
          Some type_spec \<Rightarrow> ensure (check_bson_type_name ''object'' type_spec) (type_error (Document d) type_spec '''')
        | None \<Rightarrow> Inr ()) (
        validate_doc_fields X d schema '''' 0))"

declare validate_value.simps [simp del] validate_object.simps [simp del] validate_doc_fields.simps [simp del]
  validate_combinators.simps [simp del] validate_array.simps [simp del]

section \<open>What a schema means\<close>

definition bound_ok :: "doc \<Rightarrow> string \<Rightarrow> (f64 \<Rightarrow> bool) \<Rightarrow> bool" where
  "bound_ok schema key ok \<longleftrightarrow> (\<forall>b. schema_num schema key = Some b \<longrightarrow> ok b)"

lemma check_bound_ok [simp]: "check_bound schema key ok err = Inr u \<longleftrightarrow> bound_ok schema key ok"
  by (auto simp: check_bound_def bound_ok_def split: option.splits)

definition scalar_ok :: "externs \<Rightarrow> bson \<Rightarrow> doc \<Rightarrow> bool" where
  "scalar_ok X v schema \<longleftrightarrow>
     (\<forall>n. as_f64 v = Some n \<longrightarrow>
        bound_ok schema ''minimum'' (\<lambda>b. \<not> f64_lt n b) \<and> bound_ok schema ''maximum'' (\<lambda>b. \<not> f64_lt b n) \<and>
        bound_ok schema ''exclusiveMinimum'' (\<lambda>b. \<not> f64_le n b) \<and> bound_ok schema ''exclusiveMaximum'' (\<lambda>b. \<not> f64_le b n)) \<and>
     (\<forall>s. v = Str s \<longrightarrow>
        bound_ok schema ''minLength'' (\<lambda>b. \<not> f64_lt (f64_len s) b) \<and> bound_ok schema ''maxLength'' (\<lambda>b. \<not> f64_lt b (f64_len s)) \<and>
        (\<forall>p. doc_get schema ''pattern'' = Some (Str p) \<longrightarrow> length p \<le> 1024 \<and> x_regex_is_match X p s = Some True)) \<and>
     (\<forall>vals. doc_get schema ''enum'' = Some (Array vals) \<longrightarrow> (\<exists>e \<in> set vals. x_bson_eq X e v))"

definition items_ok :: "externs \<Rightarrow> bson list \<Rightarrow> doc \<Rightarrow> bool" where
  "items_ok X arr schema \<longleftrightarrow>
     bound_ok schema ''minItems'' (\<lambda>b. \<not> f64_lt (f64_len arr) b) \<and> bound_ok schema ''maxItems'' (\<lambda>b. \<not> f64_lt b (f64_len arr)) \<and>
     (doc_get schema ''uniqueItems'' = Some (Boolean True) \<longrightarrow>
        (\<forall>j < length arr. \<forall>i < j. \<not> x_bson_eq X (arr ! i) (arr ! j)))"

definition fields_ok :: "doc \<Rightarrow> doc \<Rightarrow> bool" where
  "fields_ok d schema \<longleftrightarrow>
     (\<forall>names. doc_get schema ''required'' = Some (Array names) \<longrightarrow> (\<forall>name. Str name \<in> set names \<longrightarrow> doc_get d name \<noteq> None)) \<and>
     (\<forall>props. doc_get schema ''additionalProperties'' = Some (Boolean False) \<longrightarrow> doc_get schema ''properties'' = Some (Document props) \<longrightarrow>
        (\<forall>k \<in> fst ` set d. k = ''_id'' \<or> doc_get props k \<noteq> None)) \<and>
     bound_ok schema ''minProperties'' (\<lambda>b. \<not> f64_lt (f64_len d) b) \<and> bound_ok schema ''maxProperties'' (\<lambda>b. \<not> f64_lt b (f64_len d))"

definition schema_accepts_null :: "doc \<Rightarrow> bool" where
  "schema_accepts_null schema = (case schema_type schema of Some t \<Rightarrow> names_null t | None \<Rightarrow> False)"

definition has_type :: "bson \<Rightarrow> doc \<Rightarrow> bool" where
  "has_type v schema \<longleftrightarrow> (\<forall>t. schema_type schema = Some t \<longrightarrow> check_type_spec v t)"

text \<open>The reference meaning: no error values, paths or depth, every rule once.\<close>

function conforms :: "externs \<Rightarrow> bson \<Rightarrow> doc \<Rightarrow> bool" where
  "conforms X v schema \<longleftrightarrow> v = Null \<and> schema_accepts_null schema \<or>
     has_type v schema \<and>
     (case sub_schemas schema ''allOf'' of Some subs \<Rightarrow> list_all (\<lambda>(i, s). conforms X v s) subs | None \<Rightarrow> True) \<and>
     (case sub_schemas schema ''anyOf'' of Some subs \<Rightarrow> list_ex (\<lambda>(i, s). conforms X v s) subs | None \<Rightarrow> True) \<and>
     (case sub_schemas schema ''oneOf'' of Some subs \<Rightarrow> length (filter (\<lambda>(i, s). conforms X v s) subs) = 1 | None \<Rightarrow> True) \<and>
     (case Option.bind (doc_get schema ''not'') as_document of Some s \<Rightarrow> \<not> conforms X v s | None \<Rightarrow> True) \<and>
     (case as_document v of
        Some d \<Rightarrow> fields_ok d schema \<and> list_all (\<lambda>(field, w, s). conforms X w s) (property_schemas d schema)
      | None \<Rightarrow> (case as_array_opt v of
          Some arr \<Rightarrow> items_ok X arr schema \<and>
            (case Option.bind (doc_get schema ''items'') as_document of Some s \<Rightarrow> list_all (\<lambda>item. conforms X item s) arr | None \<Rightarrow> True)
        | None \<Rightarrow> scalar_ok X v schema))"
  by pat_completeness auto

termination
  by (relation "measure (\<lambda>(X, v, s). bson_nodes (Document s))")
    (auto simp del: bson_nodes.simps dest!: sub_schemas_nodes property_schemas_nodes inner_schema_nodes)

declare conforms.simps [simp del]

section \<open>The validator decides it\<close>

lemma check_type_ok: "check_type v schema path = Inr u \<longleftrightarrow> has_type v schema"
  by (auto simp: check_type_def has_type_def split: option.splits)

lemma is_numeric_iff: "is_numeric v \<longleftrightarrow> as_f64 v \<noteq> None"
  by (cases v) (simp_all add: is_numeric_def)

lemma validate_scalar_ok: "validate_scalar X v schema path = Inr u \<longleftrightarrow> scalar_ok X v schema"
  by (auto simp: validate_scalar_def scalar_ok_def check_numeric_def check_string_def check_pattern_def is_numeric_iff
    bind_eq_Some_conv list_ex_iff Let_def split: option.splits)

lemma set_pairs_below:
  "set (concat (map (\<lambda>i. map (\<lambda>j. (i, j)) [i + 1..<n]) [0..<n])) = {(i, j). i < j \<and> j < n}"
  by force

lemma first_duplicate_None:
  "first_duplicate X arr = None \<longleftrightarrow> (\<forall>j < length arr. \<forall>i < j. \<not> x_bson_eq X (arr ! i) (arr ! j))"
  unfolding first_duplicate_def find_None_iff set_pairs_below by auto

lemma check_items_ok: "check_items X arr schema path = Inr u \<longleftrightarrow> items_ok X arr schema"
  by (auto simp: check_items_def items_ok_def Let_def first_duplicate_None [symmetric] split: option.splits)

lemma set_map_filter_str: "set (List.map_filter as_str xs) = {s. Str s \<in> set xs}"
  by (force simp: map_filter_def)

lemma check_required_ok:
  "check_required d schema path = Inr u \<longleftrightarrow>
    (\<forall>names. doc_get schema ''required'' = Some (Array names) \<longrightarrow> (\<forall>name. Str name \<in> set names \<longrightarrow> doc_get d name \<noteq> None))"
  by (auto simp: check_required_def set_map_filter_str bind_eq_Some_conv split: option.split)

lemma check_additional_ok:
  "check_additional d schema path = Inr u \<longleftrightarrow>
    (\<forall>props. doc_get schema ''additionalProperties'' = Some (Boolean False) \<longrightarrow> doc_get schema ''properties'' = Some (Document props) \<longrightarrow>
      (\<forall>k \<in> fst ` set d. k = ''_id'' \<or> doc_get props k \<noteq> None))"
  by (auto simp: check_additional_def bind_eq_Some_conv split: option.split bson.split bool.split)

lemma check_fields_ok:
  "check_required d schema path = Inr () \<and> check_additional d schema path = Inr () \<and> check_size d schema path = Inr () \<longleftrightarrow>
    fields_ok d schema"
  unfolding check_required_ok check_additional_ok by (auto simp: check_size_def fields_ok_def Let_def)

text \<open>How deep a value nests; a schema inside a schema nests less.\<close>

fun bson_depth :: "bson \<Rightarrow> nat" where
  "bson_depth (Document d) = Suc (foldr (\<lambda>(_, v) m. max (bson_depth v) m) d 0)"
| "bson_depth (Array arr) = Suc (foldr (\<lambda>v m. max (bson_depth v) m) arr 0)"
| "bson_depth _ = 0"

lemma bson_depth_item: "v \<in> set arr \<Longrightarrow> bson_depth v < bson_depth (Array arr)"
  by (induction arr) (auto simp: less_Suc_eq_le)

lemma bson_depth_field: "(k, v) \<in> set d \<Longrightarrow> bson_depth v < bson_depth (Document d)"
  by (induction d) (auto simp: less_Suc_eq_le)

lemmas bson_depth_get = bson_depth_field [OF map_of_SomeD]

lemma sub_schemas_depth:
  assumes "sub_schemas schema key = Some subs" "(i, s) \<in> set subs"
  shows "bson_depth (Document s) < bson_depth (Document schema)"
proof -
  from assms obtain xs where "doc_get schema key = Some (Array xs)" "Document s \<in> set xs"
    by (auto simp: sub_schemas_def map_filter_def bind_eq_Some_conv dest!: set_zip_rightD)
  then show ?thesis using bson_depth_item bson_depth_get less_trans by blast
qed

lemma property_schemas_depth:
  assumes "(field, v, s) \<in> set (property_schemas d schema)"
  shows "bson_depth (Document s) < bson_depth (Document schema)"
proof -
  from assms obtain props where "doc_get schema ''properties'' = Some (Document props)" "(field, Document s) \<in> set props"
    by (cases "Option.bind (doc_get schema ''properties'') as_document")
      (auto simp: property_schemas_def map_filter_def bind_eq_Some_conv split: option.splits)
  then show ?thesis using bson_depth_field bson_depth_get less_trans by blast
qed

lemma inner_schema_depth:
  "Option.bind (doc_get schema key) as_document = Some s \<Longrightarrow> bson_depth (Document s) < bson_depth (Document schema)"
  by (auto simp: bind_eq_Some_conv simp del: bson_depth.simps intro: bson_depth_get)

text \<open>The walk over the inner schemas, given that the validator decides them.\<close>

definition decides :: "externs \<Rightarrow> doc \<Rightarrow> nat \<Rightarrow> bool" where
  "decides X schema depth \<longleftrightarrow> (\<forall>v s path. bson_depth (Document s) < bson_depth (Document schema) \<longrightarrow>
     (validate_value X v s path (depth + 1) = Inr () \<longleftrightarrow> conforms X v s))"

lemma decidesD:
  "decides X schema depth \<Longrightarrow> bson_depth (Document s) < bson_depth (Document schema) \<Longrightarrow>
    validate_value X v s path (Suc depth) = Inr () \<longleftrightarrow> conforms X v s"
  by (simp add: decides_def)

definition combinators_hold :: "externs \<Rightarrow> bson \<Rightarrow> doc \<Rightarrow> bool" where
  "combinators_hold X v schema \<longleftrightarrow>
     (case sub_schemas schema ''allOf'' of Some subs \<Rightarrow> list_all (\<lambda>(i, s). conforms X v s) subs | None \<Rightarrow> True) \<and>
     (case sub_schemas schema ''anyOf'' of Some subs \<Rightarrow> list_ex (\<lambda>(i, s). conforms X v s) subs | None \<Rightarrow> True) \<and>
     (case sub_schemas schema ''oneOf'' of Some subs \<Rightarrow> length (filter (\<lambda>(i, s). conforms X v s) subs) = 1 | None \<Rightarrow> True) \<and>
     (case Option.bind (doc_get schema ''not'') as_document of Some s \<Rightarrow> \<not> conforms X v s | None \<Rightarrow> True)"

lemma validate_combinators_ok:
  assumes "decides X schema depth"
  shows "validate_combinators X v schema path depth = Inr () \<longleftrightarrow> combinators_hold X v schema"
proof -
  have dec: "is_ok (validate_value X v s path (Suc depth)) \<longleftrightarrow> conforms X v s"
    if "sub_schemas schema key = Some subs" "(i, s) \<in> set subs" for key subs i s
    using decidesD [OF assms sub_schemas_depth [OF that]] by (simp add: is_ok_unit)
  have any: "list_ex (\<lambda>(i, s). is_ok (validate_value X v s path (Suc depth))) subs = list_ex (\<lambda>(i, s). conforms X v s) subs"
    and one: "filter (\<lambda>(i, s). is_ok (validate_value X v s path (Suc depth))) subs = filter (\<lambda>(i, s). conforms X v s) subs"
    and all: "each_res (\<lambda>(i, s). map_err (f i) (validate_value X v s path (Suc depth))) subs = Inr () \<longleftrightarrow> list_all (\<lambda>(i, s). conforms X v s) subs"
    if "sub_schemas schema key = Some subs" for key subs f
    using dec [OF that] by (auto simp: list_ex_iff list_all_iff is_ok_unit intro!: filter_cong)
  have neg: "is_ok (validate_value X v s path (Suc depth)) \<longleftrightarrow> conforms X v s"
    if "Option.bind (doc_get schema ''not'') as_document = Some s" for s
    using decidesD [OF assms inner_schema_depth [OF that]] by (simp add: is_ok_unit)
  show ?thesis
    unfolding validate_combinators.simps combinators_hold_def
    by (auto simp: any one neg all Let_def min_def simp del: each_res_ok split: option.split)
qed

lemma validate_fields_ok:
  assumes "decides X schema depth"
  shows "validate_doc_fields X d schema path depth = Inr () \<longleftrightarrow>
    fields_ok d schema \<and> list_all (\<lambda>(field, w, s). conforms X w s) (property_schemas d schema) \<and> combinators_hold X (Document d) schema"
proof -
  have "(\<forall>x \<in> set (property_schemas d schema). (case x of (field, v, s) \<Rightarrow> validate_value X v s (join_path path field) (Suc depth)) = Inr ()) \<longleftrightarrow>
      list_all (\<lambda>(field, w, s). conforms X w s) (property_schemas d schema)"
    using decidesD [OF assms property_schemas_depth] by (fastforce simp: list_all_iff)
  then show ?thesis
    by (auto simp: validate_doc_fields.simps validate_combinators_ok [OF assms] check_fields_ok [of d schema path, symmetric])
qed

lemma ball_zip_index: "(\<forall>(i, v) \<in> set (zip [0..<length arr] arr). P v) \<longleftrightarrow> (\<forall>v \<in> set arr. P v)"
proof -
  have "set arr = snd ` set (zip [0..<length arr] arr)"
    by (simp add: set_map [symmetric] del: set_map)
  then show ?thesis by auto
qed

lemma validate_array_ok:
  assumes "decides X schema depth"
  shows "validate_array X arr schema path depth = Inr () \<longleftrightarrow> items_ok X arr schema \<and>
    (case Option.bind (doc_get schema ''items'') as_document of Some s \<Rightarrow> list_all (\<lambda>item. conforms X item s) arr | None \<Rightarrow> True)"
proof -
  have "(\<forall>x \<in> set (zip [0..<length arr] arr). (case x of (i, item) \<Rightarrow> validate_value X item s (path @ ''['' @ show_nat i @ '']'') (Suc depth)) = Inr ())
      \<longleftrightarrow> list_all (\<lambda>item. conforms X item s) arr"
    if "Option.bind (doc_get schema ''items'') as_document = Some s" for s
    using decidesD [OF assms inner_schema_depth [OF that]] ball_zip_index [of arr "\<lambda>item. conforms X item s"]
    by (auto simp: list_all_iff)
  then show ?thesis by (auto simp: validate_array.simps check_items_ok split: option.split)
qed

lemma conforms_unfold:
  "conforms X v schema \<longleftrightarrow> v = Null \<and> schema_accepts_null schema \<or>
     has_type v schema \<and> combinators_hold X v schema \<and>
     (case as_document v of
        Some d \<Rightarrow> fields_ok d schema \<and> list_all (\<lambda>(field, w, s). conforms X w s) (property_schemas d schema)
      | None \<Rightarrow> (case as_array_opt v of
          Some arr \<Rightarrow> items_ok X arr schema \<and>
            (case Option.bind (doc_get schema ''items'') as_document of Some s \<Rightarrow> list_all (\<lambda>item. conforms X item s) arr | None \<Rightarrow> True)
        | None \<Rightarrow> scalar_ok X v schema))"
  by (subst conforms.simps) (auto simp: combinators_hold_def)

lemma validate_value_ok:
  "depth + bson_depth (Document schema) \<le> 101 \<Longrightarrow> validate_value X v schema path depth = Inr () \<longleftrightarrow> conforms X v schema"
proof (induction "bson_depth (Document schema)" arbitrary: v schema path depth rule: less_induct)
  case less
  have dec: "decides X schema depth"
    using less by (auto simp: decides_def simp del: bson_depth.simps)
  have "depth \<le> 100" using less.prems by simp
  then show ?case
    by (auto simp: validate_value.simps validate_object.simps conforms_unfold [of X v schema] schema_accepts_null_def check_type_ok
        validate_combinators_ok [OF dec] validate_fields_ok [OF dec] validate_array_ok [OF dec] validate_scalar_ok split: option.split)
qed

lemma check_object: "check_bson_type (Document d) s \<longleftrightarrow> s = ''object''"
  by (simp add: check_bson_type_def is_numeric_def)

lemma object_type: "check_bson_type_name ''object'' t \<longleftrightarrow> check_type_spec (Document d) t"
proof (cases t)
  case (Array arr)
  have "as_str x = Some ''object'' \<longleftrightarrow> (case as_str x of Some s \<Rightarrow> check_bson_type (Document d) s | None \<Rightarrow> False)" for x
    by (cases "as_str x") (simp_all add: check_object)
  then show ?thesis by (simp add: Array check_bson_type_name_def check_type_spec_def)
qed (simp_all add: check_bson_type_name_def check_type_spec_def check_object)

text \<open>
  C14. Validation decides conformance: for a schema nested at most 101 levels deep a document
  is accepted exactly when it conforms to the schema; the walk with its error values, paths and
  depth counter, its repeated combinators and early returns computes the reference meaning.
\<close>

theorem validate_document_decides:
  assumes "bson_depth (Document schema) \<le> 101"
  shows "validate_document X d schema = Inr () \<longleftrightarrow> schema = [] \<or> conforms X (Document d) schema"
proof -
  have "decides X schema 0"
    unfolding decides_def using assms by (auto intro!: validate_value_ok simp del: bson_depth.simps)
  from validate_fields_ok [OF this, of d] show ?thesis
    by (auto simp: validate_document_def conforms_unfold [of X "Document d" schema] has_type_def object_type [of _ d] split: option.split)
qed

theorem validate_document_decides_witness:
  "conforms sample_externs (Document [(''a'', Array [Int32 5])])
     [(''required'', Array [Str ''a'']), (''properties'', Document [(''a'', Document [(''items'', Document [(''bsonType'', Str ''int'')])])])]"
proof -
  let ?S = "[(''required'', Array [Str ''a'']), (''properties'', Document [(''a'', Document [(''items'', Document [(''bsonType'', Str ''int'')])])])]"
  have "bson_depth (Document ?S) \<le> 101" by simp
  moreover have "validate_document sample_externs [(''a'', Array [Int32 5])] ?S = Inr ()"
    by (simp add: validate_document_def validate_doc_fields.simps validate_value.simps validate_array.simps
      validate_combinators.simps validate_scalar_def check_numeric_def schema_type_def schema_num_def check_type_def check_type_spec_def
      check_bson_type_def check_required_def check_additional_def check_size_def check_items_def check_bound_def
      property_schemas_def sub_schemas_def map_filter_def)
  ultimately show ?thesis
    using validate_document_decides [of ?S sample_externs "[(''a'', Array [Int32 5])]"] by simp
qed

end
