(* ===== verification/Collation.thy ===== *)
theory Collation
  imports Externs
begin

text \<open>
  String collation (\<^verbatim>\<open>collation.rs\<close>): the options, the comparison of strings and values, and the
  bytes an index stores for a string.  A string is its UTF-8 bytes; digits, the minus sign and the dot are
  single bytes that never occur inside another character, so the segments are the same.
\<close>

datatype case_first = Upper | Lower | Off

record collation =
  col_locale :: string
  col_strength :: nat
  numeric_ordering :: bool
  col_case_first :: case_first

definition collation_default :: collation where
  "collation_default = \<lparr>col_locale = ''simple'', col_strength = 3, numeric_ordering = False, col_case_first = Off\<rparr>"

definition strength_of :: "bson \<Rightarrow> nat option" where
  "strength_of v = (case v of
     Int32 n \<Rightarrow> Some (unat (ucast n :: 8 word))
   | Int64 n \<Rightarrow> Some (unat (ucast n :: 8 word))
   | _ \<Rightarrow> None)"

definition from_doc :: "doc \<Rightarrow> collation" where
  "from_doc d = \<lparr>
     col_locale = opt_or ''simple'' (Option.bind (doc_get d ''locale'') as_str),
     col_strength = opt_or 3 (Option.bind (doc_get d ''strength'') strength_of),
     numeric_ordering = opt_or False (Option.bind (doc_get d ''numericOrdering'') as_bool),
     col_case_first =
       (let s = opt_or ''off'' (Option.bind (doc_get d ''caseFirst'') as_str) in
        if s = ''upper'' then Upper else if s = ''lower'' then Lower else Off)\<rparr>"

definition case_insensitive :: "collation \<Rightarrow> bool" where
  "case_insensitive c \<longleftrightarrow> col_strength c \<le> 2"

text \<open>The accented Latin-1 letters are the two bytes 0xC3 and one of 0xA0 to 0xBC.\<close>

definition base_letter :: "char \<Rightarrow> char option" where
  "base_letter c = (let n = of_char c :: nat in
     if 0xA0 \<le> n \<and> n \<le> 0xA5 then Some (CHR ''a'')
     else if 0xA8 \<le> n \<and> n \<le> 0xAB then Some (CHR ''e'')
     else if 0xAC \<le> n \<and> n \<le> 0xAF then Some (CHR ''i'')
     else if 0xB2 \<le> n \<and> n \<le> 0xB6 then Some (CHR ''o'')
     else if 0xB9 \<le> n \<and> n \<le> 0xBC then Some (CHR ''u'')
     else if n = 0xB1 then Some (CHR ''n'')
     else if n = 0xA7 then Some (CHR ''c'')
     else None)"

fun strip_diacritics :: "string \<Rightarrow> string" where
  "strip_diacritics (c # c' # cs) =
     (if c = CHR 0xC3 then (case base_letter c' of
        Some b \<Rightarrow> b # strip_diacritics cs
      | None \<Rightarrow> c # strip_diacritics (c' # cs))
      else c # strip_diacritics (c' # cs))"
| "strip_diacritics cs = cs"

definition sort_key :: "externs \<Rightarrow> collation \<Rightarrow> string \<Rightarrow> string" where
  "sort_key X c s =
     (if 3 \<le> col_strength c then s
      else if col_strength c = 1 then strip_diacritics (to_lowercase X s)
      else to_lowercase X s)"

datatype segment = Text string | Number f64

definition number_or_text :: "string \<Rightarrow> segment" where
  "number_or_text num = (case parse_f64 num of Some n \<Rightarrow> Number n | None \<Rightarrow> Text num)"

lemma split_numeric_shrinks:
  "2 * length (dropWhile P s) < Suc (Suc (2 * length s))"
  "2 * length (dropWhile P s) < Suc (Suc (Suc (2 * length s)))"
  using length_dropWhile_le [of P s] by linarith+

text \<open>The argument \<open>first\<close> says that no segment has been found yet.\<close>

function split_numeric :: "bool \<Rightarrow> string \<Rightarrow> segment list" where
  "split_numeric first [] = []"
| "split_numeric first (c # cs) =
     (if is_digit c \<or> c = CHR ''-'' \<and> first then
        number_or_text (takeWhile (\<lambda>d. is_digit d \<or> d = CHR ''.'') (c # cs)) #
          split_numeric False (dropWhile (\<lambda>d. is_digit d \<or> d = CHR ''.'') (c # cs))
      else
        Text (takeWhile (\<lambda>d. \<not> is_digit d) (c # cs)) # split_numeric False (dropWhile (\<lambda>d. \<not> is_digit d) (c # cs)))"
  by pat_completeness auto

termination
  by (relation "measure (\<lambda>(first, s). 2 * length s + of_bool first)")
    (auto simp: split_numeric_shrinks)

definition segment_cmp :: "externs \<Rightarrow> bool \<Rightarrow> segment \<Rightarrow> segment \<Rightarrow> ordering" where
  "segment_cmp X insensitive sa sb = (case sa of
     Number na \<Rightarrow> (case sb of Number nb \<Rightarrow> cmp_f64 na nb | Text _ \<Rightarrow> Less)
   | Text ta \<Rightarrow> (case sb of
       Text tb \<Rightarrow> if insensitive then cmp (to_lowercase X ta) (to_lowercase X tb) else cmp ta tb
     | Number _ \<Rightarrow> Greater))"

definition numeric_string_cmp :: "externs \<Rightarrow> string \<Rightarrow> string \<Rightarrow> bool \<Rightarrow> ordering" where
  "numeric_string_cmp X a b insensitive =
     seq_cmp (segment_cmp X insensitive) (split_numeric True a) (split_numeric True b)"

definition compare_str :: "externs \<Rightarrow> collation \<Rightarrow> string \<Rightarrow> string \<Rightarrow> ordering" where
  "compare_str X c a b =
     (if numeric_ordering c then numeric_string_cmp X a b (case_insensitive c)
      else cmp (sort_key X c a) (sort_key X c b))"

definition collate_bson :: "externs \<Rightarrow> collation \<Rightarrow> bson option \<Rightarrow> bson option \<Rightarrow> ordering" where
  "collate_bson X c a b = (case Option.bind a as_str of
     Some sa \<Rightarrow> (case b of
         Some nb \<Rightarrow> (case as_str nb of
             Some sb \<Rightarrow> compare_str X c sa sb
           | None \<Rightarrow>
               if numeric_ordering c \<and> as_f64 nb \<noteq> None then
                 (case parse_f64 sa of
                    Some fa \<Rightarrow> cmp_f64 fa (opt_or f64_zero (as_f64 nb))
                  | None \<Rightarrow> Greater)
               else compare_bson a b)
       | None \<Rightarrow> compare_bson a b)
   | None \<Rightarrow> compare_bson a b)"

definition index_key_bytes :: "externs \<Rightarrow> collation \<Rightarrow> string \<Rightarrow> bytes" where
  "index_key_bytes X c s = (case (if numeric_ordering c then parse_f64 s else None) of
     Some n \<Rightarrow> be_bytes 8 (bits n)
   | None \<Rightarrow> as_bytes (sort_key X c s))"

section \<open>The order of a collation\<close>

lemma round_mag_le: "round_mag N D \<le> inf_mag"
  unfolding round_mag_def Let_def by (rule min.cobounded2)

lemma of_sign_mag_not_nan: "m \<le> inf_mag \<Longrightarrow> \<not> is_nan (of_sign_mag s m)"
  by (simp add: is_nan_def of_sign_mag_parts(2) [OF le_less_trans [OF _ inf_mag_less]])

lemma parse_decimal_not_nan:
  assumes "list_all (\<lambda>c. is_digit c \<or> c = CHR ''.'') s" "parse_f64 s = Some n"
  shows "\<not> is_nan n"
proof -
  have sign: "take_sign s = (False, s)" using assms(1) by (cases s) (auto simp: is_digit_def)
  have "lower_char c = c" if "is_digit c \<or> c = CHR ''.''" for c
    using that by (auto simp: lower_digit) (simp add: lower_char_def)
  then have "map lower_char s = s" using assms(1) by (intro map_idI) (auto simp: list_all_iff)
  moreover have "s \<noteq> ''nan''" "s \<noteq> ''inf''" "s \<noteq> ''infinity''" using assms(1) by (auto simp: is_digit_def)
  ultimately obtain m e where "n = dec_f64 False m e"
    using assms(2) by (auto simp: parse_f64_def sign Let_def split: if_splits prod.splits)
  then show ?thesis by (simp add: dec_f64_def of_sign_mag_not_nan round_mag_le)
qed

definition no_nan :: "segment \<Rightarrow> bool" where
  "no_nan sg = (case sg of Number n \<Rightarrow> \<not> is_nan n | Text _ \<Rightarrow> True)"

lemma split_numeric_no_nan: "sg \<in> set (split_numeric first s) \<Longrightarrow> no_nan sg"
proof (induction first s rule: split_numeric.induct)
  case (2 first c cs)
  have "no_nan (number_or_text (takeWhile (\<lambda>d. is_digit d \<or> d = CHR ''.'') t))" for t
    using parse_decimal_not_nan [of "takeWhile (\<lambda>d. is_digit d \<or> d = CHR ''.'') t"]
    by (auto simp: no_nan_def number_or_text_def list_all_iff dest: set_takeWhileD split: option.splits)
  moreover have "no_nan (Text t)" for t by (simp add: no_nan_def)
  ultimately show ?case using 2 by (auto simp del: takeWhile.simps dropWhile.simps split: if_splits)
qed simp

definition segment_key :: "externs \<Rightarrow> bool \<Rightarrow> segment \<Rightarrow> int list" where
  "segment_key X insensitive sg = (case sg of
     Number n \<Rightarrow> [0, f64_key n]
   | Text t \<Rightarrow> 1 # map char_code (if insensitive then to_lowercase X t else t))"

lemma segment_cmp_key:
  "no_nan sa \<Longrightarrow> no_nan sb \<Longrightarrow> segment_cmp X i sa sb = cmp (segment_key X i sa) (segment_key X i sb)"
  by (cases sa; cases sb) (simp_all add: segment_cmp_def segment_key_def no_nan_def cmp_string_codes cmp_f64_keys, simp_all add: cmp_def then_cmp_def)

lemma segment_preorder: "total_preorder_on {sg. no_nan sg} (segment_cmp X i)"
  by (rule total_preorder_onI_key [where k = "segment_key X i"]) (simp add: segment_cmp_key)

text \<open>
  C19. Every collation orders strings: \<^verbatim>\<open>compare_str\<close> is reflexive, antisymmetric and
  transitive up to equality, with numeric ordering and without, at every strength.
\<close>

theorem compare_str_total_preorder: "total_preorder_on UNIV (compare_str X c)"
proof (cases "numeric_ordering c")
  case True
  have "compare_str X c = (\<lambda>a b. seq_cmp (segment_cmp X (case_insensitive c)) (split_numeric True a) (split_numeric True b))"
    by (simp add: compare_str_def numeric_string_cmp_def True fun_eq_iff)
  moreover have "total_preorder_on UNIV \<dots>"
    by (rule total_preorder_on_image [OF total_preorder_on_lists [OF segment_preorder]]) (auto dest: split_numeric_no_nan)
  ultimately show ?thesis by simp
next
  case False
  then show ?thesis by (intro total_preorder_onI_key [where k = "sort_key X c"]) (simp add: compare_str_def)
qed



lemma split_digits:
  "split_numeric first (show_nat n) = [Number (f64_of_int (int n))]"
proof -
  obtain c cs where s: "show_nat n = c # cs" using show_nat_not_Nil [of n] by (cases "show_nat n") auto
  have d: "list_all is_digit (c # cs)" using show_nat_digits [of n] by (simp add: s)
  have all: "takeWhile (\<lambda>d. is_digit d \<or> d = CHR ''.'') (c # cs) = c # cs" "dropWhile (\<lambda>d. is_digit d \<or> d = CHR ''.'') (c # cs) = []"
    using d by (simp_all only: takeWhile_eq_all_conv dropWhile_eq_Nil_conv) (auto simp: list_all_iff)
  have "number_or_text (c # cs) = Number (f64_of_int (int n))"
    using parse_f64_show_nat [of n] by (simp add: number_or_text_def s)
  then show ?thesis using d by (simp add: s all del: takeWhile.simps dropWhile.simps)
qed

lemma split_text_digits:
  assumes "list_all (\<lambda>c. \<not> is_digit c) p" "p \<noteq> []"
  shows "split_numeric False (p @ show_nat n) = [Text p, Number (f64_of_int (int n))]"
proof -
  obtain c cs where p: "p = c # cs" using assms(2) by (cases p) auto
  obtain e es where s: "show_nat n = e # es" "is_digit e"
    using show_nat_not_Nil [of n] show_nat_digits [of n] by (cases "show_nat n") auto
  have "takeWhile (\<lambda>d. \<not> is_digit d) (p @ show_nat n) = p" "dropWhile (\<lambda>d. \<not> is_digit d) (p @ show_nat n) = show_nat n"
    using assms(1) by (simp_all add: takeWhile_append2 dropWhile_append2 list_all_iff s)
  then show ?thesis using assms(1) by (simp add: p split_digits del: takeWhile.simps dropWhile.simps)
qed

lemma split_numbered:
  assumes "list_all (\<lambda>c. \<not> is_digit c) p"
  obtains pre where "\<And>n. split_numeric True (p @ show_nat n) = pre @ [Number (f64_of_int (int n))]"
    "list_all (\<lambda>sg. \<exists>t. sg = Text t) pre"
proof (cases p)
  case Nil
  then show ?thesis using that [of "[]"] by (simp add: split_digits)
next
  case (Cons c cs)
  show ?thesis
  proof (cases "c = CHR ''-''")
    case True
    have "split_numeric True (p @ show_nat n) = number_or_text [] # split_numeric False (p @ show_nat n)" for n
      by (simp add: Cons True is_digit_def)
    moreover have "number_or_text [] = Text []" by (simp add: number_or_text_def parse_f64_def)
    ultimately show ?thesis using that [of "[Text [], Text p]"] split_text_digits [OF assms] Cons by simp
  next
    case False
    have "split_numeric True (p @ show_nat n) = split_numeric False (p @ show_nat n)" for n
      using assms False by (simp add: Cons)
    then show ?thesis using that [of "[Text p]"] split_text_digits [OF assms] Cons by simp
  qed
qed

text \<open>
  Numeric ordering compares trailing numbers by value: two strings with a common
  prefix without digits and decimal numbers up to $2^{53}$ compare as the numbers do, so that
  \<^verbatim>\<open>file2\<close> comes before \<^verbatim>\<open>file10\<close>.
\<close>

theorem numeric_ordering_by_value:
  assumes "numeric_ordering c" and "list_all (\<lambda>ch. \<not> is_digit ch) p"
    and "n \<le> 2 ^ 53" and "m \<le> 2 ^ 53"
  shows "compare_str X c (p @ show_nat n) (p @ show_nat m) = cmp n m"
proof -
  obtain pre where split: "\<And>n. split_numeric True (p @ show_nat n) = pre @ [Number (f64_of_int (int n))]"
    and texts: "list_all (\<lambda>sg. \<exists>t. sg = Text t) pre"
    using split_numbered [OF assms(2)] by metis
  have same: "seq_cmp (segment_cmp X i) (pre @ xs) (pre @ ys) = seq_cmp (segment_cmp X i) xs ys" for i xs ys
    using texts by (induction pre) (auto simp: segment_cmp_def cmp_refl)
  have "exact_int (int n)" "exact_int (int m)" using assms(3,4) by (simp_all add: exact_int_def)
  then have "cmp_f64 (f64_of_int (int n)) (f64_of_int (int m)) = cmp n m"
    by (simp add: f64_cmp_of_int) (simp add: cmp_def)
  then show ?thesis
    by (simp add: compare_str_def assms(1) numeric_string_cmp_def split same segment_cmp_def)
qed

theorem numeric_ordering_by_value_witness:
  "compare_str sample_externs (collation_default\<lparr>numeric_ordering := True\<rparr>) (''file'' @ show_nat 2) (''file'' @ show_nat 10) = Less"
proof -
  have "numeric_ordering (collation_default\<lparr>numeric_ordering := True\<rparr>)" by simp
  moreover have "list_all (\<lambda>ch. \<not> is_digit ch) ''file''" by (simp add: is_digit_def)
  ultimately show ?thesis
    using numeric_ordering_by_value [of "collation_default\<lparr>numeric_ordering := True\<rparr>" "''file''" 2 10 sample_externs]
    by simp
qed

text \<open>
  Under numeric ordering the comparison of a string with a number depends on the side
  the string is on: a numeric string before a number compares by value, after a number it
  is always greater, so that for a string below the number both directions return \<^verbatim>\<open>Less\<close>.
\<close>

theorem collate_mixed_asymmetric:
  assumes "numeric_ordering c" and "n < m" and "m < 2 ^ 31"
  shows "collate_bson X c (Some (Str (show_nat n))) (Some (i32 (int m))) = Less \<and>
    collate_bson X c (Some (i32 (int m))) (Some (Str (show_nat n))) = Less"
proof -
  have f: "sint (word_of_nat m :: 32 word) = int m"
    using sint_word_of_int32 [of "int m"] assms(3) by simp
  have "exact_int (int n)" "exact_int (int m)" using assms(2,3) by (simp_all add: exact_int_def)
  then have "cmp_f64 (f64_of_int (int n)) (f64_of_int (int m)) = Less"
    using assms(2) by (simp add: f64_cmp_of_int)
  then show ?thesis
    by (simp add: collate_bson_def assms(1) f parse_f64_show_nat compare_bson_def i32_def)
qed

theorem collate_mixed_asymmetric_witness:
  "collate_bson sample_externs (collation_default\<lparr>numeric_ordering := True\<rparr>) (Some (Str (show_nat 5))) (Some (i32 (int 7))) = Less \<and>
   collate_bson sample_externs (collation_default\<lparr>numeric_ordering := True\<rparr>) (Some (i32 (int 7))) (Some (Str (show_nat 5))) = Less"
  by (rule collate_mixed_asymmetric) simp_all

end
