(* ===== verification/Index.thy ===== *)
theory Index
  imports Paths Query Collation
begin

text \<open>
  Index definitions and keys (\<^verbatim>\<open>index/mod.rs\<close>, \<^verbatim>\<open>index/prefix_index.rs\<close>): index types and options, the bytes stored
  for a document under a key specification, their decoding, names, and the truncated keys of
  prefix indexes.  The properties say when keys decode to the indexed values and which order they have.
\<close>

section \<open>Index types and options\<close>

datatype index_type = BTree | TwoDSphere | TextType | VectorSearch | Bitmap | Prefix

record vector_index_options =
  vo_dimensions :: nat
  vo_metric :: string
  vo_indexing_method :: string
  vo_ef_construction :: "nat option"
  vo_m :: "nat option"

record text_index_options =
  to_default_language :: "string option"
  to_weights :: "doc option"

record prefix_options =
  prefix_length :: nat

record index_options =
  opt_name :: "string option"
  unique :: bool
  sparse :: bool
  background :: bool
  expire_after_seconds :: "nat option"
  partial_filter_expression :: "doc option"
  opt_collation :: "doc option"
  index_type_opt :: "index_type option"
  vector_options :: "vector_index_options option"
  text_options :: "text_index_options option"
  prefix_opts :: "prefix_options option"

record index_spec =
  ix_name :: string
  ix_keys :: doc
  ix_options :: index_options

definition index_options_default :: index_options where
  "index_options_default = \<lparr>opt_name = None, unique = False, sparse = False, background = False,
     expire_after_seconds = None, partial_filter_expression = None, opt_collation = None,
     index_type_opt = None, vector_options = None, text_options = None, prefix_opts = None\<rparr>"

definition is_2dsphere_keys :: "doc \<Rightarrow> bool" where
  "is_2dsphere_keys keys \<longleftrightarrow> length keys = 1 \<and>
     list_all (\<lambda>(_, v). v = Str ''2dsphere'' \<or> v = Str ''2d'') keys"

definition twodsphere_field :: "doc \<Rightarrow> string option" where
  "twodsphere_field keys = (if is_2dsphere_keys keys then (case keys of (k, _) # _ \<Rightarrow> Some k | [] \<Rightarrow> None) else None)"

definition is_text_keys :: "doc \<Rightarrow> bool" where
  "is_text_keys keys \<longleftrightarrow> list_ex (\<lambda>(_, v). v = Str ''text'') keys"

definition text_fields :: "doc \<Rightarrow> string list" where
  "text_fields keys = map fst (filter (\<lambda>(_, v). v = Str ''text'') keys)"

definition vector_field :: "doc \<Rightarrow> string option" where
  "vector_field keys = (case keys of [(k, _)] \<Rightarrow> Some k | _ \<Rightarrow> None)"

definition resolve_index_type :: "doc \<Rightarrow> index_options \<Rightarrow> index_type" where
  "resolve_index_type keys opts = (case index_type_opt opts of
     Some explicit \<Rightarrow> explicit
   | None \<Rightarrow> if is_2dsphere_keys keys then TwoDSphere else if is_text_keys keys then TextType else BTree)"

datatype index_direction = Ascending | Descending

definition from_bson :: "bson \<Rightarrow> index_direction option" where
  "from_bson v = (case v of
     Int32 n \<Rightarrow> if n = 1 then Some Ascending else if n = -1 then Some Descending else None
   | Int64 n \<Rightarrow> if n = 1 then Some Ascending else if n = -1 then Some Descending else None
   | _ \<Rightarrow> None)"

section \<open>Index keys\<close>

definition invert_bytes :: "bytes \<Rightarrow> bytes" where
  "invert_bytes = map not"

definition key_part :: "externs \<Rightarrow> collation option \<Rightarrow> bson option \<Rightarrow> bytes" where
  "key_part X c value = (case value of
     None \<Rightarrow> [0xFF]
   | Some v \<Rightarrow> (case v of
       Null \<Rightarrow> [0x00]
     | Int32 n \<Rightarrow> be_bytes 4 n
     | Int64 n \<Rightarrow> be_bytes 8 n
     | Double n \<Rightarrow> be_bytes 8 (bits n)
     | Str s \<Rightarrow> (case c of Some col \<Rightarrow> index_key_bytes X col s | None \<Rightarrow> as_bytes s)
     | ObjectId oid \<Rightarrow> oid
     | Boolean b \<Rightarrow> [if b then 0x01 else 0x00]
     | DateTime dt \<Rightarrow> be_bytes 8 dt
     | _ \<Rightarrow> [0x02]))"

definition directed_part :: "externs \<Rightarrow> collation option \<Rightarrow> doc \<Rightarrow> string \<times> bson \<Rightarrow> bytes" where
  "directed_part X c d key = (case key of (field, direction) \<Rightarrow>
     (let serialized = key_part X c (get_value d field) in
      if from_bson direction = Some Descending then invert_bytes serialized else serialized))"

definition extract_index_key_with_collation :: "externs \<Rightarrow> doc \<Rightarrow> doc \<Rightarrow> collation option \<Rightarrow> bytes" where
  "extract_index_key_with_collation X d keys c = join_with [0xFE] (map (directed_part X c d) keys)"

definition extract_index_key :: "externs \<Rightarrow> doc \<Rightarrow> doc \<Rightarrow> bytes" where
  "extract_index_key X d keys = extract_index_key_with_collation X d keys None"

definition truncate_key :: "bytes \<Rightarrow> nat \<Rightarrow> bytes" where
  "truncate_key key n = (if length key \<le> n then key else take n key)"

definition extract_prefix_key :: "externs \<Rightarrow> doc \<Rightarrow> doc \<Rightarrow> nat \<Rightarrow> bytes" where
  "extract_prefix_key X d keys n = truncate_key (extract_index_key X d keys) n"

definition plain_char :: "char \<Rightarrow> bool" where
  "plain_char c \<longleftrightarrow> (let n = of_char c :: nat in
     48 \<le> n \<and> n \<le> 57 \<or> 65 \<le> n \<and> n \<le> 90 \<or> 97 \<le> n \<and> n \<le> 122) \<or> ascii_space c \<or> c \<in> set ''_-./''"

definition plain_text :: "externs \<Rightarrow> string \<Rightarrow> bool" where
  "plain_text X s = (if is_ascii s then list_all plain_char s else x_plain_text X s)"

definition decode_index_value_part :: "externs \<Rightarrow> bytes \<Rightarrow> bson option" where
  "decode_index_value_part X bs =
     (if bs = [] \<or> hd bs = 0xFF then None
      else if bs = [0x01] then Some (Boolean True)
      else if bs = [0x00] then Some (Boolean False)
      else case (case from_utf8 bs of Some s \<Rightarrow> if s \<noteq> [] \<and> plain_text X s then Some s else None | None \<Rightarrow> None) of
        Some s \<Rightarrow> Some (Str s)
      | None \<Rightarrow>
          if 4 \<le> length bs \<and> (length bs = 4 \<or> list_all (\<lambda>b. 32 \<le> b \<and> b \<le> 126) (drop 4 bs))
          then Some (Int32 (of_be_bytes (take 4 bs)))
          else if length bs = 8 then Some (Int64 (of_be_bytes bs))
          else if length bs = 12 then Some (ObjectId bs)
          else map_option Str (from_utf8 bs))"

fun decode_fields :: "externs \<Rightarrow> doc \<Rightarrow> bytes list \<Rightarrow> doc \<Rightarrow> doc option" where
  "decode_fields X result parts [] = Some result"
| "decode_fields X result [] keys = Some result"
| "decode_fields X result (p # parts) ((field, direction) # keys) =
     (let part = (if from_bson direction = Some Descending then invert_bytes p else p) in
      case decode_index_value_part X part of
        None \<Rightarrow> None
      | Some v \<Rightarrow> decode_fields X (doc_insert field v result) parts keys)"

definition decode_index_key :: "externs \<Rightarrow> bytes \<Rightarrow> doc \<Rightarrow> doc option" where
  "decode_index_key X key_bytes index_keys =
     (let parts = split_on 0xFE key_bytes in
      if length parts < length index_keys then None else decode_fields X [] parts index_keys)"

definition hex_upper :: "nat \<Rightarrow> char" where
  "hex_upper n = char_of (if n < 10 then 48 + n else 55 + n)"

definition cell_key_prefix_u64 :: "64 word \<Rightarrow> string" where
  "cell_key_prefix_u64 cell = map (\<lambda>i. hex_upper (unat (take_bit 4 (drop_bit (4 * i) cell)))) (rev [0..<16]) @ ''|''"

definition id_label :: "externs \<Rightarrow> bson \<Rightarrow> string" where
  "id_label X v = (case v of
     ObjectId oid \<Rightarrow> to_hex oid
   | Str s \<Rightarrow> s
   | Int32 i \<Rightarrow> show_int (sint i)
   | Int64 i \<Rightarrow> show_int (sint i)
   | _ \<Rightarrow> x_bson_display X v)"

definition twodsphere_index_key :: "externs \<Rightarrow> doc \<Rightarrow> doc \<Rightarrow> bytes option" where
  "twodsphere_index_key X d keys =
     Option.bind (twodsphere_field keys) (\<lambda>field.
     Option.bind (extract_lon_lat (get_value d field)) (\<lambda>(lon, lat).
     Option.bind (doc_get d ''_id'') (\<lambda>v.
     Some (as_bytes (cell_key_prefix_u64 (x_cell_key X lon lat) @ id_label X v)))))"

definition direction_label :: "bson \<Rightarrow> string" where
  "direction_label v = (case from_bson v of
     Some Ascending \<Rightarrow> ''1''
   | Some Descending \<Rightarrow> ''-1''
   | None \<Rightarrow> opt_or ''1'' (as_str v))"

definition generate_index_name :: "doc \<Rightarrow> string" where
  "generate_index_name keys = join_with ''_'' (map (\<lambda>(field, direction). field @ ''_'' @ direction_label direction) keys)"

datatype index_name_error = BadIndexNameChar string | ReservedIndexName

definition validate_custom_index_name :: "string \<Rightarrow> index_name_error + unit" where
  "validate_custom_index_name name =
     (if CHR ''.'' \<in> set name \<or> CHR ''/'' \<in> set name \<or> CHR 0x5C \<in> set name then Inl (BadIndexNameChar name)
      else if name = ''_id_'' then Inl ReservedIndexName
      else Inr ())"

definition can_use_index :: "doc \<Rightarrow> doc \<Rightarrow> bool" where
  "can_use_index query index_keys \<longleftrightarrow>
     list_ex (\<lambda>(field, _). \<not> starts_with field ''$'' \<and> doc_get index_keys field \<noteq> None) query"

section \<open>Decoding index keys\<close>

text \<open>The values an index key keeps: booleans in ascending order and plain strings in both.\<close>

definition keeps_value :: "doc \<Rightarrow> string \<times> bson \<Rightarrow> bool" where
  "keeps_value d key = (case key of (field, direction) \<Rightarrow> (case get_value d field of
     Some (Str s) \<Rightarrow> s \<noteq> [] \<and> list_all plain_char s
   | Some (Boolean b) \<Rightarrow> from_bson direction \<noteq> Some Descending
   | _ \<Rightarrow> False))"

lemma plain_char_code: "plain_char c \<Longrightarrow> 2 \<le> (of_char c :: nat) \<and> (of_char c :: nat) < 128"
  by (auto simp: plain_char_def ascii_space_def Let_def)

lemma plain_byte:
  assumes "plain_char c"
  shows "1 < byte_of_char c" "byte_of_char c < 0x80" "not (byte_of_char c) \<noteq> 0xFE"
proof -
  have c: "2 \<le> unat (byte_of_char c)" "unat (byte_of_char c) < 128"
    using plain_char_code [OF assms] by simp_all
  then show "1 < byte_of_char c" "byte_of_char c < 0x80" by (simp_all add: word_less_nat_alt)
  show "not (byte_of_char c) \<noteq> 0xFE"
  proof
    assume "not (byte_of_char c) = 0xFE"
    then have "byte_of_char c = not 0xFE" by (metis bit.double_compl)
    then show False using c(1) by simp
  qed
qed

lemma plain_ascii: "list_all plain_char s \<Longrightarrow> is_ascii s"
  using plain_char_code by (auto simp: is_ascii_def list_all_iff)

lemma ascii_str_ok: "list_all plain_char s \<Longrightarrow> str_ok s"
  by (induction s) (auto simp: str_ok_def as_bytes_def plain_byte)

lemma invert_invert [simp]: "invert_bytes (invert_bytes bs) = bs"
  by (simp add: invert_bytes_def comp_def)

lemma decode_plain:
  assumes "list_all plain_char s" "s \<noteq> []"
  shows "decode_index_value_part X (as_bytes s) = Some (Str s)"
proof -
  obtain c cs where s: "s = c # cs" using assms(2) by (cases s) auto
  have "byte_of_char c < 0x80" "1 < byte_of_char c" using assms(1) by (simp_all add: s plain_byte)
  then have "byte_of_char c \<noteq> 0xFF" "byte_of_char c \<noteq> 0" "byte_of_char c \<noteq> 1" by auto
  then have "as_bytes s \<noteq> []" "hd (as_bytes s) \<noteq> 0xFF" "as_bytes s \<noteq> [0]" "as_bytes s \<noteq> [1]"
    by (simp_all add: s as_bytes_def)
  then show ?thesis using assms ascii_str_ok [OF assms(1)] plain_ascii [OF assms(1)]
    by (simp add: decode_index_value_part_def plain_text_def)
qed

lemma directed_part_kept:
  assumes "keeps_value d (field, direction)"
  shows "0xFE \<notin> set (directed_part X None d (field, direction))"
    and "decode_index_value_part X (if from_bson direction = Some Descending
      then invert_bytes (directed_part X None d (field, direction)) else directed_part X None d (field, direction)) = get_value d field"
proof -
  consider (str) s where "get_value d field = Some (Str s)" "s \<noteq> []" "list_all plain_char s"
    | (bool) b where "get_value d field = Some (Boolean b)" "from_bson direction \<noteq> Some Descending"
    using assms by (auto simp: keeps_value_def split: option.splits bson.splits)
  note cases = this
  show "0xFE \<notin> set (directed_part X None d (field, direction))"
  proof (cases rule: cases)
    case str
    have "0xFE \<noteq> not (byte_of_char c)" "0xFE \<noteq> byte_of_char c" if "c \<in> set s" for c
      using plain_byte [of c] str(3) that by (auto simp: list_all_iff)
    then show ?thesis by (simp add: directed_part_def str key_part_def invert_bytes_def as_bytes_def Let_def image_iff)
  qed (simp add: directed_part_def key_part_def Let_def)
  show "decode_index_value_part X (if from_bson direction = Some Descending
      then invert_bytes (directed_part X None d (field, direction)) else directed_part X None d (field, direction)) = get_value d field"
    by (cases rule: cases) (simp_all add: directed_part_def key_part_def decode_plain Let_def decode_index_value_part_def [of X "[if _ then _ else _]"] split: if_splits)
qed

lemma decode_fields_kept:
  assumes "\<forall>key \<in> set keys. keeps_value d key" and "distinct (map fst (acc @ keys))"
  shows "decode_fields X acc (map (directed_part X None d) keys) keys =
    Some (acc @ map (\<lambda>(field, _). (field, the (get_value d field))) keys)"
  using assms
proof (induction keys arbitrary: acc)
  case (Cons key keys)
  obtain field direction where key: "key = (field, direction)" by (cases key)
  have kept: "keeps_value d (field, direction)" using Cons.prems(1) key by simp
  then obtain v where v: "get_value d field = Some v"
    by (auto simp: keeps_value_def split: option.splits)
  have fresh: "field \<notin> fst ` set acc" using Cons.prems(2) by (auto simp: key)
  have "decode_fields X acc (map (directed_part X None d) (key # keys)) (key # keys) =
      decode_fields X (doc_insert field v acc) (map (directed_part X None d) keys) keys"
    using directed_part_kept(2) [OF kept] by (simp add: key v Let_def)
  also have "\<dots> = Some ((acc @ [(field, v)]) @ map (\<lambda>(field, _). (field, the (get_value d field))) keys)"
    unfolding al_insert_fresh [OF fresh] by (rule Cons.IH) (use Cons.prems key in auto)
  finally show ?case by (simp add: key v)
qed simp



section \<open>The order of index keys\<close>

lemma cmp_snoc:
  fixes x y :: "'a::linorder"
  shows "length xs = length ys \<Longrightarrow> cmp (xs @ [x]) (ys @ [y]) = then_cmp (cmp xs ys) (cmp x y)"
  by (induction xs ys rule: list_induct2) (auto simp: then_cmp_def split: ordering.splits)

lemma cmp_radix:
  fixes r s :: nat
  assumes "r < n" "s < n"
  shows "cmp (a * n + r) (b * n + s) = then_cmp (cmp a b) (cmp r s)"
proof -
  consider "a < b" | "a = b" | "b < a" by linarith
  then show ?thesis
  proof cases
    case 1
    then have "(a + 1) * n \<le> b * n" by (intro mult_right_mono) auto
    with 1 assms show ?thesis by (simp add: cmp_def)
  next
    case 3
    then have "(b + 1) * n \<le> a * n" by (intro mult_right_mono) auto
    with 3 assms show ?thesis by (simp add: cmp_def)
  qed (simp add: cmp_def)
qed

lemma cmp_be_bytes_mod:
  fixes v w :: "'a::len word"
  shows "cmp (be_bytes n v) (be_bytes n w) = cmp (unat v mod 256 ^ n) (unat w mod 256 ^ n)"
proof (induction n arbitrary: v w)
  case (Suc n)
  have split: "unat u mod 256 ^ Suc n = unat (drop_bit 8 u) mod 256 ^ n * 256 + unat u mod 256" for u :: "'a word"
    unfolding unat_drop_bit_eq by (simp add: drop_bit_eq_div mod_mult2_eq)
  have byte: "cmp (ucast v :: byte) (ucast w) = cmp (unat v mod 256) (unat w mod 256)"
    by (simp add: cmp_def word_less_nat_alt word_unat_eq_iff unsigned_ucast_eq take_bit_eq_mod)
  show ?case
    unfolding be_bytes_Suc split by (subst cmp_radix) (simp_all add: cmp_snoc Suc.IH byte)
qed (simp add: be_bytes_def)

lemma cmp_unat: "cmp (unat v) (unat w) = cmp v w"
  by (simp add: cmp_def word_less_nat_alt word_unat_eq_iff)

lemma cmp_be_bytes:
  fixes v w :: "'a::len word"
  shows "8 * n = LENGTH('a) \<Longrightarrow> cmp (be_bytes n v) (be_bytes n w) = cmp v w"
proof -
  assume n: "8 * n = LENGTH('a)"
  have "unat u mod 256 ^ n = unat u" for u :: "'a word"
  proof -
    have "unat u < 2 ^ LENGTH('a)" by (rule unsigned_less)
    then show ?thesis by (simp add: n [symmetric] power_mult)
  qed
  then show ?thesis by (simp add: cmp_be_bytes_mod cmp_unat)
qed

text \<open>
  An ascending index on a 32-bit integer field sorts by the unsigned value of the
  integers: within one sign the order is that of the integers, but every negative value comes after every
  non-negative one.
\<close>

theorem int_index_key_order:
  assumes "get_value d field = Some (Int32 a)" and "get_value e field = Some (Int32 b)"
    and "from_bson direction \<noteq> Some Descending"
  shows "cmp (extract_index_key X d [(field, direction)]) (extract_index_key X e [(field, direction)]) =
    (if (sint a < 0) = (sint b < 0) then cmp (sint a) (sint b) else if sint a < 0 then Greater else Less)"
proof -
  have u: "uint w = (if sint w < 0 then sint w + 2 ^ 32 else sint w)" for w :: "32 word"
  proof -
    have "uint w = sint w mod 2 ^ 32"
      using uint_word_of_int [of "sint w", where 'a = 32] by simp
    also have "\<dots> = (if sint w < 0 then sint w + 2 ^ 32 else sint w)"
    proof (cases "sint w < 0")
      case True
      have "sint w mod 2 ^ 32 = (sint w + 2 ^ 32) mod 2 ^ 32" by simp
      also have "\<dots> = sint w + 2 ^ 32" using True sint32_bounds [of w] by (intro mod_pos_pos_trivial) auto
      finally show ?thesis using True by simp
    next
      case False
      then show ?thesis using sint32_bounds [of w] by (subst mod_pos_pos_trivial) auto
    qed
    finally show ?thesis .
  qed
  have "cmp (extract_index_key X d [(field, direction)]) (extract_index_key X e [(field, direction)]) = cmp a b"
    using assms by (simp add: extract_index_key_def extract_index_key_with_collation_def directed_part_def key_part_def cmp_be_bytes)
  also have "\<dots> = cmp (uint a) (uint b)" by (simp add: cmp_def word_less_def word_uint_eq_iff)
  finally show ?thesis using sint32_bounds [of a] sint32_bounds [of b] by (auto simp: u cmp_def)
qed

theorem int_index_key_order_witness:
  "cmp (extract_index_key sample_externs [(''a'', Int32 (-1))] [(''a'', Int32 1)])
     (extract_index_key sample_externs [(''a'', Int32 1)] [(''a'', Int32 1)]) = Greater"
proof -
  have "get_value [(''a'', Int32 (-1))] ''a'' = Some (Int32 (-1))" "get_value [(''a'', Int32 1)] ''a'' = Some (Int32 1)"
    by code_simp+
  moreover have "from_bson (Int32 1) \<noteq> Some Descending" by (simp add: from_bson_def)
  ultimately show ?thesis
    using int_index_key_order [of "[(''a'', Int32 (-1))]" "''a''" "-1" "[(''a'', Int32 1)]" 1 "Int32 1" sample_externs] by simp
qed

lemma take_lex_mono:
  fixes xs ys :: "'a::linorder list"
  shows "xs \<le> ys \<Longrightarrow> take n xs \<le> take n ys"
proof (induction n arbitrary: xs ys)
  case (Suc n)
  then show ?case by (cases xs; cases ys) auto
qed simp

text \<open>
  Truncation keeps the order: prefix keys of two documents are ordered as their full
  keys or equal, so that a scan of a prefix index from the truncated bound misses no key above it.
\<close>

theorem prefix_key_monotone:
  assumes "extract_index_key X d keys \<le> extract_index_key X e keys"
  shows "extract_prefix_key X d keys n \<le> extract_prefix_key X e keys n"
proof -
  have "truncate_key k n = take n k" for k by (simp add: truncate_key_def)
  then show ?thesis using take_lex_mono [OF assms, of n] by (simp add: extract_prefix_key_def)
qed

theorem prefix_key_monotone_witness:
  "extract_prefix_key sample_externs [(''a'', Boolean False)] [(''a'', Int32 1)] 16 \<le>
   extract_prefix_key sample_externs [(''a'', Boolean True)] [(''a'', Int32 1)] 16"
proof (rule prefix_key_monotone)
  have "get_value [(''a'', Boolean b)] ''a'' = Some (Boolean b)" for b by (simp add: get_value_top split_on_no_sep)
  then show "extract_index_key sample_externs [(''a'', Boolean False)] [(''a'', Int32 1)] \<le>
      extract_index_key sample_externs [(''a'', Boolean True)] [(''a'', Int32 1)]"
    by (simp add: extract_index_key_def extract_index_key_with_collation_def directed_part_def key_part_def from_bson_def)
qed

end
