(* ===== verification/Planner.thy ===== *)
theory Planner
  imports Index
begin

text \<open>
  The query planner (\<^verbatim>\<open>planner/mod.rs\<close>, \<^verbatim>\<open>planner/geo_plan.rs\<close>): eligibility of partial indexes, the candidate plan
  of each index, the choice of the cheapest, plans for \<^verbatim>\<open>$or\<close> and sorted index scans.  The cell coverings of shapes
  are a parameter.
\<close>

section \<open>Partial indexes\<close>

definition is_tighter_bound :: "string \<Rightarrow> bson \<Rightarrow> bson \<Rightarrow> bool" where
  "is_tighter_bound op partial_val query_val = (case (as_f64 partial_val, as_f64 query_val) of
     (Some pf, Some qv) \<Rightarrow>
       if op = ''$gt'' \<or> op = ''$gte'' then f64_ge qv pf
       else if op = ''$lt'' \<or> op = ''$lte'' then f64_le qv pf
       else False
   | _ \<Rightarrow> False)"

definition satisfies_condition :: "externs \<Rightarrow> bson \<Rightarrow> bson \<Rightarrow> bool" where
  "satisfies_condition X pf_val q_val = (case (as_document pf_val, as_document q_val) of
     (Some pf_doc, Some q_doc) \<Rightarrow>
       list_all (\<lambda>(op, pf_v). case doc_get q_doc op of
           Some q_v \<Rightarrow> x_bson_eq X q_v pf_v \<or> is_tighter_bound op pf_v q_v
         | None \<Rightarrow> False) pf_doc
   | _ \<Rightarrow> x_bson_eq X q_val pf_val)"

definition query_satisfies_partial_filter :: "externs \<Rightarrow> doc \<Rightarrow> doc \<Rightarrow> bool" where
  "query_satisfies_partial_filter X query partial_filter =
     list_all (\<lambda>(field, pf_val). case doc_get query field of
         Some q_val \<Rightarrow> satisfies_condition X pf_val q_val
       | None \<Rightarrow> False) partial_filter"

definition index_eligible_for_query :: "externs \<Rightarrow> index_spec \<Rightarrow> doc \<Rightarrow> bool" where
  "index_eligible_for_query X index query = (case partial_filter_expression (ix_options index) of
     Some pfe \<Rightarrow> pfe = [] \<or> query_satisfies_partial_filter X query pfe
   | None \<Rightarrow> True)"

section \<open>Plans\<close>

datatype execution_plan =
    CollectionScan
  | IndexScan string doc
  | IndexSeek string doc doc
  | CoveringIndexScan string doc "doc option" doc
  | SortedIndexScan string doc nat bool
  | VectorIndexSearch string string nat string "nat option" "nat option" string
  | BitmapScan string string
  | TextIndexScan string "string list"
  | PrefixIndexScan string doc nat
  | GeoNear string string f64 f64 "f64 option" "f64 option"
  | GeoCapWithin string string f64 f64 f64
  | GeoCellCover string string "64 word list"
  | OrUnionPlans "execution_plan list"

record query_plan =
  qp_plan :: execution_plan
  qp_cost :: nat
  qp_reason :: string

definition mk_plan :: "execution_plan \<Rightarrow> nat \<Rightarrow> string \<Rightarrow> query_plan" where
  "mk_plan p c r = \<lparr>qp_plan = p, qp_cost = c, qp_reason = r\<rparr>"

abbreviation u64_max :: nat where
  "u64_max \<equiv> 2 ^ 64 - 1"

definition in_quotes :: "string \<Rightarrow> string" where
  "in_quotes s = CHR 0x27 # s @ [CHR 0x27]"

definition pick_better :: "query_plan option \<Rightarrow> query_plan \<Rightarrow> query_plan" where
  "pick_better current candidate = (case current of
     None \<Rightarrow> candidate
   | Some prev \<Rightarrow> if qp_cost candidate < qp_cost prev then candidate else prev)"

definition is_truthy_value :: "bson \<Rightarrow> bool" where
  "is_truthy_value v = (case v of
     Int32 n \<Rightarrow> n \<noteq> 0
   | Int64 n \<Rightarrow> n \<noteq> 0
   | Double d \<Rightarrow> \<not> f64_eq d f64_zero
   | Boolean b \<Rightarrow> b
   | _ \<Rightarrow> True)"

definition is_equality_query :: "bson \<Rightarrow> bool" where
  "is_equality_query v = (case as_document v of
     Some d \<Rightarrow> length d = 1 \<and> doc_get d ''$eq'' \<noteq> None
   | None \<Rightarrow> True)"

definition is_range_query :: "bson \<Rightarrow> bool" where
  "is_range_query v = (case as_document v of
     Some d \<Rightarrow> list_ex (\<lambda>(k, _). k \<in> {''$gt'', ''$gte'', ''$lt'', ''$lte''}) d
   | None \<Rightarrow> False)"

definition is_covering_index :: "doc \<Rightarrow> doc \<Rightarrow> bool" where
  "is_covering_index index_keys projection \<longleftrightarrow>
     list_ex (\<lambda>(k, v). k \<noteq> ''_id'' \<and> is_truthy_value v) projection \<and>
     list_all (\<lambda>(field, v). field = ''_id'' \<and> \<not> is_truthy_value v \<or>
        (is_truthy_value v \<longrightarrow> field \<in> set (map fst index_keys) \<or> field = ''_id'')) projection"

section \<open>The plan of one index\<close>

definition evaluate_index_for_query_with_projection ::
    "doc \<Rightarrow> index_spec \<Rightarrow> doc option \<Rightarrow> query_plan option" where
  "evaluate_index_for_query_with_projection query spec projection = (case ix_keys spec of
     [] \<Rightarrow> None
   | (field, _) # _ \<Rightarrow> (case doc_get query field of
       None \<Rightarrow> None
     | Some v \<Rightarrow>
         (let covering = (case projection of Some proj \<Rightarrow> is_covering_index (ix_keys spec) proj | None \<Rightarrow> False);
              proj = opt_or [] projection; seek = [(field, v)] in
          if covering \<and> is_equality_query v then
            Some (mk_plan (CoveringIndexScan (ix_name spec) (ix_keys spec) (Some seek) proj) 5
              (''Covering index on '' @ in_quotes field @ '' (no document fetch needed)''))
          else if covering \<and> is_range_query v then
            Some (mk_plan (CoveringIndexScan (ix_name spec) (ix_keys spec) None proj) 50
              (''Covering index range scan on '' @ in_quotes field @ '' (no document fetch needed)''))
          else if is_equality_query v then
            Some (mk_plan (IndexSeek (ix_name spec) (ix_keys spec) seek) 10
              (''Equality query on indexed field '' @ in_quotes field))
          else if is_range_query v then
            Some (mk_plan (IndexScan (ix_name spec) (ix_keys spec)) 100
              (''Range query on indexed field '' @ in_quotes field))
          else None)))"

definition insert_plain :: "doc \<Rightarrow> string \<times> bson \<Rightarrow> doc" where
  "insert_plain out kv = (case kv of (k, v) \<Rightarrow> if starts_with k ''$'' then out else doc_insert k v out)"

definition collect_field_conditions :: "doc \<Rightarrow> doc" where
  "collect_field_conditions query = foldl (\<lambda>out (k, v).
     if k = ''$and'' then (case as_array_opt v of
         Some arr \<Rightarrow> foldl (\<lambda>out item. case as_document item of
             Some d \<Rightarrow> foldl insert_plain out d
           | None \<Rightarrow> out) out arr
       | None \<Rightarrow> out)
     else insert_plain out (k, v)) [] query"

definition parse_point_coords :: "bson \<Rightarrow> (f64 \<times> f64) option" where
  "parse_point_coords coords = (case as_array_opt coords of
     Some (a # b # _) \<Rightarrow> Option.bind (as_f64 a) (\<lambda>lon. Option.bind (as_f64 b) (\<lambda>lat. Some (lon, lat)))
   | _ \<Rightarrow> None)"

definition parse_field_near_spec :: "doc \<Rightarrow> (f64 \<times> f64 \<times> f64 option \<times> f64 option) option" where
  "parse_field_near_spec cond =
     (let outer_max = get_f64 cond ''$maxDistance''; outer_min = get_f64 cond ''$minDistance'' in
      Option.bind (opt_else (doc_get cond ''$near'') (doc_get cond ''$nearSphere'')) (\<lambda>nv.
      case as_array_opt nv of
        Some arr \<Rightarrow> map_option (\<lambda>(lon, lat). (lon, lat, outer_max, outer_min)) (parse_point_coords (Array arr))
      | None \<Rightarrow>
          Option.bind (as_document nv) (\<lambda>spec.
          Option.bind (Option.bind (doc_get spec ''$geometry'') as_document) (\<lambda>geom.
          if doc_get geom ''type'' \<noteq> Some (Str ''Point'') then None else
          Option.bind (doc_get geom ''coordinates'') (\<lambda>coords.
          map_option (\<lambda>(lon, lat). (lon, lat, opt_else (get_f64 spec ''$maxDistance'') outer_max,
              opt_else (get_f64 spec ''$minDistance'') outer_min)) (parse_point_coords coords))))))"

definition parse_center_sphere :: "doc \<Rightarrow> (f64 \<times> f64 \<times> f64) option" where
  "parse_center_sphere gw =
     Option.bind (Option.bind (doc_get gw ''$centerSphere'') as_array_opt) (\<lambda>a.
     case a of
       c # r # _ \<Rightarrow>
         Option.bind (parse_point_coords c) (\<lambda>(lon, lat).
         Option.bind (as_f64 r) (\<lambda>rad. if f64_lt rad f64_zero then None else Some (lon, lat, rad)))
     | _ \<Rightarrow> None)"

definition parse_geo_intersects_block :: "externs \<Rightarrow> doc \<Rightarrow> 64 word list option" where
  "parse_geo_intersects_block X cond =
     Option.bind (Option.bind (doc_get cond ''$geoIntersects'') as_document) (\<lambda>nested.
     Option.bind (Option.bind (doc_get nested ''$geometry'') as_document) (\<lambda>g. x_covering_cells X g))"

definition plan_geo_within :: "externs \<Rightarrow> index_spec \<Rightarrow> string \<Rightarrow> doc \<Rightarrow> query_plan option" where
  "plan_geo_within X idx field gw = (case parse_center_sphere gw of
     Some (lon, lat, rrad) \<Rightarrow>
       Some (mk_plan (GeoCapWithin (ix_name idx) field lon lat (f64_mul rrad earth_radius_meters)) 55
         (''$geoWithin $centerSphere on 2dsphere field '' @ in_quotes field))
   | None \<Rightarrow>
       Option.bind (Option.bind (doc_get gw ''$geometry'') as_document) (\<lambda>g.
       map_option (\<lambda>cells. mk_plan (GeoCellCover (ix_name idx) field cells) 58
         (''$geoWithin $geometry on 2dsphere field '' @ in_quotes field)) (x_covering_cells X g)))"

definition evaluate_2dsphere_plan :: "externs \<Rightarrow> doc \<Rightarrow> index_spec \<Rightarrow> query_plan option" where
  "evaluate_2dsphere_plan X query idx =
     Option.bind (twodsphere_field (ix_keys idx)) (\<lambda>field.
     Option.bind (Option.bind (doc_get (collect_field_conditions query) field) as_document) (\<lambda>inner.
     case parse_field_near_spec inner of
       Some (lon, lat, max_m, min_m) \<Rightarrow>
         Some (mk_plan (GeoNear (ix_name idx) field lon lat (opt_else max_m (Some default_near_max)) min_m) 50
           (''$near / $nearSphere on 2dsphere field '' @ in_quotes field))
     | None \<Rightarrow> (case parse_geo_intersects_block X inner of
         Some cells \<Rightarrow>
           Some (mk_plan (GeoCellCover (ix_name idx) field cells) 58
             (''$geoIntersects on 2dsphere field '' @ in_quotes field))
       | None \<Rightarrow>
           Option.bind (Option.bind (doc_get inner ''$geoWithin'') as_document) (plan_geo_within X idx field))))"

definition plan_vector :: "doc \<Rightarrow> index_spec \<Rightarrow> query_plan option" where
  "plan_vector query spec =
     Option.bind (vector_field (ix_keys spec)) (\<lambda>field.
     if doc_get query field = None then None else
     (let vopts = vector_options (ix_options spec); dimensions = opt_or 0 (map_option vo_dimensions vopts) in
      if dimensions = 0 then None
      else Some (mk_plan (VectorIndexSearch (ix_name spec) field dimensions (opt_or ''cosine'' (map_option vo_metric vopts))
          (Option.bind vopts vo_ef_construction) (Option.bind vopts vo_m) (opt_or ''hnsw'' (map_option vo_indexing_method vopts)))
        30 (''Vector index '' @ in_quotes (ix_name spec) @ '' on field '' @ in_quotes field))))"

definition index_prefix_length :: "index_spec \<Rightarrow> nat \<Rightarrow> nat" where
  "index_prefix_length spec default_length = opt_or default_length (map_option prefix_length (prefix_opts (ix_options spec)))"

text \<open>The candidate plan of an index: the body of the planner's loop.\<close>

definition candidate_plan :: "externs \<Rightarrow> doc \<Rightarrow> doc option \<Rightarrow> index_spec \<Rightarrow> query_plan option" where
  "candidate_plan X query projection spec =
     (if \<not> index_eligible_for_query X spec query then None
      else if is_2dsphere_keys (ix_keys spec) then evaluate_2dsphere_plan X query spec
      else case resolve_index_type (ix_keys spec) (ix_options spec) of
        Bitmap \<Rightarrow> (case ix_keys spec of
            (field, _) # _ \<Rightarrow>
              if doc_get query field = None then None
              else Some (mk_plan (BitmapScan (ix_name spec) field) 15
                (''Bitmap index '' @ in_quotes (ix_name spec) @ '' on field '' @ in_quotes field))
          | [] \<Rightarrow> None)
      | Prefix \<Rightarrow> (case ix_keys spec of
            (field, _) # _ \<Rightarrow>
              if doc_get query field = None then None
              else (let n = index_prefix_length spec 16 in
                Some (mk_plan (PrefixIndexScan (ix_name spec) (ix_keys spec) n) 80
                  (''Prefix index '' @ in_quotes (ix_name spec) @ '' (prefix_length='' @ show_nat n @ '')'')))
          | [] \<Rightarrow> None)
      | TextType \<Rightarrow>
          if doc_get query ''$text'' = None \<or> text_fields (ix_keys spec) = [] then None
          else Some (mk_plan (TextIndexScan (ix_name spec) (text_fields (ix_keys spec))) 50
            (''Text index '' @ in_quotes (ix_name spec)))
      | VectorSearch \<Rightarrow> plan_vector query spec
      | _ \<Rightarrow> evaluate_index_for_query_with_projection query spec projection)"

definition plan_simple_query_with_projection :: "externs \<Rightarrow> doc \<Rightarrow> index_spec list \<Rightarrow> doc option \<Rightarrow> query_plan" where
  "plan_simple_query_with_projection X query indexes projection =
     opt_or (mk_plan CollectionScan u64_max ''No suitable index found'')
       (foldl (\<lambda>best spec. case candidate_plan X query projection spec of
          Some plan \<Rightarrow> Some (pick_better best plan)
        | None \<Rightarrow> best) None indexes)"

section \<open>Plans for \<^verbatim>\<open>$or\<close>\<close>

definition or_base :: "doc \<Rightarrow> doc" where
  "or_base query = doc_extend [] (filter (\<lambda>(k, _). k \<noteq> ''$or'') query)"

definition or_size :: "doc \<Rightarrow> nat" where
  "or_size query = (case doc_get query ''$or'' of Some v \<Rightarrow> bson_nodes v | None \<Rightarrow> 0)"

lemma doc_get_extend: "distinct (map fst e) \<Longrightarrow> doc_get (doc_extend d e) k = (case doc_get e k of Some v \<Rightarrow> Some v | None \<Rightarrow> doc_get d k)"
  unfolding doc_extend_def
proof (induction e arbitrary: d)
  case (Cons kv e)
  obtain j v where kv: "kv = (j, v)" by (cases kv)
  have "doc_get e j = None" using Cons.prems by (simp add: kv map_of_eq_None_iff)
  then show ?case using Cons by (auto simp: kv split: option.splits)
qed simp

lemma doc_get_extend_cases: "doc_get (doc_extend d e) k = Some v \<Longrightarrow> (k, v) \<in> set e \<or> doc_get d k = Some v"
  unfolding doc_extend_def
proof (induction e arbitrary: d)
  case (Cons kv e)
  obtain j w where kv: "kv = (j, w)" by (cases kv)
  show ?case using Cons.IH [of "doc_insert j w d"] Cons.prems by (auto simp: kv split: if_splits)
qed simp

lemma or_base_no_or: "doc_get (or_base query) ''$or'' = None"
  unfolding or_base_def using doc_get_extend_cases [of "[]" "filter (\<lambda>(k, _). k \<noteq> ''$or'') query" "''$or''"]
  by (cases "doc_get (doc_extend [] (filter (\<lambda>(k, _). k \<noteq> ''$or'') query)) ''$or''") auto

lemma or_size_branch:
  assumes "doc_get query ''$or'' = Some (Array branches)" "Document b \<in> set branches"
  shows "or_size (doc_extend (or_base query) b) < or_size query"
proof (cases "doc_get (doc_extend (or_base query) b) ''$or''")
  case None
  then show ?thesis using bson_nodes_item [OF assms(2)] by (simp add: or_size_def assms(1))
next
  case (Some v)
  then have "(''$or'', v) \<in> set b" using doc_get_extend_cases [OF Some] or_base_no_or by simp
  then have "bson_nodes v < bson_nodes (Array branches)"
    using bson_nodes_field [of "''$or''" v b] bson_nodes_item [OF assms(2)] by simp
  then show ?thesis using Some by (simp add: or_size_def assms(1))
qed

definition scan_plan :: "string \<Rightarrow> query_plan" where
  "scan_plan reason = mk_plan CollectionScan u64_max reason"

text \<open>The loop over the branches stops at the first one that needs a collection scan.\<close>

function plan_query_with_projection :: "externs \<Rightarrow> doc \<Rightarrow> index_spec list \<Rightarrow> doc option \<Rightarrow> query_plan" where
  "plan_query_with_projection X query indexes projection =
     (if query = [] then scan_plan ''Empty query requires full collection scan''
      else case Option.bind (doc_get query ''$or'') as_array_opt of
        None \<Rightarrow> plan_simple_query_with_projection X query indexes projection
      | Some branches \<Rightarrow>
          (case map_res (\<lambda>b. case as_document b of
               None \<Rightarrow> Inl ''$or requires array of documents''
             | Some branch_doc \<Rightarrow>
                 (let sub = plan_query_with_projection X (doc_extend (or_base query) branch_doc) indexes None in
                  if qp_plan sub = CollectionScan then Inl ''$or branch falls back to collection scan''
                  else Inr (qp_plan sub))) branches of
             Inl reason \<Rightarrow> scan_plan reason
           | Inr subplans \<Rightarrow>
               if subplans = [] then scan_plan ''Empty $or''
               else mk_plan (OrUnionPlans subplans) 200 ''Union of indexed $or branches''))"
  by pat_completeness auto

termination
  by (relation "measure (\<lambda>(X, query, indexes, projection). or_size query)")
    (auto simp: bind_eq_Some_conv intro: or_size_branch)

declare plan_query_with_projection.simps [simp del]

definition plan_query :: "externs \<Rightarrow> doc \<Rightarrow> index_spec list \<Rightarrow> query_plan" where
  "plan_query X query indexes = plan_query_with_projection X query indexes None"

section \<open>Sorted scans\<close>

definition directions :: "doc \<Rightarrow> (string \<times> index_direction) list" where
  "directions keys = List.map_filter (\<lambda>(k, v). map_option (Pair k) (from_bson v)) keys"

definition sort_matches_index :: "doc \<Rightarrow> doc \<Rightarrow> bool option" where
  "sort_matches_index srt index_keys =
     (let sort_fields = directions srt; index_fields = directions index_keys; pairs = zip sort_fields index_fields in
      if sort_fields = [] \<or> length index_fields < length sort_fields then None
      else if list_ex (\<lambda>((sf, _), (ik, _)). sf \<noteq> ik) pairs then None
      else if list_all (\<lambda>((_, sd), (_, id)). sd = id) pairs then Some False
      else if list_all (\<lambda>((_, sd), (_, id)). sd \<noteq> id) pairs then Some True
      else None)"

definition plan_sorted_index_scan :: "externs \<Rightarrow> doc \<Rightarrow> index_spec list \<Rightarrow> nat \<Rightarrow> doc \<Rightarrow> query_plan option" where
  "plan_sorted_index_scan X srt indexes limit query = Option.bind
     (find (\<lambda>spec. resolve_index_type (ix_keys spec) (ix_options spec) = BTree \<and> index_eligible_for_query X spec query \<and>
        sort_matches_index srt (ix_keys spec) \<noteq> None) indexes)
     (\<lambda>spec. map_option (\<lambda>reverse.
        mk_plan (SortedIndexScan (ix_name spec) (ix_keys spec) limit reverse) (min u64_max (limit * 2))
          (''Index '' @ in_quotes (ix_name spec) @ '' provides sort order'' @ (if reverse then '' (reverse)'' else [])))
        (sort_matches_index srt (ix_keys spec)))"

definition plan_query_full :: "externs \<Rightarrow> doc \<Rightarrow> index_spec list \<Rightarrow> doc option \<Rightarrow> doc option \<Rightarrow> int option \<Rightarrow> query_plan" where
  "plan_query_full X query indexes projection srt limit =
     (let base_plan = plan_query_with_projection X query indexes projection in
      case (srt, limit) of
        (Some sort_doc, Some lim) \<Rightarrow>
          if 0 < lim then (case plan_sorted_index_scan X sort_doc indexes (nat lim) query of
              Some sorted_plan \<Rightarrow> if qp_cost sorted_plan < qp_cost base_plan then sorted_plan else base_plan
            | None \<Rightarrow> base_plan)
          else base_plan
      | _ \<Rightarrow> base_plan)"

definition selectivity_of_op :: "string \<Rightarrow> 32 word" where
  "selectivity_of_op op =
     (if op = ''$eq'' then 10 else if op = ''$ne'' then 90
      else if op \<in> {''$gt'', ''$gte'', ''$lt'', ''$lte''} then 30
      else if op = ''$in'' then 20 else if op = ''$nin'' then 80 else if op = ''$exists'' then 70 else 50)"

definition calculate_selectivity :: "doc \<Rightarrow> 32 word" where
  "calculate_selectivity query =
     (if query = [] then - 1
      else sum_list (map (\<lambda>(field, v).
        if starts_with field ''$'' then 50
        else case as_document v of
          Some d \<Rightarrow> sum_list (map (\<lambda>(op, _). selectivity_of_op op) d)
        | None \<Rightarrow> 10) query))"

end
