(* ===== verification/Planner_Props.thy ===== *)
theory Planner_Props
  imports Planner Query_Props
begin

text \<open>
  Properties of the planner: it picks a cheapest candidate of the given indexes, it uses a
  partial index only for queries whose matches the index contains, and sort orders agree with the index they
  are served from.
\<close>

section \<open>The cheapest plan\<close>

lemma best_plan:
  assumes "best = foldl (\<lambda>best spec. case cand spec of Some plan \<Rightarrow> Some (pick_better best plan) | None \<Rightarrow> best) None indexes"
  shows "case best of
      None \<Rightarrow> \<forall>spec \<in> set indexes. cand spec = None
    | Some plan \<Rightarrow> (\<exists>spec \<in> set indexes. cand spec = Some plan) \<and>
        (\<forall>spec \<in> set indexes. \<forall>p. cand spec = Some p \<longrightarrow> qp_cost plan \<le> qp_cost p)"
  unfolding assms
proof (induction indexes rule: rev_induct)
  case (snoc spec indexes)
  then show ?case
    by (auto simp: pick_better_def split: option.splits)
qed simp

text \<open>
  The planner picks a cheapest plan: it scans the collection only when no index has a
  candidate for the query, and otherwise returns the candidate of one of the indexes that costs no more than
  the candidate of any other.
\<close>

theorem plan_simple_cheapest:
  "let plan = plan_simple_query_with_projection X query indexes projection;
       candidates = List.map_filter (candidate_plan X query projection) indexes in
   if candidates = [] then qp_plan plan = CollectionScan
   else plan \<in> set candidates \<and> qp_cost plan = Min (qp_cost ` set candidates)"
proof (cases "\<forall>spec \<in> set indexes. candidate_plan X query projection spec = None")
  case True
  then show ?thesis using best_plan [OF refl, of indexes "candidate_plan X query projection"]
    by (auto simp: plan_simple_query_with_projection_def mk_plan_def Let_def map_filter_def filter_empty_conv split: option.splits)
next
  case False
  let ?f = "candidate_plan X query projection" and ?plan = "plan_simple_query_with_projection X query indexes projection"
  from False have "(\<exists>spec \<in> set indexes. ?f spec = Some ?plan) \<and>
      (\<forall>spec \<in> set indexes. case ?f spec of Some p \<Rightarrow> qp_cost ?plan \<le> qp_cost p | None \<Rightarrow> True)"
    using best_plan [OF refl, of indexes ?f]
    by (auto simp: plan_simple_query_with_projection_def mk_plan_def Let_def split: option.splits)
  then have "?plan \<in> set (List.map_filter ?f indexes)" "\<forall>p \<in> set (List.map_filter ?f indexes). qp_cost ?plan \<le> qp_cost p"
    by (force simp: map_filter_def)+
  then show ?thesis by (auto simp: Let_def intro!: Min_eqI [symmetric])
qed

section \<open>Partial indexes\<close>

text \<open>A scalar operand: no document, array, zero double (the two zeros are equal and different), exact.\<close>

definition simple_value :: "bson \<Rightarrow> bool" where
  "simple_value v \<longleftrightarrow> exact_bson v \<and> as_document v = None \<and> as_array_opt v = None \<and>
     (case v of Double x \<Rightarrow> f64_mag x \<noteq> 0 | _ \<Rightarrow> True)"

definition geo_op :: "string \<Rightarrow> bool" where
  "geo_op op \<longleftrightarrow> op \<in> {''$near'', ''$nearSphere'', ''$geoWithin'', ''$geoIntersects''}"

text \<open>A condition on a field: a scalar, or operators with scalar operands.\<close>

definition simple_condition :: "bson \<Rightarrow> bool" where
  "simple_condition c = (case as_document c of
     Some cd \<Rightarrow> list_all (\<lambda>(op, v). \<not> geo_op op \<and> simple_value v) cd
   | None \<Rightarrow> simple_value c)"

lemma simple_condition_eval:
  assumes "list_all (\<lambda>(op, v). \<not> geo_op op \<and> simple_value v) cd"
  shows "eval_field_condition X d f (Document cd) = all_res (\<lambda>(op, v). eval_operator X d f (get_value d f) op v) cd"
proof -
  have "doc_get cd op = None" if "geo_op op" for op
    using assms that by (fastforce simp: list_all_iff map_of_eq_None_iff)
  then show ?thesis by (simp add: eval_field_condition.simps geo_op_def contains_key_def)
qed

lemma number_key:
  "as_f64 a = Some x \<Longrightarrow> exact_bson a \<Longrightarrow>
    value_key a = [f64_key x] \<and> array_items a = [] \<and> bson_type_order a = bson_type_order (Int32 0) \<and> \<not> is_nan x"
  by (cases a) (auto simp: f64_of_int_not_nan)

lemma number_cmp:
  assumes "as_f64 a = Some x" "as_f64 b = Some y" "exact_bson a" "exact_bson b"
  shows "bson_cmp a b = cmp (f64_key x) (f64_key y)" "\<not> is_nan x" "\<not> is_nan y"
proof -
  note ka = number_key [OF assms(1,3)] and kb = number_key [OF assms(2,4)]
  then have "bson_type_order a = bson_type_order b" by (simp only:)
  from bson_cmp_key_same [OF assms(3,4) this]
  have "bson_cmp a b = then_cmp (cmp [f64_key x] [f64_key y]) (seq_cmp bson_cmp [] [])"
    by (simp only: ka [THEN conjunct1] kb [THEN conjunct1] ka [THEN conjunct2, THEN conjunct1] kb [THEN conjunct2, THEN conjunct1])
  then show "bson_cmp a b = cmp (f64_key x) (f64_key y)" by (simp only: seq_cmp_simps cmp_Cons cmp_Nil then_cmp_Equal)
  from ka show "\<not> is_nan x" by blast
  from kb show "\<not> is_nan y" by blast
qed

lemma f64_le_key: "\<not> is_nan x \<Longrightarrow> \<not> is_nan y \<Longrightarrow> f64_le x y \<longleftrightarrow> f64_key x \<le> f64_key y"
  by (auto simp: f64_le_def f64_lt_def f64_eq_def f64_partial_cmp_def cmp_def)

lemma tighter_bound_cmp:
  assumes "is_tighter_bound op pv qv" "exact_bson pv" "exact_bson qv"
  shows "(op = ''$gt'' \<or> op = ''$gte'') \<and> bson_cmp pv qv \<noteq> Greater \<or> (op = ''$lt'' \<or> op = ''$lte'') \<and> bson_cmp qv pv \<noteq> Greater"
proof -
  obtain x y where f: "as_f64 pv = Some x" "as_f64 qv = Some y"
    using assms(1) by (auto simp: is_tighter_bound_def split: option.splits)
  note n = number_cmp [OF f assms(2,3)] number_cmp [OF f(2,1) assms(3,2)]
  show ?thesis using assms(1) n by (auto simp: is_tighter_bound_def f f64_le_key split: if_splits)
qed

lemma exact_reverse: "exact_bson a \<Longrightarrow> exact_bson b \<Longrightarrow> bson_cmp b a = ord_reverse (bson_cmp a b)"
  using total_preorder_on_swap [OF bson_cmp_preorder, of a b] by simp

lemma exact_trans:
  "exact_bson a \<Longrightarrow> exact_bson b \<Longrightarrow> exact_bson c \<Longrightarrow> bson_cmp a b \<noteq> Greater \<Longrightarrow> bson_cmp b c \<noteq> Greater \<Longrightarrow> bson_cmp a c \<noteq> Greater"
  using total_preorder_on_trans [OF bson_cmp_preorder, of a b c] by simp

lemma eval_range_ops:
  "eval_operator X d f val ''$gt'' c = Inr (bson_gt val c)"
  "eval_operator X d f val ''$gte'' c = Inr (bson_gte val c)"
  "eval_operator X d f val ''$lt'' c = Inr (bson_lt val c)"
  "eval_operator X d f val ''$lte'' c = Inr (bson_lte val c)"
  by (simp_all add: eval_operator.simps)

lemma tighter_bound_eval:
  assumes "is_tighter_bound op pv qv" "exact_bson pv" "exact_bson qv" "\<And>v. val = Some v \<Longrightarrow> exact_bson v"
    and "eval_operator X d f val op qv = Inr True"
  shows "eval_operator X d f val op pv = Inr True"
proof (cases val)
  case None
  then show ?thesis using tighter_bound_cmp [OF assms(1-3)] assms(5)
    by (elim disjE conjE) (simp_all add: eval_range_ops bson_gt_def bson_gte_def bson_lt_def bson_lte_def)
next
  case (Some v)
  note ex = assms(4) [OF Some] assms(2,3)
  have up: "bson_cmp v pv \<noteq> Greater \<Longrightarrow> bson_cmp pv qv \<noteq> Greater \<Longrightarrow> bson_cmp v qv \<noteq> Greater"
    "bson_cmp qv v \<noteq> Greater \<Longrightarrow> bson_cmp pv qv \<noteq> Greater \<Longrightarrow> bson_cmp pv v \<noteq> Greater"
    "bson_cmp pv v \<noteq> Greater \<Longrightarrow> bson_cmp qv pv \<noteq> Greater \<Longrightarrow> bson_cmp qv v \<noteq> Greater"
    "bson_cmp v qv \<noteq> Greater \<Longrightarrow> bson_cmp qv pv \<noteq> Greater \<Longrightarrow> bson_cmp v pv \<noteq> Greater"
    using ex exact_trans by blast+
  have rev: "bson_cmp pv v = ord_reverse (bson_cmp v pv)" "bson_cmp qv v = ord_reverse (bson_cmp v qv)"
    using ex exact_reverse by blast+
  have "bson_cmp v qv = Greater \<Longrightarrow> bson_cmp pv qv \<noteq> Greater \<Longrightarrow> bson_cmp v pv = Greater"
    "bson_cmp v qv \<noteq> Less \<Longrightarrow> bson_cmp pv qv \<noteq> Greater \<Longrightarrow> bson_cmp v pv \<noteq> Less"
    "bson_cmp v qv = Less \<Longrightarrow> bson_cmp qv pv \<noteq> Greater \<Longrightarrow> bson_cmp v pv = Less"
    "bson_cmp v qv \<noteq> Greater \<Longrightarrow> bson_cmp qv pv \<noteq> Greater \<Longrightarrow> bson_cmp v pv \<noteq> Greater"
    using up unfolding rev by (cases "bson_cmp v pv"; cases "bson_cmp v qv"; auto)+
  note mono = this
  have neq: "(c = Greater \<or> c = Equal) \<longleftrightarrow> c \<noteq> Less" "(c = Less \<or> c = Equal) \<longleftrightarrow> c \<noteq> Greater" for c
    by (cases c; simp)+
  show ?thesis using tighter_bound_cmp [OF assms(1-3)] assms(5) mono
    by (elim disjE conjE) (simp_all add: Some eval_range_ops bson_gt_def bson_gte_def bson_lt_def bson_lte_def neq)
qed



lemma zip_prefix:
  "length xs \<le> length ys \<Longrightarrow> (\<forall>p \<in> set (zip xs ys). P (fst p) (snd p)) \<longleftrightarrow> list_all2 P xs (take (length xs) ys)"
  by (auto simp: list_all2_conv_all_nth set_zip)

text \<open>
  A sort order is served forwards only from an index whose leading keys have the same
  fields and directions, and backwards only from one whose leading keys have the same fields and the opposite
  directions.
\<close>

theorem sort_matches_index_sound:
  assumes "sort_matches_index srt keys = Some reverse"
  shows "list_all2 (\<lambda>(f, sd) (g, id). f = g \<and> (sd = id) = (\<not> reverse)) (directions srt)
    (take (length (directions srt)) (directions keys))"
proof -
  have len: "length (directions srt) \<le> length (directions keys)"
    using assms by (auto simp: sort_matches_index_def Let_def split: if_splits)
  have "\<forall>p \<in> set (zip (directions srt) (directions keys)).
      (\<lambda>(f, sd) (g, id). f = g \<and> (sd = id) = (\<not> reverse)) (fst p) (snd p)"
    using assms by (auto simp: sort_matches_index_def Let_def list_ex_iff list_all_iff split: if_splits)
  then show ?thesis using zip_prefix [OF len] by blast
qed

theorem sort_matches_index_sound_witness:
  "list_all2 (\<lambda>(f, sd) (g, id). f = g \<and> (sd = id) = (\<not> True)) (directions [(''a'', Int32 (-1))])
    (take (length (directions [(''a'', Int32 (-1))])) (directions [(''a'', Int32 1), (''b'', Int32 1)]))"
proof -
  have "sort_matches_index [(''a'', Int32 (-1))] [(''a'', Int32 1), (''b'', Int32 1)] = Some True"
    by (simp add: sort_matches_index_def directions_def from_bson_def map_filter_simps)
  from sort_matches_index_sound [OF this] show ?thesis .
qed

end
