(* ===== verification/Bitmap_Index.thy ===== *)
theory Bitmap_Index
  imports Ordered Rust_Std
begin

text \<open>
  The bitmap index (\<^verbatim>\<open>index/bitmap_index.rs\<close>): positions stand for documents, each value has the list of
  its positions.  A locale states what such an index promises, a relation between values and
  document ids; the bitmap index is an instance, for as long as its 32-bit positions do not wrap.
\<close>

record bitmap_index =
  bitmaps :: "(bytes \<times> 32 word list) list"
  pos_to_id :: "string list"
  id_to_pos :: "(string \<times> 32 word) list"
  next_pos :: "32 word"

definition bm_new :: bitmap_index where
  "bm_new = \<lparr>bitmaps = [], pos_to_id = [], id_to_pos = [], next_pos = 0\<rparr>"

text \<open>The position of a document, a new one when it has none.\<close>

definition bm_position :: "bitmap_index \<Rightarrow> string \<Rightarrow> 32 word \<times> bitmap_index" where
  "bm_position b doc_id = (case map_of (id_to_pos b) doc_id of
     Some existing \<Rightarrow> (existing, b)
   | None \<Rightarrow>
       (let p = next_pos b; ids = pos_to_id b;
            sized = (if length ids \<le> unat p then ids @ replicate (unat p + 1 - length ids) [] else ids) in
        (p, b\<lparr>next_pos := p + 1, id_to_pos := al_insert doc_id p (id_to_pos b), pos_to_id := sized[unat p := doc_id]\<rparr>)))"

definition bm_lookup :: "bitmap_index \<Rightarrow> bytes \<Rightarrow> 32 word list" where
  "bm_lookup b value_bytes = opt_or [] (map_of (bitmaps b) value_bytes)"

definition bm_insert :: "bitmap_index \<Rightarrow> string \<Rightarrow> bytes \<Rightarrow> bitmap_index" where
  "bm_insert b doc_id value_bytes = (case bm_position b doc_id of (pos, b') \<Rightarrow>
     b'\<lparr>bitmaps := bt_insert value_bytes (bm_lookup b' value_bytes @ [pos]) (bitmaps b')\<rparr>)"

definition bm_build :: "(bytes \<times> string) list \<Rightarrow> bitmap_index" where
  "bm_build entries = foldl (\<lambda>b (value_bytes, doc_id). bm_insert b doc_id value_bytes) bm_new entries"

definition bm_remove :: "bitmap_index \<Rightarrow> string \<Rightarrow> bitmap_index" where
  "bm_remove b doc_id = (case map_of (id_to_pos b) doc_id of
     None \<Rightarrow> b
   | Some pos \<Rightarrow> b\<lparr>
       bitmaps := map (\<lambda>(v, ps). (v, filter (\<lambda>p. p \<noteq> pos) ps)) (bitmaps b),
       id_to_pos := al_remove doc_id (id_to_pos b),
       pos_to_id := (if unat pos < length (pos_to_id b) then (pos_to_id b)[unat pos := []] else pos_to_id b)\<rparr>)"

definition sort_dedup :: "32 word list \<Rightarrow> 32 word list" where
  "sort_dedup ps = remdups_adj (sort ps)"

definition bm_lookup_in :: "bitmap_index \<Rightarrow> bytes list \<Rightarrow> 32 word list" where
  "bm_lookup_in b values = sort_dedup (concat (map (bm_lookup b) values))"

text \<open>\<^verbatim>\<open>BTreeMap::range\<close> panics, here \<^term>\<open>None\<close>, when the lower bound is above the upper one.\<close>

definition bm_lookup_range :: "bitmap_index \<Rightarrow> bytes option \<Rightarrow> bytes option \<Rightarrow> 32 word list option" where
  "bm_lookup_range b lo hi =
     (if (case (lo, hi) of (Some l, Some h) \<Rightarrow> h < l | _ \<Rightarrow> False) then None
      else Some (sort_dedup (concat (map snd (filter (\<lambda>(v, _).
        (case lo of Some l \<Rightarrow> l \<le> v | None \<Rightarrow> True) \<and> (case hi of Some h \<Rightarrow> v \<le> h | None \<Rightarrow> True)) (bitmaps b))))))"

definition bm_and :: "32 word list \<Rightarrow> 32 word list \<Rightarrow> 32 word list" where
  "bm_and a b = filter (\<lambda>p. p \<in> set a) b"

definition bm_or :: "32 word list \<Rightarrow> 32 word list \<Rightarrow> 32 word list" where
  "bm_or a b = sort_dedup (a @ b)"

definition positions_to_ids :: "bitmap_index \<Rightarrow> 32 word list \<Rightarrow> string list" where
  "positions_to_ids b positions = List.map_filter (\<lambda>p.
     if unat p < length (pos_to_id b) \<and> pos_to_id b ! unat p \<noteq> [] then Some (pos_to_id b ! unat p) else None) positions"

definition bm_len :: "bitmap_index \<Rightarrow> nat" where
  "bm_len b = length (id_to_pos b)"

definition bm_is_empty :: "bitmap_index \<Rightarrow> bool" where
  "bm_is_empty b \<longleftrightarrow> id_to_pos b = []"

definition distinct_count :: "bitmap_index \<Rightarrow> nat" where
  "distinct_count b = length (bitmaps b)"

section \<open>What an index of ids promises\<close>

datatype id_op = IdInsert string bytes | IdRemove string

fun rel_step :: "(bytes \<times> string) set \<Rightarrow> id_op \<Rightarrow> (bytes \<times> string) set" where
  "rel_step R (IdInsert doc_id v) = insert (v, doc_id) R"
| "rel_step R (IdRemove doc_id) = {(v, i) \<in> R. i \<noteq> doc_id}"

fun names_id :: "id_op \<Rightarrow> bool" where
  "names_id (IdInsert doc_id v) = (doc_id \<noteq> [])"
| "names_id (IdRemove doc_id) = (doc_id \<noteq> [])"

fun id_step :: "('i \<Rightarrow> string \<Rightarrow> bytes \<Rightarrow> 'i) \<Rightarrow> ('i \<Rightarrow> string \<Rightarrow> 'i) \<Rightarrow> 'i \<Rightarrow> id_op \<Rightarrow> 'i" where
  "id_step ins rem b (IdInsert doc_id v) = ins b doc_id v"
| "id_step ins rem b (IdRemove doc_id) = rem b doc_id"

text \<open>
  An index holds after \<open>n\<close> insertions, within its limit, a relation; insertion adds a pair and
  removal drops a document.
\<close>

locale id_index =
  fixes holds :: "nat \<Rightarrow> 'i \<Rightarrow> (bytes \<times> string) set \<Rightarrow> bool"
    and empty :: 'i
    and ins :: "'i \<Rightarrow> string \<Rightarrow> bytes \<Rightarrow> 'i"
    and rem :: "'i \<Rightarrow> string \<Rightarrow> 'i"
    and limit :: nat
  assumes holds_empty: "holds 0 empty {}"
    and holds_ins: "holds n b R \<Longrightarrow> Suc n < limit \<Longrightarrow> doc_id \<noteq> [] \<Longrightarrow> holds (Suc n) (ins b doc_id v) (insert (v, doc_id) R)"
    and holds_rem: "holds n b R \<Longrightarrow> doc_id \<noteq> [] \<Longrightarrow> holds n (rem b doc_id) {(v, i) \<in> R. i \<noteq> doc_id}"
    and holds_mono: "holds n b R \<Longrightarrow> n \<le> m \<Longrightarrow> holds m b R"
begin

lemma id_step_holds:
  assumes "holds n b R" "Suc n < limit" "names_id x"
  shows "holds (Suc n) (id_step ins rem b x) (rel_step R x)"
  using assms by (cases x) (auto intro: holds_ins holds_rem holds_mono [OF holds_rem])

lemma run_holds:
  assumes "length ops < limit" "\<forall>x \<in> set ops. names_id x"
  shows "holds (length ops) (foldl (id_step ins rem) empty ops) (foldl rel_step {} ops)"
  using assms
proof (induction ops rule: rev_induct)
  case (snoc x ops)
  then show ?case by (auto intro!: id_step_holds)
qed (simp add: holds_empty)

end

section \<open>The bitmap index\<close>

definition bm_inv :: "bitmap_index \<Rightarrow> bool" where
  "bm_inv b \<longleftrightarrow> bt_ok (bitmaps b) \<and> length (pos_to_id b) = unat (next_pos b) \<and>
     (\<forall>i p. map_of (id_to_pos b) i = Some p \<longrightarrow> unat p < length (pos_to_id b) \<and> pos_to_id b ! unat p = i \<and> i \<noteq> []) \<and>
     (\<forall>v. \<forall>p \<in> set (bm_lookup b v). \<exists>i. map_of (id_to_pos b) i = Some p)"

definition bm_rel :: "bitmap_index \<Rightarrow> (bytes \<times> string) set" where
  "bm_rel b = {(v, i). \<exists>p \<in> set (bm_lookup b v). map_of (id_to_pos b) i = Some p}"

definition bm_holds :: "nat \<Rightarrow> bitmap_index \<Rightarrow> (bytes \<times> string) set \<Rightarrow> bool" where
  "bm_holds n b R \<longleftrightarrow> bm_inv b \<and> unat (next_pos b) \<le> n \<and> R = bm_rel b"

lemma bm_inv_inj:
  "bm_inv b \<Longrightarrow> map_of (id_to_pos b) i = Some p \<Longrightarrow> map_of (id_to_pos b) j = Some p \<Longrightarrow> i = j"
  unfolding bm_inv_def by blast

lemma bm_position_holds:
  assumes "bm_holds n b R" "Suc n < 2 ^ 32" "doc_id \<noteq> []" "bm_position b doc_id = (pos, b')"
  shows "bm_holds (Suc n) b' R" "map_of (id_to_pos b') doc_id = Some pos" "bitmaps b' = bitmaps b"
proof -
  show "map_of (id_to_pos b') doc_id = Some pos" "bitmaps b' = bitmaps b"
    using assms(4) by (auto simp: bm_position_def Let_def split: option.splits)
  show "bm_holds (Suc n) b' R"
  proof (cases "map_of (id_to_pos b) doc_id")
    case None
    have inv: "bm_inv b" and n: "unat (next_pos b) \<le> n" and R: "R = bm_rel b" using assms(1) by (auto simp: bm_holds_def)
    have len: "length (pos_to_id b) = unat (next_pos b)" using inv by (simp add: bm_inv_def)
    have b': "b' = b\<lparr>next_pos := next_pos b + 1, id_to_pos := al_insert doc_id (next_pos b) (id_to_pos b),
        pos_to_id := pos_to_id b @ [doc_id]\<rparr>"
      using assms(4) None len by (auto simp: bm_position_def Let_def list_update_append)
    have next_unat: "unat (next_pos b + 1) = Suc (unat (next_pos b))"
      using n assms(2) by (simp add: unat_word_ariths)
    have old: "unat p < unat (next_pos b)" if "map_of (id_to_pos b) i = Some p" for i p
      using inv len that by (auto simp: bm_inv_def)
    have fresh: "p \<noteq> next_pos b" if "p \<in> set (bm_lookup b v)" for v p
      using inv that old by (fastforce simp: bm_inv_def)
    have "unat p < length (pos_to_id b') \<and> pos_to_id b' ! unat p = i \<and> i \<noteq> []" if "map_of (id_to_pos b') i = Some p" for i p
    proof (cases "i = doc_id")
      case True
      then show ?thesis using that assms(3) by (auto simp: b' len [symmetric])
    next
      case False
      then have "map_of (id_to_pos b) i = Some p" using that by (simp add: b')
      then show ?thesis using inv by (auto simp: bm_inv_def b' nth_append)
    qed
    moreover have "\<exists>i. map_of (id_to_pos b') i = Some p" if p: "p \<in> set (bm_lookup b' v)" for v p
    proof -
      have "p \<in> set (bm_lookup b v)" using p by (simp add: b' bm_lookup_def)
      then obtain i where i: "map_of (id_to_pos b) i = Some p" using inv unfolding bm_inv_def by blast
      then have "i \<noteq> doc_id" using None by auto
      with i show ?thesis by (intro exI [of _ i]) (simp add: b')
    qed
    ultimately have "bm_inv b'"
      using inv len next_unat by (simp add: bm_inv_def b')
    moreover have "bm_rel b' = bm_rel b"
      using None fresh by (auto simp: bm_rel_def b' bm_lookup_def)
    ultimately show ?thesis using n next_unat by (simp add: bm_holds_def R b')
  qed (use assms in \<open>auto simp: bm_position_def bm_holds_def\<close>)
qed

lemma bm_insert_holds:
  assumes "bm_holds n b R" "Suc n < 2 ^ 32" "doc_id \<noteq> []"
  shows "bm_holds (Suc n) (bm_insert b doc_id v) (insert (v, doc_id) R)"
proof -
  obtain pos b' where pos: "bm_position b doc_id = (pos, b')" by (rule prod.exhaust)
  note h = bm_position_holds [OF assms pos]
  define c where "c = bm_insert b doc_id v"
  have c: "c = b'\<lparr>bitmaps := bt_insert v (bm_lookup b' v @ [pos]) (bitmaps b')\<rparr>"
    by (simp add: c_def bm_insert_def pos)
  have same: "pos_to_id c = pos_to_id b'" "id_to_pos c = id_to_pos b'" "next_pos c = next_pos b'" by (simp_all add: c)
  have look: "bm_lookup c w = (if w = v then bm_lookup b' v @ [pos] else bm_lookup b' w)" for w
    by (simp add: bm_lookup_def c)
  have inv: "bm_inv b'" and R: "R = bm_rel b'" using h(1) by (simp_all add: bm_holds_def)
  have live: "\<exists>i. map_of (id_to_pos c) i = Some p" if "p \<in> set (bm_lookup c w)" for w p
  proof (cases "p = pos")
    case True
    then show ?thesis using h(2) by (auto simp: same)
  next
    case False
    then have "p \<in> set (bm_lookup b' w)" using that by (auto simp: look split: if_splits)
    then show ?thesis using inv by (simp add: bm_inv_def same)
  qed
  have "bt_ok (bitmaps c)" using inv by (simp add: c bm_inv_def)
  with inv live have "bm_inv c" unfolding bm_inv_def same by blast
  moreover have "bm_rel c = insert (v, doc_id) R"
  proof -
    have at_pos: "map_of (id_to_pos b') i = Some pos \<longleftrightarrow> i = doc_id" for i
      using h(2) bm_inv_inj [OF inv h(2)] by blast
    have "(\<exists>p \<in> set (bm_lookup c w). map_of (id_to_pos c) i = Some p) \<longleftrightarrow>
        w = v \<and> i = doc_id \<or> (\<exists>p \<in> set (bm_lookup b' w). map_of (id_to_pos b') i = Some p)" for w i
      by (cases "w = v") (auto simp: look same at_pos)
    then show ?thesis unfolding R bm_rel_def by auto
  qed
  ultimately show ?thesis using h(1) unfolding c_def [symmetric] bm_holds_def by (simp add: same)
qed

lemma bm_remove_holds:
  assumes "bm_holds n b R" "doc_id \<noteq> []"
  shows "bm_holds n (bm_remove b doc_id) {(v, i) \<in> R. i \<noteq> doc_id}"
proof (cases "map_of (id_to_pos b) doc_id")
  case None
  then show ?thesis using assms by (auto simp: bm_remove_def bm_holds_def bm_rel_def)
next
  case (Some pos)
  have inv: "bm_inv b" and n: "unat (next_pos b) \<le> n" and R: "R = bm_rel b" using assms(1) by (auto simp: bm_holds_def)
  let ?c = "bm_remove b doc_id"
  have look: "bm_lookup ?c v = filter (\<lambda>p. p \<noteq> pos) (bm_lookup b v)" for v
    by (simp add: bm_lookup_def bm_remove_def Some map_of_map) (cases "map_of (bitmaps b) v"; simp)
  have ids: "map_of (id_to_pos ?c) i = (if i = doc_id then None else map_of (id_to_pos b) i)" for i
    by (simp add: bm_remove_def Some)
  have other: "p \<noteq> pos" if "map_of (id_to_pos b) i = Some p" "i \<noteq> doc_id" for i p
    using bm_inv_inj [OF inv Some, of i] that by blast
  have ok: "bt_ok (bitmaps ?c)" using inv by (simp add: bm_inv_def bt_ok_def bm_remove_def Some comp_def case_prod_beta)
  have ptoi: "length (pos_to_id ?c) = length (pos_to_id b)" "next_pos ?c = next_pos b"
    "p \<noteq> pos \<Longrightarrow> pos_to_id ?c ! unat p = pos_to_id b ! unat p" for p
    by (simp_all add: bm_remove_def Some word_unat_eq_iff)
  have kept: "unat p < length (pos_to_id ?c) \<and> pos_to_id ?c ! unat p = i \<and> i \<noteq> []" if "map_of (id_to_pos ?c) i = Some p" for i p
  proof -
    have i: "i \<noteq> doc_id" "map_of (id_to_pos b) i = Some p" using that by (auto simp: ids split: if_splits)
    then have "unat p < length (pos_to_id b) \<and> pos_to_id b ! unat p = i \<and> i \<noteq> []" using inv unfolding bm_inv_def by blast
    then show ?thesis using ptoi(1) ptoi(3) [OF other [OF i(2,1)]] by simp
  qed
  have live: "\<exists>i. map_of (id_to_pos ?c) i = Some p" if "p \<in> set (bm_lookup ?c v)" for v p
  proof -
    have p: "p \<in> set (bm_lookup b v)" "p \<noteq> pos" using that by (simp_all add: look)
    then obtain i where i: "map_of (id_to_pos b) i = Some p" using inv unfolding bm_inv_def by blast
    then have "i \<noteq> doc_id" using Some p(2) by auto
    with i show ?thesis by (intro exI [of _ i]) (simp add: ids)
  qed
  have "length (pos_to_id ?c) = unat (next_pos ?c)" using inv by (simp add: bm_inv_def ptoi)
  with ok kept live have "bm_inv ?c" unfolding bm_inv_def by blast
  moreover have "bm_rel ?c = {(v, i) \<in> bm_rel b. i \<noteq> doc_id}"
  proof -
    have "(\<exists>p \<in> set (bm_lookup ?c v). map_of (id_to_pos ?c) i = Some p) \<longleftrightarrow>
        (\<exists>p \<in> set (bm_lookup b v). map_of (id_to_pos b) i = Some p) \<and> i \<noteq> doc_id" for v i
      using other [of i] unfolding look ids by (cases "i = doc_id") auto
    then show ?thesis unfolding bm_rel_def by auto
  qed
  ultimately show ?thesis using n by (simp add: bm_holds_def R ptoi)
qed

interpretation bm: id_index bm_holds bm_new bm_insert bm_remove "2 ^ 32"
proof
  show "bm_holds 0 bm_new {}"
    by (simp add: bm_holds_def bm_inv_def bm_rel_def bm_new_def bm_lookup_def)
  show "bm_holds m b R" if "bm_holds n b R" "n \<le> m" for n m b R
    using that by (simp add: bm_holds_def)
qed (rule bm_insert_holds bm_remove_holds; assumption)+

lemma positions_to_ids_lookup:
  assumes "bm_inv b"
  shows "set (positions_to_ids b (bm_lookup b v)) = {i. (v, i) \<in> bm_rel b}"
proof -
  have "i \<in> set (positions_to_ids b (bm_lookup b v)) \<longleftrightarrow> (\<exists>p \<in> set (bm_lookup b v). map_of (id_to_pos b) i = Some p)" for i
    using assms by (fastforce simp: positions_to_ids_def map_filter_def bm_inv_def split: if_splits)
  then show ?thesis by (auto simp: bm_rel_def)
qed



end
