(* ===== verification/Text_Index.thy ===== *)
theory Text_Index
  imports Paths Externs Ordered
begin

text \<open>
  The full-text index (\<^verbatim>\<open>index/text_index.rs\<close>): the tokenizer, the postings with their
  insertion and removal, the conjunctive search with its scores, and the serialised form.  The hash maps
  are association lists; the order in which they are iterated is the order of the list.
\<close>

section \<open>Tokens\<close>

definition word_char :: "char \<Rightarrow> bool" where
  "word_char c \<longleftrightarrow> (let n = of_char c :: nat in
     48 \<le> n \<and> n \<le> 57 \<or> 65 \<le> n \<and> n \<le> 90 \<or> 97 \<le> n \<and> n \<le> 122 \<or> n = 95)"

fun word_runs :: "string \<Rightarrow> string \<Rightarrow> string list" where
  "word_runs w [] = (if w = [] then [] else [w])"
| "word_runs w (c # cs) =
     (if word_char c then word_runs (w @ [c]) cs
      else if w = [] then word_runs [] cs else w # word_runs [] cs)"

definition tokenize :: "externs \<Rightarrow> string \<Rightarrow> string list" where
  "tokenize X txt = (let lowered = to_lowercase X txt in
     if is_ascii lowered then word_runs [] lowered else x_word_tokens X lowered)"

section \<open>The index\<close>

record posting =
  po_doc_id :: string
  po_tf :: "32 word"

record text_index =
  ti_postings :: "(string \<times> posting list) list"
  ti_doc_count :: nat
  ti_fields :: "string list"
  ti_weights :: "(string \<times> f64) list"

text \<open>\<^verbatim>\<open>Bson::as_f64\<close> accepts doubles only.\<close>

definition double_value :: "bson \<Rightarrow> f64 option" where
  "double_value v = (case v of Double x \<Rightarrow> Some x | _ \<Rightarrow> None)"

definition ti_new :: "string list \<Rightarrow> doc option \<Rightarrow> text_index" where
  "ti_new names weights = \<lparr>ti_postings = [], ti_doc_count = 0, ti_fields = names,
     ti_weights = foldl (\<lambda>w (k, v). al_insert k (opt_or (f64_of_int 1) (double_value v)) w) [] (opt_or [] weights)\<rparr>"

definition text_doc_id :: "doc \<Rightarrow> string option" where
  "text_doc_id d = (case doc_get d ''_id'' of
     Some (ObjectId oid) \<Rightarrow> Some (to_hex oid)
   | Some (Str s) \<Rightarrow> Some s
   | Some (Int32 i) \<Rightarrow> Some (show_int (sint i))
   | Some (Int64 i) \<Rightarrow> Some (show_int (sint i))
   | _ \<Rightarrow> None)"

definition weight_u32 :: "f64 \<Rightarrow> 32 word" where
  "weight_u32 w = of_nat (min (2 ^ 32 - 1) (f64_to_usize (if f64_lt (f64_of_int 1) w then w else f64_of_int 1)))"

definition count_token :: "32 word \<Rightarrow> (string \<times> 32 word) list \<Rightarrow> string \<Rightarrow> (string \<times> 32 word) list" where
  "count_token w counts token = al_insert token (opt_or 0 (map_of counts token) + w) counts"

definition field_tokens :: "externs \<Rightarrow> doc \<Rightarrow> string \<Rightarrow> string list" where
  "field_tokens X d field = (case get_value d field of Some (Str txt) \<Rightarrow> tokenize X txt | _ \<Rightarrow> [])"

definition term_counts :: "externs \<Rightarrow> text_index \<Rightarrow> doc \<Rightarrow> (string \<times> 32 word) list" where
  "term_counts X t d = foldl (\<lambda>counts field.
     foldl (count_token (weight_u32 (opt_or (f64_of_int 1) (map_of (ti_weights t) field)))) counts (field_tokens X d field))
     [] (ti_fields t)"

definition add_posting :: "string \<Rightarrow> (string \<times> posting list) list \<Rightarrow> string \<times> 32 word \<Rightarrow> (string \<times> posting list) list" where
  "add_posting doc_id postings tc = (case tc of (token, tf) \<Rightarrow>
     al_insert token (opt_or [] (map_of postings token) @ [\<lparr>po_doc_id = doc_id, po_tf = tf\<rparr>]) postings)"

definition insert_doc :: "externs \<Rightarrow> text_index \<Rightarrow> doc \<Rightarrow> text_index" where
  "insert_doc X t d = (case text_doc_id d of
     None \<Rightarrow> t
   | Some doc_id \<Rightarrow> t\<lparr>ti_postings := foldl (add_posting doc_id) (ti_postings t) (term_counts X t d),
                      ti_doc_count := ti_doc_count t + 1\<rparr>)"

definition ti_build :: "externs \<Rightarrow> doc list \<Rightarrow> string list \<Rightarrow> doc option \<Rightarrow> text_index" where
  "ti_build X docs names weights = foldl (insert_doc X) (ti_new names weights) docs"

definition remove_doc :: "text_index \<Rightarrow> string \<Rightarrow> text_index" where
  "remove_doc t doc_id = t\<lparr>
     ti_postings := map (\<lambda>(token, ps). (token, filter (\<lambda>p. po_doc_id p \<noteq> doc_id) ps)) (ti_postings t),
     ti_doc_count := ti_doc_count t - 1\<rparr>"

section \<open>Search\<close>

type_synonym hits = "(string \<times> f64 \<times> nat) list"

definition score_posting :: "externs \<Rightarrow> f64 \<Rightarrow> hits \<Rightarrow> posting \<Rightarrow> hits" where
  "score_posting X idf hs p =
     (let tf = f64_add (f64_of_int 1) (x_ln X (f64_of_int (int (unat (po_tf p)))));
          (score, n) = opt_or (f64_of_int 0, 0) (map_of hs (po_doc_id p)) in
      al_insert (po_doc_id p) (f64_add score (f64_mul tf idf), n + 1) hs)"

definition score_token :: "externs \<Rightarrow> text_index \<Rightarrow> hits \<Rightarrow> string \<Rightarrow> hits" where
  "score_token X t hs token = (case map_of (ti_postings t) token of
     None \<Rightarrow> hs
   | Some ps \<Rightarrow>
       (let n = f64_of_int (int (max (ti_doc_count t) 1));
            idf = f64_add (x_ln X (f64_div n (f64_of_int (int (length ps))))) (f64_of_int 1) in
        foldl (score_posting X idf) hs ps))"

definition ti_search :: "externs \<Rightarrow> text_index \<Rightarrow> string \<Rightarrow> nat option \<Rightarrow> (string \<times> f64) list" where
  "ti_search X t query limit =
     (let tokens = tokenize X query in
      if tokens = [] then [] else
      let hs = foldl (score_token X t) [] tokens;
          results = sort_by (\<lambda>a b. cmp_f64 (snd b) (snd a))
            (map (\<lambda>(i, score, n). (i, score)) (filter (\<lambda>(i, score, n). length tokens \<le> n) hs)) in
      case limit of Some lim \<Rightarrow> take lim results | None \<Rightarrow> results)"

section \<open>Serialised form\<close>

definition u32_bytes :: "nat \<Rightarrow> bytes" where
  "u32_bytes n = le_bytes 4 (of_nat n :: 32 word)"

definition str_bytes :: "string \<Rightarrow> bytes" where
  "str_bytes s = u32_bytes (length s) @ as_bytes s"

definition posting_bytes :: "posting \<Rightarrow> bytes" where
  "posting_bytes p = str_bytes (po_doc_id p) @ le_bytes 4 (po_tf p)"

definition entry_bytes :: "string \<times> posting list \<Rightarrow> bytes" where
  "entry_bytes e = (case e of (token, ps) \<Rightarrow> str_bytes token @ u32_bytes (length ps) @ concat (map posting_bytes ps))"

definition to_bytes :: "text_index \<Rightarrow> bytes" where
  "to_bytes t =
     u32_bytes (length (ti_fields t)) @ concat (map str_bytes (ti_fields t)) @
     u32_bytes (ti_doc_count t) @
     u32_bytes (length (ti_postings t)) @ concat (map entry_bytes (ti_postings t))"

type_synonym 'a reader = "bytes \<Rightarrow> ('a \<times> bytes) option"

definition read_u32 :: "32 word reader" where
  "read_u32 bs = (if length bs < 4 then None else Some (of_le_bytes (take 4 bs), drop 4 bs))"

definition read_str :: "string reader" where
  "read_str bs = Option.bind (read_u32 bs) (\<lambda>(n, r).
     if length r < unat n then None
     else Option.bind (from_utf8 (take (unat n) r)) (\<lambda>s. Some (s, drop (unat n) r)))"

definition read_posting :: "posting reader" where
  "read_posting bs = Option.bind (read_str bs) (\<lambda>(doc_id, r).
     Option.bind (read_u32 r) (\<lambda>(tf, r). Some (\<lparr>po_doc_id = doc_id, po_tf = tf\<rparr>, r)))"

fun read_many :: "'a reader \<Rightarrow> nat \<Rightarrow> 'a list reader" where
  "read_many rd 0 bs = Some ([], bs)"
| "read_many rd (Suc n) bs = Option.bind (rd bs) (\<lambda>(x, r).
     Option.bind (read_many rd n r) (\<lambda>(xs, r). Some (x # xs, r)))"

definition read_entry :: "(string \<times> posting list) reader" where
  "read_entry bs = Option.bind (read_str bs) (\<lambda>(token, r).
     Option.bind (read_u32 r) (\<lambda>(n, r).
     Option.bind (read_many read_posting (unat n) r) (\<lambda>(ps, r). Some ((token, ps), r))))"

definition from_bytes :: "bytes \<Rightarrow> text_index option" where
  "from_bytes bs =
     Option.bind (read_u32 bs) (\<lambda>(nfields, r).
     Option.bind (read_many read_str (unat nfields) r) (\<lambda>(names, r).
     Option.bind (read_u32 r) (\<lambda>(doc_count, r).
     Option.bind (read_u32 r) (\<lambda>(npostings, r).
     Option.bind (read_many read_entry (unat npostings) r) (\<lambda>(entries, r).
     Some \<lparr>ti_postings = foldl (\<lambda>ps (token, posts). al_insert token posts ps) [] entries,
           ti_doc_count = unat doc_count, ti_fields = names, ti_weights = []\<rparr>)))))"

section \<open>The serialised form is read back\<close>

lemma read_u32_bytes [simp]: "read_u32 (le_bytes 4 w @ r) = Some (w, r)"
  by (simp add: read_u32_def)

lemma read_u32_nat [simp]: "n < 2 ^ 32 \<Longrightarrow> read_u32 (u32_bytes n @ r) = Some (of_nat n, r)"
  by (simp add: u32_bytes_def)

definition fits :: "string \<Rightarrow> bool" where
  "fits s \<longleftrightarrow> str_ok s \<and> length s < 2 ^ 32"

lemma unat_u32: "n < 2 ^ 32 \<Longrightarrow> unat (of_nat n :: 32 word) = n"
  by (simp add: unat_of_nat)

lemma read_str_bytes: "fits s \<Longrightarrow> read_str (str_bytes s @ r) = Some (s, r)"
  by (simp add: read_str_def str_bytes_def fits_def unat_u32)

lemma read_posting_bytes: "fits (po_doc_id p) \<Longrightarrow> read_posting (posting_bytes p @ r) = Some (p, r)"
  by (simp add: read_posting_def posting_bytes_def read_str_bytes)

lemma read_many_bytes:
  assumes "\<And>x r. x \<in> set xs \<Longrightarrow> rd (enc x @ r) = Some (x, r)"
  shows "read_many rd (length xs) (concat (map enc xs) @ r) = Some (xs, r)"
  using assms by (induction xs) simp_all

definition entry_fits :: "string \<times> posting list \<Rightarrow> bool" where
  "entry_fits e \<longleftrightarrow> fits (fst e) \<and> length (snd e) < 2 ^ 32 \<and> list_all (\<lambda>p. fits (po_doc_id p)) (snd e)"

lemma read_entry_bytes: "entry_fits e \<Longrightarrow> read_entry (entry_bytes e @ r) = Some (e, r)"
  by (cases e) (simp add: read_entry_def entry_bytes_def entry_fits_def read_str_bytes unat_u32 list_all_iff
    read_many_bytes [where enc = posting_bytes and rd = read_posting] read_posting_bytes)

text \<open>
  Serialising a text index and reading it back restores the fields, the document count
  and all postings; the weights are not stored and come back empty.
\<close>

theorem text_index_roundtrip:
  assumes "list_all fits (ti_fields t)" and "list_all entry_fits (ti_postings t)" and "distinct (map fst (ti_postings t))"
    and "length (ti_fields t) < 2 ^ 32" and "length (ti_postings t) < 2 ^ 32" and "ti_doc_count t < 2 ^ 32"
  shows "from_bytes (to_bytes t) = Some (t\<lparr>ti_weights := []\<rparr>)"
proof -
  have "read_many read_str (length (ti_fields t)) (concat (map str_bytes (ti_fields t)) @ r) = Some (ti_fields t, r)" for r
    using assms(1) by (intro read_many_bytes) (simp add: read_str_bytes list_all_iff)
  moreover have "read_many read_entry (length (ti_postings t)) (concat (map entry_bytes (ti_postings t)) @ r) = Some (ti_postings t, r)" for r
    using assms(2) by (intro read_many_bytes) (simp add: read_entry_bytes list_all_iff)
  from this [of "[]"] have "read_many read_entry (length (ti_postings t)) (concat (map entry_bytes (ti_postings t))) = Some (ti_postings t, [])"
    by simp
  ultimately show ?thesis
    using assms(4-6) foldl_al_insert [of "[]" "ti_postings t"] assms(3)
    by (simp add: from_bytes_def to_bytes_def unat_u32)
qed

section \<open>The search is conjunctive\<close>

definition posting_ids :: "text_index \<Rightarrow> string \<Rightarrow> string list" where
  "posting_ids t token = map po_doc_id (opt_or [] (map_of (ti_postings t) token))"

definition hit_count :: "hits \<Rightarrow> string \<Rightarrow> nat" where
  "hit_count hs i = (case map_of hs i of Some (_, n) \<Rightarrow> n | None \<Rightarrow> 0)"

lemma hit_count_posting: "hit_count (score_posting X idf hs p) i = hit_count hs i + (if po_doc_id p = i then 1 else 0)"
  by (auto simp: hit_count_def score_posting_def Let_def split: option.splits prod.splits)

lemma hit_count_postings: "hit_count (foldl (score_posting X idf) hs ps) i = hit_count hs i + count_list (map po_doc_id ps) i"
  by (induction ps arbitrary: hs) (simp_all add: hit_count_posting)

lemma hit_count_token: "hit_count (score_token X t hs token) i = hit_count hs i + count_list (posting_ids t token) i"
  by (simp add: score_token_def posting_ids_def hit_count_postings Let_def split: option.split)

lemma hit_count_tokens:
  "hit_count (foldl (score_token X t) hs tokens) i = hit_count hs i + (\<Sum>token\<leftarrow>tokens. count_list (posting_ids t token) i)"
  by (induction tokens arbitrary: hs) (simp_all add: hit_count_token)

lemma distinct_hits: "distinct (map fst hs) \<Longrightarrow> distinct (map fst (foldl (score_token X t) hs tokens))"
proof (induction tokens arbitrary: hs)
  case (Cons token tokens)
  have "distinct (map fst (foldl (score_posting X idf) hs ps))" if "distinct (map fst hs)" for idf hs ps
    using that by (induction ps arbitrary: hs) (simp_all add: score_posting_def Let_def split: prod.split)
  then have "distinct (map fst (score_token X t hs token))"
    using Cons.prems by (simp add: score_token_def Let_def split: option.split)
  then show ?case using Cons.IH by simp
qed simp

lemma count_list_distinct: "distinct xs \<Longrightarrow> count_list xs i = (if i \<in> set xs then 1 else 0)"
  by (induction xs) auto

lemma count_all_tokens:
  assumes "\<And>token. distinct (posting_ids t token)"
  shows "length tokens \<le> (\<Sum>token\<leftarrow>tokens. count_list (posting_ids t token) i) \<longleftrightarrow> (\<forall>token \<in> set tokens. i \<in> set (posting_ids t token))"
proof -
  have one: "count_list (posting_ids t token) i = (if i \<in> set (posting_ids t token) then 1 else 0)" for token
    using assms [of token] by (rule count_list_distinct)
  have le: "(\<Sum>token\<leftarrow>tokens. count_list (posting_ids t token) i) \<le> length tokens" for tokens
    by (induction tokens) (simp_all add: one)
  show ?thesis
  proof (induction tokens)
    case (Cons token tokens)
    then show ?case using le [of tokens] by (auto simp: one)
  qed simp
qed

lemma search_ids:
  assumes "\<And>token. distinct (posting_ids t token)" and "tokenize X query \<noteq> []"
  shows "set (map fst (ti_search X t query None)) = {i. \<forall>token \<in> set (tokenize X query). i \<in> set (posting_ids t token)}"
proof -
  define tokens where "tokens = tokenize X query"
  define hs where "hs = foldl (score_token X t) [] tokens"
  have d: "distinct (map fst hs)" unfolding hs_def by (rule distinct_hits) simp
  have cnt: "hit_count hs i = (\<Sum>token\<leftarrow>tokens. count_list (posting_ids t token) i)" for i
    unfolding hs_def hit_count_tokens by (simp add: hit_count_def)
  have ne: "tokens \<noteq> []" using assms(2) by (simp add: tokens_def)
  have "set (map fst (ti_search X t query None)) = {i. \<exists>score n. (i, score, n) \<in> set hs \<and> length tokens \<le> n}"
    using ne by (auto simp: ti_search_def tokens_def [symmetric] hs_def [symmetric] Let_def image_iff) force+
  also have "\<dots> = {i. length tokens \<le> hit_count hs i}"
    using ne by (auto simp: hit_count_def simp flip: map_of_eq_Some_iff [OF d] split: option.splits)
  finally show ?thesis using count_all_tokens [OF assms(1)] by (simp add: cnt tokens_def)
qed

definition doc_tokens :: "externs \<Rightarrow> string list \<Rightarrow> doc \<Rightarrow> string set" where
  "doc_tokens X names d = (\<Union>field \<in> set names. set (field_tokens X d field))"

lemma count_tokens_keys: "fst ` set (foldl (count_token w) counts tokens) = fst ` set counts \<union> set tokens"
  by (induction tokens arbitrary: counts) (auto simp: count_token_def keys_al_insert)

lemma count_tokens_distinct: "distinct (map fst counts) \<Longrightarrow> distinct (map fst (foldl (count_token w) counts tokens))"
  by (induction tokens arbitrary: counts) (simp_all add: count_token_def)

lemma term_counts_keys:
  "fst ` set (term_counts X t d) = doc_tokens X (ti_fields t) d" "distinct (map fst (term_counts X t d))"
proof -
  have "fst ` set (foldl (\<lambda>counts field. foldl (count_token (f field)) counts (field_tokens X d field)) acc names) =
      fst ` set acc \<union> doc_tokens X names d" for f acc names
    by (induction names arbitrary: acc) (auto simp: doc_tokens_def count_tokens_keys)
  then show "fst ` set (term_counts X t d) = doc_tokens X (ti_fields t) d"
    by (simp add: term_counts_def)
  have "distinct (map fst acc) \<Longrightarrow>
      distinct (map fst (foldl (\<lambda>counts field. foldl (count_token (f field)) counts (field_tokens X d field)) acc names))" for f acc names
    by (induction names arbitrary: acc) (simp_all add: count_tokens_distinct)
  then show "distinct (map fst (term_counts X t d))"
    by (simp add: term_counts_def)
qed

lemma add_postings_ids:
  "distinct (map fst tcs) \<Longrightarrow>
    map po_doc_id (opt_or [] (map_of (foldl (add_posting doc_id) ps tcs) token)) =
    map po_doc_id (opt_or [] (map_of ps token)) @ (if token \<in> fst ` set tcs then [doc_id] else [])"
proof (induction tcs arbitrary: ps)
  case (Cons tc tcs)
  obtain tok tf where tc: "tc = (tok, tf)" by (cases tc)
  show ?case using Cons by (auto simp: tc add_posting_def)
qed simp

definition indexed_as :: "externs \<Rightarrow> string list \<Rightarrow> string \<Rightarrow> doc \<Rightarrow> string option" where
  "indexed_as X names token d = (if token \<in> doc_tokens X names d then text_doc_id d else None)"

lemma build_fields [simp]: "ti_fields (ti_build X docs names w) = names"
  by (induction docs rule: rev_induct) (simp_all add: ti_build_def ti_new_def insert_doc_def split: option.split)

lemma build_posting_ids: "posting_ids (ti_build X docs names w) token = List.map_filter (indexed_as X names token) docs"
proof (induction docs rule: rev_induct)
  case Nil
  then show ?case by (simp add: ti_build_def ti_new_def posting_ids_def map_filter_def)
next
  case (snoc d docs)
  have "ti_build X (docs @ [d]) names w = insert_doc X (ti_build X docs names w) d" by (simp add: ti_build_def)
  then show ?case using snoc
    by (simp add: insert_doc_def posting_ids_def add_postings_ids term_counts_keys indexed_as_def map_filter_def split: option.split)
qed

lemma mem_map_filter: "y \<in> set (List.map_filter f xs) \<longleftrightarrow> (\<exists>x \<in> set xs. f x = Some y)"
  by (force simp: map_filter_def)

lemma map_filter_restrict:
  assumes "distinct (List.map_filter f xs)" and "\<And>x y. g x = Some y \<Longrightarrow> f x = Some y"
  shows "distinct (List.map_filter g xs)"
  using assms(1)
proof (induction xs)
  case (Cons x xs)
  have "set (List.map_filter g xs) \<subseteq> set (List.map_filter f xs)"
    using assms(2) by (force simp: map_filter_def)
  then show ?case using Cons assms(2) [of x] by (cases "g x"; cases "f x") (auto simp: map_filter_simps)
qed (simp add: map_filter_simps)

text \<open>
  C18. Text search is conjunctive: over the index built from documents with distinct ids, a
  query with at least one token returns exactly the documents that contain every token of the query in
  an indexed field.
\<close>

theorem text_search_conjunctive:
  assumes "distinct (List.map_filter text_doc_id docs)" and "tokenize X query \<noteq> []"
  shows "set (map fst (ti_search X (ti_build X docs names w) query None)) =
    {i. \<exists>d \<in> set docs. text_doc_id d = Some i \<and> set (tokenize X query) \<subseteq> doc_tokens X names d}"
proof -
  have "distinct (posting_ids (ti_build X docs names w) token)" for token
    unfolding build_posting_ids by (rule map_filter_restrict [OF assms(1)]) (simp add: indexed_as_def split: if_splits)
  from search_ids [OF this assms(2)] have search:
    "set (map fst (ti_search X (ti_build X docs names w) query None)) =
      {i. \<forall>token \<in> set (tokenize X query). \<exists>d \<in> set docs. text_doc_id d = Some i \<and> token \<in> doc_tokens X names d}"
    by (simp add: build_posting_ids mem_map_filter indexed_as_def) (metis (lifting) option.distinct(1))
  have same: "d = e" if "d \<in> set docs" "e \<in> set docs" "text_doc_id d = Some i" "text_doc_id e = Some i" for d e i
    using assms(1) that by (induction docs) (auto simp: map_filter_simps mem_map_filter split: option.splits)
  obtain t where t: "t \<in> set (tokenize X query)" using assms(2) by (cases "tokenize X query") auto
  have "(\<forall>token \<in> set (tokenize X query). \<exists>d \<in> set docs. text_doc_id d = Some i \<and> token \<in> doc_tokens X names d) \<longleftrightarrow>
      (\<exists>d \<in> set docs. text_doc_id d = Some i \<and> set (tokenize X query) \<subseteq> doc_tokens X names d)" for i
  proof
    assume all: "\<forall>token \<in> set (tokenize X query). \<exists>d \<in> set docs. text_doc_id d = Some i \<and> token \<in> doc_tokens X names d"
    then obtain d where d: "d \<in> set docs" "text_doc_id d = Some i" using t by blast
    have "set (tokenize X query) \<subseteq> doc_tokens X names d"
      using all same [OF _ d(1) _ d(2)] by blast
    with d show "\<exists>d \<in> set docs. text_doc_id d = Some i \<and> set (tokenize X query) \<subseteq> doc_tokens X names d" by blast
  qed blast
  with search show ?thesis by simp
qed

theorem text_search_conjunctive_witness:
  "set (map fst (ti_search sample_externs (ti_build sample_externs
      [[(''_id'', Str ''a''), (''t'', Str ''quick, fox'')], [(''_id'', Str ''b''), (''t'', Str ''lazy fox'')]] [''t''] None) ''fox quick'' None)) = {''a''}"
proof -
  let ?docs = "[[(''_id'', Str ''a''), (''t'', Str ''quick, fox'')], [(''_id'', Str ''b''), (''t'', Str ''lazy fox'')]]"
  have q: "tokenize sample_externs ''fox quick'' = [''fox'', ''quick'']"
    by (simp add: tokenize_def to_lowercase_def is_ascii_def lower_char_def word_char_def)
  have f: "field_tokens sample_externs [(''_id'', Str ''a''), (''t'', Str ''quick, fox'')] ''t'' = [''quick'', ''fox'']"
    "field_tokens sample_externs [(''_id'', Str ''b''), (''t'', Str ''lazy fox'')] ''t'' = [''lazy'', ''fox'']"
    by (simp_all add: field_tokens_def get_value_top tokenize_def to_lowercase_def is_ascii_def lower_char_def word_char_def)
  have "distinct (List.map_filter text_doc_id ?docs)" by (simp add: map_filter_simps text_doc_id_def)
  moreover have "tokenize sample_externs ''fox quick'' \<noteq> []" by (simp add: q)
  ultimately show ?thesis
    using text_search_conjunctive [of ?docs sample_externs "''fox quick''" "[''t'']" None]
    by (auto simp: q f doc_tokens_def text_doc_id_def)
qed

theorem text_index_roundtrip_witness:
  "from_bytes (to_bytes (ti_build sample_externs [[(''_id'', Str ''a''), (''t'', Str ''hi'')]] [''t''] (Some [(''t'', Double (f64_of_int 2))]))) =
   Some ((ti_build sample_externs [[(''_id'', Str ''a''), (''t'', Str ''hi'')]] [''t''] (Some [(''t'', Double (f64_of_int 2))]))\<lparr>ti_weights := []\<rparr>)"
proof (rule text_index_roundtrip)
  let ?t = "ti_build sample_externs [[(''_id'', Str ''a''), (''t'', Str ''hi'')]] [''t''] (Some [(''t'', Double (f64_of_int 2))])"
  have f: "field_tokens sample_externs [(''_id'', Str ''a''), (''t'', Str ''hi'')] ''t'' = [''hi'']"
    by (simp add: field_tokens_def get_value_top tokenize_def to_lowercase_def is_ascii_def lower_char_def word_char_def)
  have t: "ti_fields ?t = [''t'']" "ti_doc_count ?t = 1" "\<exists>w. ti_postings ?t = [(''hi'', [\<lparr>po_doc_id = ''a'', po_tf = w\<rparr>])]"
    by (simp_all add: ti_build_def ti_new_def insert_doc_def term_counts_def f count_token_def add_posting_def text_doc_id_def)
  have ok: "fits ''t''" "fits ''hi''" "fits ''a''" by (simp_all add: fits_def str_ok_def as_bytes_def byte_of_char_def)
  show "list_all fits (ti_fields ?t)" "length (ti_fields ?t) < 2 ^ 32" "ti_doc_count ?t < 2 ^ 32" by (simp_all only: t) (simp_all add: ok)
  show "list_all entry_fits (ti_postings ?t)" "distinct (map fst (ti_postings ?t))" "length (ti_postings ?t) < 2 ^ 32"
    using t(3) by (auto simp: entry_fits_def ok)
qed

end
