(* ===== verification/Accumulators.thy ===== *)
theory Accumulators
  imports Expressions
begin

text \<open>
  The accumulators of \<^verbatim>\<open>$group\<close>, \<^verbatim>\<open>$bucket\<close> and \<^verbatim>\<open>$bucketAuto\<close> (\<^verbatim>\<open>aggregation/accumulators.rs\<close>), the square root
  they need, and the comparison of documents by sort fields that the stages share
  (\<^verbatim>\<open>cmp_by_sort_fields\<close> of \<^verbatim>\<open>aggregation/disk_spill.rs\<close>).  Sums of 64-bit integers wrap as in a release build.
\<close>

section \<open>The order of a sort specification\<close>

definition sort_fields :: "doc \<Rightarrow> (string \<times> 32 word) list" where
  "sort_fields sort_doc = map (\<lambda>(k, v). (k, opt_or 1 (as_i32 v))) sort_doc"

fun cmp_by_sort_fields :: "(string \<times> 32 word) list \<Rightarrow> doc \<Rightarrow> doc \<Rightarrow> ordering" where
  "cmp_by_sort_fields [] a b = Equal"
| "cmp_by_sort_fields ((field, dir) # rest) a b =
     (let c = compare_bson (get_value a field) (get_value b field);
          r = (if sint dir < 0 then ord_reverse c else c)
      in if r \<noteq> Equal then r else cmp_by_sort_fields rest a b)"

section \<open>Square root\<close>

fun isqrt :: "nat \<Rightarrow> nat" where
  "isqrt n = (if n = 0 then 0 else (let r = 2 * isqrt (n div 4) in if (r + 1) * (r + 1) \<le> n then r + 1 else r))"

declare isqrt.simps [simp del]

lemma isqrt_bounds: "isqrt n * isqrt n \<le> n \<and> n < (isqrt n + 1) * (isqrt n + 1)"
proof (induction n rule: isqrt.induct)
  case (1 n)
  show ?case
  proof (cases "n = 0")
    case True
    then show ?thesis by (simp add: isqrt.simps)
  next
    case False
    define q where "q = isqrt (n div 4)"
    have q: "q * q \<le> n div 4" "n div 4 < (q + 1) * (q + 1)" using 1 False by (auto simp: q_def)
    have lo: "2 * q * (2 * q) \<le> n" using q(1) by (simp add: algebra_simps)
    have "n < 4 * ((q + 1) * (q + 1))" using q(2) by linarith
    then have hi: "n < (2 * q + 2) * (2 * q + 2)" by (simp add: algebra_simps)
    show ?thesis using False lo hi by (subst (1 2 3 4) isqrt.simps) (simp add: q_def [symmetric] Let_def add.assoc)
  qed
qed

text \<open>
  The root of a number is that of its multiple of \<open>2 ^ -1074\<close>, taken to the next half and rounded once; the half
  is far below the last place, so the rounding is that of the exact root.
\<close>

definition f64_sqrt :: "f64 \<Rightarrow> f64" where
  "f64_sqrt x =
     (if is_nan x then f64_nan
      else if f64_mag x = 0 then x
      else if f64_neg x then f64_nan
      else if is_inf x then x
      else (let K = unscale (f64_mag x) * 2 ^ 1074; r = isqrt K in
        of_sign_mag False (round_mag (2 * r + (if r * r = K then 0 else 1)) 2)))"

section \<open>Accumulators\<close>

text \<open>The values of an expression on the documents of a group, in order.\<close>

definition values_of :: "externs \<Rightarrow> doc list \<Rightarrow> bson \<Rightarrow> bson list ares" where
  "values_of X docs e = map_res (\<lambda>d. evaluate_expression X d e) docs"

fun sum_step :: "64 word \<times> bool \<times> f64 \<Rightarrow> bson \<Rightarrow> 64 word \<times> bool \<times> f64" where
  "sum_step (i, dbl, x) (Int32 n) = (i + scast n, dbl, f64_add x (f64_of_int (sint n)))"
| "sum_step (i, dbl, x) (Int64 n) = (i + n, dbl, f64_add x (f64_of_int (sint n)))"
| "sum_step (i, dbl, x) (Double n) = (i, True, f64_add x n)"
| "sum_step s _ = s"

definition accum_sum :: "externs \<Rightarrow> doc list \<Rightarrow> bson \<Rightarrow> bson ares" where
  "accum_sum X docs e = res_bind (values_of X docs e) (\<lambda>vals.
     case foldl sum_step (0, False, f64_zero) vals of
       (int_sum, has_double, dbl_sum) \<Rightarrow> Inr (if has_double then Double dbl_sum else Int64 int_sum))"

definition numbers :: "bson list \<Rightarrow> f64 list" where
  "numbers vals = List.map_filter as_f64 vals"

definition f64_sum :: "f64 list \<Rightarrow> f64" where
  "f64_sum xs = foldl f64_add f64_zero xs"

definition f64_of_nat :: "nat \<Rightarrow> f64" where
  "f64_of_nat n = f64_of_int (int n)"

definition accum_avg :: "externs \<Rightarrow> doc list \<Rightarrow> bson \<Rightarrow> bson ares" where
  "accum_avg X docs e = res_bind (values_of X docs e) (\<lambda>vals.
     let ns = numbers vals in
     Inr (if ns = [] then Null else Double (f64_div (f64_sum ns) (f64_of_nat (length ns)))))"

definition extremum :: "ordering \<Rightarrow> bson option \<Rightarrow> bson \<Rightarrow> bson option" where
  "extremum better best v =
     (if v = Null then best
      else case best of
        None \<Rightarrow> Some v
      | Some current \<Rightarrow> Some (if compare_bson (Some v) (Some current) = better then v else current))"

definition accum_min :: "externs \<Rightarrow> doc list \<Rightarrow> bson \<Rightarrow> bson ares" where
  "accum_min X docs e = res_bind (values_of X docs e) (\<lambda>vals. Inr (opt_or Null (foldl (extremum Less) None vals)))"

definition accum_max :: "externs \<Rightarrow> doc list \<Rightarrow> bson \<Rightarrow> bson ares" where
  "accum_max X docs e = res_bind (values_of X docs e) (\<lambda>vals. Inr (opt_or Null (foldl (extremum Greater) None vals)))"

definition accum_first :: "externs \<Rightarrow> doc list \<Rightarrow> bson \<Rightarrow> bson ares" where
  "accum_first X docs e = (case docs of [] \<Rightarrow> Inr Null | d # _ \<Rightarrow> evaluate_expression X d e)"

definition accum_last :: "externs \<Rightarrow> doc list \<Rightarrow> bson \<Rightarrow> bson ares" where
  "accum_last X docs e = (if docs = [] then Inr Null else evaluate_expression X (List.last docs) e)"

definition accum_push :: "externs \<Rightarrow> doc list \<Rightarrow> bson \<Rightarrow> bson ares" where
  "accum_push X docs e = res_bind (values_of X docs e) (\<lambda>vals. Inr (Array vals))"

text \<open>\<^verbatim>\<open>$addToSet\<close> tells values apart by their debug text.\<close>

definition add_unseen :: "externs \<Rightarrow> bson list \<Rightarrow> bson \<Rightarrow> bson list" where
  "add_unseen X seen v = (if x_bson_debug X v \<in> x_bson_debug X ` set seen then seen else seen @ [v])"

definition accum_add_to_set :: "externs \<Rightarrow> doc list \<Rightarrow> bson \<Rightarrow> bson ares" where
  "accum_add_to_set X docs e = res_bind (values_of X docs e) (\<lambda>vals. Inr (Array (foldl (add_unseen X) [] vals)))"

definition merge_value :: "doc \<Rightarrow> bson \<Rightarrow> doc" where
  "merge_value merged v = (case as_document v of Some d \<Rightarrow> foldl (\<lambda>m (k, x). doc_insert k x m) merged d | None \<Rightarrow> merged)"

definition accum_merge_objects :: "externs \<Rightarrow> doc list \<Rightarrow> bson \<Rightarrow> bson ares" where
  "accum_merge_objects X docs e = res_bind (values_of X docs e) (\<lambda>vals. Inr (Document (foldl merge_value [] vals)))"

definition accum_stddev :: "externs \<Rightarrow> doc list \<Rightarrow> bson \<Rightarrow> bool \<Rightarrow> bson ares" where
  "accum_stddev X docs e population = res_bind (values_of X docs e) (\<lambda>vals.
     let ns = numbers vals; n = length ns in
     if n = 0 \<or> \<not> population \<and> n < 2 then Inr Null
     else (let mean = f64_div (f64_sum ns) (f64_of_nat n);
               squares = map (\<lambda>v. f64_mul (f64_sub v mean) (f64_sub v mean)) ns;
               variance = f64_div (f64_sum squares) (f64_of_nat (if population then n else n - 1))
           in Inr (Double (f64_sqrt variance))))"

definition accum_top_bottom :: "externs \<Rightarrow> doc list \<Rightarrow> doc \<Rightarrow> bool \<Rightarrow> nat \<Rightarrow> bson ares" where
  "accum_top_bottom X docs spec ascending n =
     res_bind (ok_or (MissingField ''sortBy required'') (Option.bind (doc_get spec ''sortBy'') as_document)) (\<lambda>sort_by_doc.
     let output_expr = opt_or (Str ''$$ROOT'') (doc_get spec ''output'');
         indexed = sort_by (cmp_by_sort_fields (sort_fields sort_by_doc)) docs;
         indexed = (if ascending then indexed else rev indexed) in
     res_bind (values_of X (take n indexed) output_expr) (\<lambda>selected.
     Inr (if n = 1 then (case selected of [] \<Rightarrow> Null | v # _ \<Rightarrow> v) else Array selected)))"

text \<open>\<^verbatim>\<open>as usize\<close> of the count: a negative number is a huge one.\<close>

fun as_count :: "bson \<Rightarrow> nat option" where
  "as_count (Int32 n) = Some (unat (scast n :: 64 word))"
| "as_count (Int64 n) = Some (unat n)"
| "as_count _ = None"

definition extract_n :: "doc \<Rightarrow> nat ares" where
  "extract_n spec = ok_or (MissingField ''n required'') (Option.bind (doc_get spec ''n'') as_count)"

text \<open>\<^verbatim>\<open>Vec::with_capacity(n)\<close> panics on a capacity that cannot be allocated, a negative count among them.\<close>

definition accum_first_n :: "externs \<Rightarrow> doc list \<Rightarrow> bson \<Rightarrow> doc \<Rightarrow> bson ares" where
  "accum_first_n X docs e spec =
     res_bind (extract_n spec) (\<lambda>n.
     if x_vec_capacity X < n then Inl ExprPanic
     else res_bind (values_of X (take n docs) e) (\<lambda>vals. Inr (Array vals)))"

definition accum_last_n :: "externs \<Rightarrow> doc list \<Rightarrow> bson \<Rightarrow> doc \<Rightarrow> bson ares" where
  "accum_last_n X docs e spec =
     res_bind (extract_n spec) (\<lambda>n.
     if x_vec_capacity X < n then Inl ExprPanic
     else res_bind (values_of X (drop (length docs - n) docs) e) (\<lambda>vals. Inr (Array vals)))"

definition len_i32 :: "'a list \<Rightarrow> bson" where
  "len_i32 xs = Int32 (of_nat (length xs))"

definition evaluate_accumulator :: "externs \<Rightarrow> doc list \<Rightarrow> bson \<Rightarrow> bson ares" where
  "evaluate_accumulator X docs acc =
     res_bind (ok_or (InvalidOperator ''Accumulator must be document'') (as_document acc)) (\<lambda>acc_doc.
     case acc_doc of
       [] \<Rightarrow> Inl (InvalidOperator ''Empty accumulator'')
     | (op, e) # _ \<Rightarrow>
         if op = ''$sum'' then accum_sum X docs e
         else if op = ''$avg'' then accum_avg X docs e
         else if op = ''$count'' then Inr (len_i32 docs)
         else if op = ''$min'' then accum_min X docs e
         else if op = ''$max'' then accum_max X docs e
         else if op = ''$first'' then accum_first X docs e
         else if op = ''$last'' then accum_last X docs e
         else if op = ''$push'' then accum_push X docs e
         else if op = ''$addToSet'' then accum_add_to_set X docs e
         else if op = ''$mergeObjects'' then accum_merge_objects X docs e
         else if op = ''$stdDevPop'' then accum_stddev X docs e True
         else if op = ''$stdDevSamp'' then accum_stddev X docs e False
         else if op = ''$top'' then accum_top_bottom X docs acc_doc True 1
         else if op = ''$bottom'' then accum_top_bottom X docs acc_doc False 1
         else if op = ''$topN'' then res_bind (extract_n acc_doc) (accum_top_bottom X docs acc_doc True)
         else if op = ''$bottomN'' then res_bind (extract_n acc_doc) (accum_top_bottom X docs acc_doc False)
         else if op = ''$firstN'' then accum_first_n X docs e acc_doc
         else if op = ''$lastN'' then accum_last_n X docs e acc_doc
         else Inl (InvalidOperator (''Unknown accumulator: '' @ op)))"

end
