(* ===== verification/Stages.thy ===== *)
theory Stages
  imports Accumulators Query
begin

text \<open>
  The stages of the aggregation pipeline (\<^verbatim>\<open>aggregation/stages.rs\<close>) on lists of documents, each as the function
  of the source that computes it.  \<open>stage_error\<close> adds to the errors of expressions the message of a query error
  (\<^verbatim>\<open>Other(e)\<close>), a panic of the stage itself and the exhaustion of the stack by nested pipelines.  The iteration
  order of hash maps, the shuffle of \<^verbatim>\<open>$sample\<close> and the order of a heap are parameters.  A stage that runs a
  sub-pipeline takes the function that runs it as its first argument.
\<close>

datatype stage_error = Agg agg_error | QueryText query_error | StagePanic | StackOverflow

type_synonym 'a sres = "stage_error + 'a"

section \<open>Results of expressions and queries\<close>

definition agg :: "'a ares \<Rightarrow> 'a sres" where
  "agg r = map_err Agg r"

lemma agg_simps [simp]: "agg (Inr x) = Inr x" "agg (Inl e) = Inl (Agg e)"
  by (simp_all add: agg_def)

lemma agg_eq_Inr [simp]: "agg r = Inr x \<longleftrightarrow> r = Inr x"
  by (simp add: agg_def)

abbreviation eval_agg :: "externs \<Rightarrow> doc \<Rightarrow> bson \<Rightarrow> bson sres" where
  "eval_agg X d e \<equiv> agg (evaluate_expression X d e)"

fun query_panic :: "query_error \<Rightarrow> bool" where
  "query_panic RemainderOverflowPanic = True"
| "query_panic (ExprError ExprPanic) = True"
| "query_panic _ = False"

text \<open>\<^verbatim>\<open>eval_query(doc, filter).unwrap_or(false)\<close>: an error is no match, a panic stays one.\<close>

definition query_or_false :: "bool qres \<Rightarrow> bool sres" where
  "query_or_false r = (case r of Inr b \<Rightarrow> Inr b | Inl e \<Rightarrow> if query_panic e then Inl (QueryText e) else Inr False)"

fun filter_res :: "('a \<Rightarrow> 'e + bool) \<Rightarrow> 'a list \<Rightarrow> 'e + 'a list" where
  "filter_res f [] = Inr []"
| "filter_res f (x # xs) = res_bind (f x) (\<lambda>b. res_bind (filter_res f xs) (\<lambda>ys. Inr (if b then x # ys else ys)))"

definition stage_doc :: "string \<Rightarrow> bson \<Rightarrow> doc sres" where
  "stage_doc name spec = ok_or (Agg (InvalidStage (name @ '' requires document''))) (as_document spec)"

abbreviation get_doc :: "doc \<Rightarrow> string \<Rightarrow> doc option" where
  "get_doc d k \<equiv> Option.bind (doc_get d k) as_document"

abbreviation get_str :: "doc \<Rightarrow> string \<Rightarrow> string option" where
  "get_str d k \<equiv> Option.bind (doc_get d k) as_str"

abbreviation get_arr :: "doc \<Rightarrow> string \<Rightarrow> bson list option" where
  "get_arr d k \<equiv> Option.bind (doc_get d k) as_array_opt"

definition required :: "string \<Rightarrow> 'a option \<Rightarrow> 'a sres" where
  "required what v = ok_or (Agg (MissingField what)) v"

section \<open>\<^verbatim>\<open>$match\<close>, \<^verbatim>\<open>$project\<close>, \<^verbatim>\<open>$limit\<close>, \<^verbatim>\<open>$skip\<close>, \<^verbatim>\<open>$sort\<close>\<close>

definition stage_match :: "externs \<Rightarrow> doc list \<Rightarrow> bson \<Rightarrow> doc list sres" where
  "stage_match X docs filter_spec =
     res_bind (stage_doc ''$match'' filter_spec) (\<lambda>filter_doc.
     filter_res (\<lambda>d. query_or_false (eval_query X d filter_doc)) docs)"

definition is_exclusion :: "bson \<Rightarrow> bool" where
  "is_exclusion v \<longleftrightarrow> v = Int32 0 \<or> v = Int64 0 \<or> v = Boolean False"

definition is_inclusion :: "bson \<Rightarrow> bool" where
  "is_inclusion v \<longleftrightarrow> v = Int32 1 \<or> v = Int64 1 \<or> v = Boolean True"

definition has_exclusion :: "doc \<Rightarrow> bool" where
  "has_exclusion proj = list_ex (\<lambda>(k, v). k \<noteq> ''_id'' \<and> is_exclusion v) proj"

definition id_excluded :: "doc \<Rightarrow> bool" where
  "id_excluded proj = (case doc_get proj ''_id'' of Some v \<Rightarrow> is_exclusion v | None \<Rightarrow> False)"

definition drop_id :: "doc \<Rightarrow> doc \<Rightarrow> doc" where
  "drop_id proj nd = (if id_excluded proj then doc_remove ''_id'' nd else nd)"

definition project_exclude :: "externs \<Rightarrow> doc \<Rightarrow> doc \<Rightarrow> string \<times> bson \<Rightarrow> doc sres" where
  "project_exclude X d nd field_value = (case field_value of (field, v) \<Rightarrow>
     if field = ''_id'' then Inr nd
     else if is_exclusion v then Inr (doc_remove field nd)
     else res_bind (eval_agg X d v) (\<lambda>w. Inr (doc_insert field w nd)))"

definition project_include :: "externs \<Rightarrow> doc \<Rightarrow> doc \<Rightarrow> string \<times> bson \<Rightarrow> doc sres" where
  "project_include X d nd field_value = (case field_value of (field, v) \<Rightarrow>
     if field = ''_id'' then Inr nd
     else if is_inclusion v then Inr (case get_value d field of Some w \<Rightarrow> doc_insert field w nd | None \<Rightarrow> nd)
     else res_bind (eval_agg X d v) (\<lambda>w. Inr (doc_insert field w nd)))"

definition kept_id :: "doc \<Rightarrow> doc \<Rightarrow> doc" where
  "kept_id proj d = (if id_excluded proj then [] else case doc_get d ''_id'' of Some v \<Rightarrow> [(''_id'', v)] | None \<Rightarrow> [])"

definition project_doc :: "externs \<Rightarrow> doc \<Rightarrow> doc \<Rightarrow> doc sres" where
  "project_doc X proj d =
     (if has_exclusion proj
      then res_bind (fold_res (project_exclude X d) d proj) (\<lambda>nd. Inr (drop_id proj nd))
      else fold_res (project_include X d) (kept_id proj d) proj)"

definition stage_project :: "externs \<Rightarrow> doc list \<Rightarrow> bson \<Rightarrow> doc list sres" where
  "stage_project X docs projection =
     res_bind (stage_doc ''$project'' projection) (\<lambda>proj. map_res (project_doc X proj) docs)"

definition stage_count_arg :: "string \<Rightarrow> bson \<Rightarrow> nat sres" where
  "stage_count_arg name v = ok_or (Agg (InvalidStage (name @ '' requires number''))) (as_count v)"

definition stage_limit :: "doc list \<Rightarrow> bson \<Rightarrow> doc list sres" where
  "stage_limit docs limit = res_bind (stage_count_arg ''$limit'' limit) (\<lambda>n. Inr (take n docs))"

definition stage_skip :: "doc list \<Rightarrow> bson \<Rightarrow> doc list sres" where
  "stage_skip docs skip = res_bind (stage_count_arg ''$skip'' skip) (\<lambda>n. Inr (drop n docs))"

definition stage_sort :: "doc list \<Rightarrow> bson \<Rightarrow> doc list sres" where
  "stage_sort docs sort_spec =
     res_bind (stage_doc ''$sort'' sort_spec) (\<lambda>sort_doc. Inr (sort_by (cmp_by_sort_fields (sort_fields sort_doc)) docs))"

section \<open>\<^verbatim>\<open>$group\<close>, \<^verbatim>\<open>$count\<close>, \<^verbatim>\<open>$sortByCount\<close>\<close>

definition bson_to_key_string :: "externs \<Rightarrow> bson \<Rightarrow> string" where
  "bson_to_key_string X v = (case v of
     Str s \<Rightarrow> ''s:'' @ s
   | Int32 n \<Rightarrow> ''n:'' @ x_f64_to_string X (f64_of_int (sint n))
   | Int64 n \<Rightarrow> ''n:'' @ x_f64_to_string X (f64_of_int (sint n))
   | Double n \<Rightarrow> ''n:'' @ x_f64_to_string X n
   | Boolean b \<Rightarrow> ''bool:'' @ (if b then ''true'' else ''false'')
   | Null \<Rightarrow> ''null''
   | ObjectId oid \<Rightarrow> ''oid:'' @ to_hex oid
   | Document d \<Rightarrow> ''doc:'' @ x_bson_debug X v
   | _ \<Rightarrow> x_bson_debug X v)"

type_synonym groups = "(string \<times> bson \<times> doc list) list"

definition group_add :: "externs \<Rightarrow> bson \<Rightarrow> groups \<Rightarrow> doc \<Rightarrow> groups sres" where
  "group_add X id_expr groups d =
     res_bind (eval_agg X d id_expr) (\<lambda>key.
     let k = bson_to_key_string X key in
     Inr (al_insert k (case map_of groups k of None \<Rightarrow> (key, [d]) | Some (first, ds) \<Rightarrow> (first, ds @ [d])) groups))"

text \<open>The entries of a hash map in the order of its iteration.\<close>

definition hash_entries :: "externs \<Rightarrow> (string \<times> 'a) list \<Rightarrow> (string \<times> 'a) list" where
  "hash_entries X m = List.map_filter (\<lambda>k. map_option (Pair k) (map_of m k)) (x_hash_order X (map fst m))"

text \<open>The accumulated fields of a result document.\<close>

definition accumulate :: "externs \<Rightarrow> doc list \<Rightarrow> doc \<Rightarrow> doc \<Rightarrow> doc sres" where
  "accumulate X docs result output =
     fold_res (\<lambda>r (field, acc). res_bind (agg (evaluate_accumulator X docs acc)) (\<lambda>v. Inr (doc_insert field v r))) result output"

definition group_result :: "externs \<Rightarrow> doc \<Rightarrow> string \<times> bson \<times> doc list \<Rightarrow> doc sres" where
  "group_result X group_doc entry = (case entry of (_, id_val, docs) \<Rightarrow>
     accumulate X docs [(''_id'', id_val)] (filter (\<lambda>(field, _). field \<noteq> ''_id'') group_doc))"

definition stage_group :: "externs \<Rightarrow> doc list \<Rightarrow> bson \<Rightarrow> doc list sres" where
  "stage_group X docs group_spec =
     res_bind (stage_doc ''$group'' group_spec) (\<lambda>group_doc.
     res_bind (required ''_id required in $group'' (doc_get group_doc ''_id'')) (\<lambda>id_expr.
     res_bind (fold_res (group_add X id_expr) [] docs) (\<lambda>groups.
     map_res (group_result X group_doc) (hash_entries X groups))))"

definition stage_count :: "doc list \<Rightarrow> bson \<Rightarrow> doc list sres" where
  "stage_count docs field_name =
     res_bind (ok_or (Agg (InvalidStage ''$count requires string'')) (as_str field_name)) (\<lambda>name.
     Inr [[(name, len_i32 docs)]])"

definition stage_sort_by_count :: "externs \<Rightarrow> doc list \<Rightarrow> bson \<Rightarrow> doc list sres" where
  "stage_sort_by_count X docs e =
     res_bind (stage_group X docs (Document [(''_id'', e), (''count'', Document [(''$sum'', Int32 1)])])) (\<lambda>grouped.
     stage_sort grouped (Document [(''count'', Int32 (- 1))]))"

section \<open>\<^verbatim>\<open>$unwind\<close>, \<^verbatim>\<open>$addFields\<close>, \<^verbatim>\<open>$unset\<close>, \<^verbatim>\<open>$replaceRoot\<close>, \<^verbatim>\<open>$sample\<close>\<close>

definition strip_dollar :: "string \<Rightarrow> string" where
  "strip_dollar s = opt_or s (strip_prefix s ''$'')"

definition parse_unwind_spec :: "bson \<Rightarrow> (string \<times> bool \<times> string option) sres" where
  "parse_unwind_spec spec = (case spec of
     Str s \<Rightarrow> Inr (strip_dollar s, False, None)
   | Document d \<Rightarrow>
       res_bind (required ''$unwind requires path'' (get_str d ''path'')) (\<lambda>path.
       Inr (strip_dollar path, opt_or False (Option.bind (doc_get d ''preserveNullAndEmptyArrays'') as_bool),
         get_str d ''includeArrayIndex''))
   | _ \<Rightarrow> Inl (Agg (InvalidStage ''$unwind requires string or document'')))"

text \<open>\<^verbatim>\<open>let _ = set_value(doc, path, v)\<close>: a failed write leaves the document.\<close>

definition set_or_keep :: "doc \<Rightarrow> string \<Rightarrow> bson \<Rightarrow> doc" where
  "set_or_keep d path v = (case set_value d path v of Inr d' \<Rightarrow> d' | Inl _ \<Rightarrow> d)"

definition unset_or_keep :: "doc \<Rightarrow> string \<Rightarrow> doc" where
  "unset_or_keep d path = (case unset_value d path of Inr d' \<Rightarrow> d' | Inl _ \<Rightarrow> d)"

definition with_index :: "string option \<Rightarrow> bson \<Rightarrow> doc \<Rightarrow> doc" where
  "with_index idx_field v d = (case idx_field of Some f \<Rightarrow> doc_insert f v d | None \<Rightarrow> d)"

definition unwind_single_doc :: "doc \<Rightarrow> string \<Rightarrow> bool \<Rightarrow> string option \<Rightarrow> doc list" where
  "unwind_single_doc d path preserve_null idx_field = (case get_value d path of
     Some (Array arr) \<Rightarrow>
       if arr = [] then (if preserve_null then [with_index idx_field Null (unset_or_keep d path)] else [])
       else map (\<lambda>(i, item). with_index idx_field (Int64 (of_nat i)) (set_or_keep d path item)) (List.enumerate 0 arr)
   | Some Null \<Rightarrow> if preserve_null then [with_index idx_field Null d] else []
   | None \<Rightarrow> if preserve_null then [with_index idx_field Null d] else []
   | Some v \<Rightarrow> [with_index idx_field Null (set_or_keep d path v)])"

definition stage_unwind :: "doc list \<Rightarrow> bson \<Rightarrow> doc list sres" where
  "stage_unwind docs spec =
     res_bind (parse_unwind_spec spec) (\<lambda>(path, preserve_null, idx_field).
     Inr (concat (map (\<lambda>d. unwind_single_doc d path preserve_null idx_field) docs)))"

definition add_fields_doc :: "externs \<Rightarrow> doc \<Rightarrow> doc \<Rightarrow> doc sres" where
  "add_fields_doc X spec d =
     fold_res (\<lambda>nd (field, e). res_bind (eval_agg X d e) (\<lambda>v. Inr (set_or_keep nd field v))) d spec"

definition stage_add_fields :: "externs \<Rightarrow> doc list \<Rightarrow> bson \<Rightarrow> doc list sres" where
  "stage_add_fields X docs fields_spec =
     res_bind (stage_doc ''$addFields'' fields_spec) (\<lambda>spec. map_res (add_fields_doc X spec) docs)"

definition unset_fields :: "bson \<Rightarrow> string list sres" where
  "unset_fields spec = (case spec of
     Str s \<Rightarrow> Inr [s]
   | Array arr \<Rightarrow> Inr (List.map_filter as_str arr)
   | _ \<Rightarrow> Inl (Agg (InvalidStage ''$unset requires string or array'')))"

definition stage_unset :: "doc list \<Rightarrow> bson \<Rightarrow> doc list sres" where
  "stage_unset docs spec = res_bind (unset_fields spec) (\<lambda>names. Inr (map (\<lambda>d. foldl unset_or_keep d names) docs))"

definition new_root_expr :: "bson \<Rightarrow> bson" where
  "new_root_expr spec = (case as_document spec of Some d \<Rightarrow> opt_or spec (doc_get d ''newRoot'') | None \<Rightarrow> spec)"

definition replace_root_doc :: "externs \<Rightarrow> bson \<Rightarrow> doc \<Rightarrow> doc sres" where
  "replace_root_doc X e d =
     res_bind (eval_agg X d e) (\<lambda>v.
     ok_or (Agg (TypeError ''$replaceRoot expression must evaluate to a document'')) (as_document v))"

definition stage_replace_root :: "externs \<Rightarrow> doc list \<Rightarrow> bson \<Rightarrow> doc list sres" where
  "stage_replace_root X docs spec = map_res (replace_root_doc X (new_root_expr spec)) docs"

definition stage_sample :: "externs \<Rightarrow> doc list \<Rightarrow> bson \<Rightarrow> doc list sres" where
  "stage_sample X docs spec =
     res_bind (stage_doc ''$sample'' spec) (\<lambda>size_doc.
     res_bind (required ''$sample.size required'' (Option.bind (doc_get size_doc ''size'') as_count)) (\<lambda>size.
     Inr (take size (x_shuffle X docs))))"

section \<open>\<^verbatim>\<open>$redact\<close>\<close>

definition redact_decision :: "externs \<Rightarrow> bson \<Rightarrow> doc \<Rightarrow> bson sres" where
  "redact_decision X e d = (case as_str e of
     Some s \<Rightarrow> if starts_with s ''$$'' then Inr e else eval_agg X d e
   | None \<Rightarrow> eval_agg X d e)"

function redact_doc :: "externs \<Rightarrow> bson \<Rightarrow> doc \<Rightarrow> doc option sres" where
  "redact_doc X e d = res_bind (redact_decision X e d) (\<lambda>result.
     if result = Str ''$$KEEP'' then Inr (Some d)
     else if result = Str ''$$PRUNE'' then Inr None
     else if result = Str ''$$DESCEND'' then
       res_bind (fold_res (\<lambda>new_doc (key, v). case v of
           Document sub \<Rightarrow> res_bind (redact_doc X e sub) (\<lambda>r.
             Inr (case r of Some redacted \<Rightarrow> doc_insert key (Document redacted) new_doc | None \<Rightarrow> new_doc))
         | Array arr \<Rightarrow>
             res_bind (fold_res (\<lambda>new_arr item. case item of
                 Document sub \<Rightarrow> res_bind (redact_doc X e sub) (\<lambda>r.
                   Inr (case r of Some redacted \<Rightarrow> new_arr @ [Document redacted] | None \<Rightarrow> new_arr))
               | _ \<Rightarrow> Inr (new_arr @ [item])) [] arr) (\<lambda>new_arr.
             Inr (doc_insert key (Array new_arr) new_doc))
         | _ \<Rightarrow> Inr (doc_insert key v new_doc)) [] d) (\<lambda>new_doc. Inr (Some new_doc))
     else Inl (Agg (InvalidStage ''$redact expression must resolve to $$KEEP, $$PRUNE, or $$DESCEND'')))"
  by pat_completeness auto
termination
  by (relation "measure (\<lambda>(X, e, d). bson_nodes (Document d))")
    (auto simp del: bson_nodes.simps dest!: bson_nodes_field bson_nodes_item)

declare redact_doc.simps [simp del]

definition stage_redact :: "externs \<Rightarrow> doc list \<Rightarrow> bson \<Rightarrow> doc list sres" where
  "stage_redact X docs e = res_bind (map_res (redact_doc X e) docs) (\<lambda>rs. Inr (List.map_filter (\<lambda>r. r) rs))"

section \<open>\<^verbatim>\<open>$bucket\<close> and \<^verbatim>\<open>$bucketAuto\<close>\<close>

definition partition_point :: "('a \<Rightarrow> bool) \<Rightarrow> 'a list \<Rightarrow> nat" where
  "partition_point p xs = (case binary_search_by (\<lambda>x. if p x then Less else Greater) xs of Inl i \<Rightarrow> i | Inr i \<Rightarrow> i)"

type_synonym buckets = "(string \<times> doc list) list"

definition bucket_place :: "externs \<Rightarrow> bson \<Rightarrow> f64 list \<Rightarrow> bool \<Rightarrow> buckets \<times> doc list \<Rightarrow> doc \<Rightarrow> (buckets \<times> doc list) sres" where
  "bucket_place X group_by bounds has_default s d = (case s of (buckets, default_docs) \<Rightarrow>
     let otherwise = (buckets, if has_default then default_docs @ [d] else default_docs) in
     res_bind (eval_agg X d group_by) (\<lambda>v.
     Inr (case as_f64 v of
       Some n \<Rightarrow>
         (let idx = partition_point (\<lambda>b. f64_le b n) bounds in
          if 0 < idx \<and> idx < length bounds
          then (let key = x_f64_to_string X (bounds ! (idx - 1)) in
                (al_push key d buckets, default_docs))
          else otherwise)
     | None \<Rightarrow> otherwise)))"

definition bucket_fill :: "externs \<Rightarrow> doc option \<Rightarrow> doc list \<Rightarrow> bson \<Rightarrow> doc sres" where
  "bucket_fill X output_spec docs id_val = (case output_spec of
     Some output \<Rightarrow> accumulate X docs [(''_id'', id_val)] output
   | None \<Rightarrow> Inr [(''_id'', id_val), (''count'', len_i32 docs)])"

fun bucket_rows :: "externs \<Rightarrow> doc option \<Rightarrow> buckets \<Rightarrow> f64 list \<Rightarrow> doc list sres" where
  "bucket_rows X output_spec buckets [] = Inr []"
| "bucket_rows X output_spec buckets (b # bs) =
     (let key = x_f64_to_string X b in
      res_bind (bucket_fill X output_spec (opt_or [] (map_of buckets key)) (Double b)) (\<lambda>row.
      res_bind (bucket_rows X output_spec (al_remove key buckets) bs) (\<lambda>rows. Inr (row # rows))))"

definition stage_bucket :: "externs \<Rightarrow> doc list \<Rightarrow> bson \<Rightarrow> doc list sres" where
  "stage_bucket X docs spec =
     res_bind (stage_doc ''$bucket'' spec) (\<lambda>bucket_doc.
     res_bind (required ''$bucket.groupBy required'' (doc_get bucket_doc ''groupBy'')) (\<lambda>group_by.
     res_bind (required ''$bucket.boundaries required'' (get_arr bucket_doc ''boundaries'')) (\<lambda>boundaries.
     let default_bucket = doc_get bucket_doc ''default''; output_spec = get_doc bucket_doc ''output'';
         bounds = numbers boundaries in
     if length bounds < 2 then Inl (Agg (InvalidStage ''$bucket requires at least 2 boundaries''))
     else res_bind (fold_res (bucket_place X group_by bounds (default_bucket \<noteq> None)) ([], []) docs) (\<lambda>(buckets, default_docs).
       res_bind (bucket_rows X output_spec buckets (butlast bounds)) (\<lambda>rows.
       case default_bucket of
         Some def \<Rightarrow> if default_docs = [] then Inr rows
           else res_bind (bucket_fill X output_spec default_docs def) (\<lambda>row. Inr (rows @ [row]))
       | None \<Rightarrow> Inr rows)))))"

definition f64_order :: "f64 \<Rightarrow> f64 \<Rightarrow> ordering" where
  "f64_order a b = opt_or Equal (f64_partial_cmp a b)"

text \<open>The loop over the chunks; \<^verbatim>\<open>per_bucket\<close> is zero only when there is no document.\<close>

function auto_rows :: "externs \<Rightarrow> doc option \<Rightarrow> nat \<Rightarrow> (f64 \<times> doc) list \<Rightarrow> doc list sres" where
  "auto_rows X output_spec per_bucket valued =
     (if valued = [] \<or> per_bucket = 0 then Inr []
      else (let chunk = take per_bucket valued; rest = drop per_bucket valued;
                max_val = (case rest of (n, _) # _ \<Rightarrow> n | [] \<Rightarrow> fst (List.last chunk)) in
        res_bind (bucket_fill X output_spec (map snd chunk) (Document [(''min'', Double (fst (hd valued))), (''max'', Double max_val)])) (\<lambda>row.
        res_bind (auto_rows X output_spec per_bucket rest) (\<lambda>rows. Inr (row # rows)))))"
  by pat_completeness auto
termination
  by (relation "measure (\<lambda>(X, output_spec, per_bucket, valued). length valued)") auto

declare auto_rows.simps [simp del]

definition div_ceil :: "nat \<Rightarrow> nat \<Rightarrow> nat" where
  "div_ceil a b = a div b + (if 0 < a mod b then 1 else 0)"

definition stage_bucket_auto :: "externs \<Rightarrow> doc list \<Rightarrow> bson \<Rightarrow> doc list sres" where
  "stage_bucket_auto X docs spec =
     res_bind (stage_doc ''$bucketAuto'' spec) (\<lambda>auto_doc.
     res_bind (required ''$bucketAuto.groupBy required'' (doc_get auto_doc ''groupBy'')) (\<lambda>group_by.
     res_bind (required ''$bucketAuto.buckets required'' (Option.bind (doc_get auto_doc ''buckets'') as_count)) (\<lambda>num_buckets.
     let output_spec = get_doc auto_doc ''output'' in
     res_bind (map_res (\<lambda>d. res_bind (eval_agg X d group_by) (\<lambda>v. Inr (map_option (\<lambda>n. (n, d)) (as_f64 v)))) docs) (\<lambda>vals.
     let valued = sort_by (\<lambda>a b. f64_order (fst a) (fst b)) (List.map_filter (\<lambda>v. v) vals);
         total = length valued;
         per_bucket = (if 0 < num_buckets then div_ceil total num_buckets else total) in
     auto_rows X output_spec per_bucket valued))))"

end
