(* ===== verification/Spill.thy ===== *)
theory Spill
  imports Stages
begin

text \<open>
  Sorting and grouping with temporary files (\<^verbatim>\<open>aggregation/disk_spill.rs\<close>).  A spill file is the bytes written to
  it and the number of documents still to be read; errors of the file system are not modelled, and the
  message of the \<^verbatim>\<open>bson\<close> crate is left out of the error text.  The stream a stage reads is the list of the items it
  yields.  The theorems: an external sort returns the documents of the stream in the order of the in-memory
  sort up to equal keys, and an external group returns the groups of the in-memory stage in some order.
\<close>

type_synonym doc_stream = "doc sres list"
type_synonym spill_file = "bytes \<times> nat"

section \<open>Spill files\<close>

definition estimate_doc_bytes :: "externs \<Rightarrow> doc \<Rightarrow> nat" where
  "estimate_doc_bytes X d = (case x_to_vec X d of Some b \<Rightarrow> length b | None \<Rightarrow> 256)"

abbreviation spill_error :: "string \<Rightarrow> stage_error" where
  "spill_error what \<equiv> Agg (AggOther (''disk spill: '' @ what))"

definition write_doc :: "externs \<Rightarrow> spill_file \<Rightarrow> doc \<Rightarrow> spill_file sres" where
  "write_doc X w d = res_bind (ok_or (spill_error ''serialize'') (x_to_vec X d)) (\<lambda>b. Inr (fst w @ b, Suc (snd w)))"

definition write_run :: "externs \<Rightarrow> doc list \<Rightarrow> spill_file sres" where
  "write_run X docs = fold_res (write_doc X) ([], 0) docs"

text \<open>A length below four or beyond the address space panics; the end of the file ends the run.\<close>

definition read_doc :: "externs \<Rightarrow> spill_file \<Rightarrow> (doc option \<times> spill_file) sres" where
  "read_doc X r = (case r of (file, remaining) \<Rightarrow>
     if remaining = 0 then Inr (None, r)
     else if length file < 4 then Inr (None, ([], remaining))
     else (let doc_len = unat (scast (of_le_bytes (take 4 file) :: 32 word) :: 64 word) in
       if 2 ^ 63 \<le> doc_len \<or> doc_len < 4 then Inl StagePanic
       else if length file < doc_len then Inl (spill_error ''read doc'')
       else res_bind (ok_or (spill_error ''deserialize'') (x_from_reader X (take doc_len file))) (\<lambda>d.
         Inr (Some d, (drop doc_len file, remaining - 1)))))"

lemma read_doc_remaining: "read_doc X r = Inr (Some d, r') \<Longrightarrow> snd r = Suc (snd r')"
  by (auto simp: read_doc_def Let_def split: prod.splits if_splits)

lemma read_doc_end: "read_doc X r = Inr (None, r') \<Longrightarrow> snd r' = snd r"
  by (auto simp: read_doc_def Let_def split: prod.splits if_splits)

function read_all :: "externs \<Rightarrow> spill_file \<Rightarrow> doc list sres" where
  "read_all X r = (case read_doc X r of
     Inl e \<Rightarrow> Inl e
   | Inr (None, _) \<Rightarrow> Inr []
   | Inr (Some d, r') \<Rightarrow> res_bind (read_all X r') (\<lambda>ds. Inr (d # ds)))"
  by pat_completeness auto
termination
  by (relation "measure (\<lambda>(X, r). snd r)") (auto dest: read_doc_remaining)

declare read_all.simps [simp del]

section \<open>External sort\<close>

definition spill_step :: "externs \<Rightarrow> (doc \<Rightarrow> doc \<Rightarrow> ordering) \<Rightarrow> nat \<Rightarrow> doc list \<times> nat \<times> spill_file list \<Rightarrow> doc sres \<Rightarrow> (doc list \<times> nat \<times> spill_file list) sres" where
  "spill_step X c limit s item = res_bind item (\<lambda>d. case s of (buffer, buffer_bytes, runs) \<Rightarrow>
     let buffer = buffer @ [d]; buffer_bytes = buffer_bytes + estimate_doc_bytes X d in
     if limit \<le> buffer_bytes
     then res_bind (write_run X (sort_by c buffer)) (\<lambda>run. Inr ([], 0, runs @ [run]))
     else Inr (buffer, buffer_bytes, runs))"

type_synonym merge_heap = "(doc \<times> nat) list"

definition heap_fill :: "externs \<Rightarrow> spill_file list \<times> merge_heap \<Rightarrow> nat \<Rightarrow> (spill_file list \<times> merge_heap) sres" where
  "heap_fill X s i = (case s of (runs, heap) \<Rightarrow>
     res_bind (read_doc X (runs ! i)) (\<lambda>(d, r). Inr (runs[i := r], case d of Some d \<Rightarrow> heap @ [(d, i)] | None \<Rightarrow> heap)))"

definition remove_at :: "nat \<Rightarrow> 'a list \<Rightarrow> 'a list" where
  "remove_at i xs = take i xs @ drop (Suc i) xs"

lemma mset_remove_at: "i < length xs \<Longrightarrow> mset xs = add_mset (xs ! i) (mset (remove_at i xs))"
  unfolding remove_at_def by (subst id_take_nth_drop [of i xs]) simp_all

lemma length_remove_at: "i < length xs \<Longrightarrow> length (remove_at i xs) = length xs - 1"
  by (simp add: remove_at_def)

lemma sum_list_snd_update:
  fixes runs :: "spill_file list"
  assumes "i < length runs" and "snd (runs ! i) = Suc (snd r)"
  shows "sum_list (map snd runs) = Suc (sum_list (map snd (runs[i := r])))"
proof -
  have "Suc (snd r) \<le> sum_list (map snd runs)" using elem_le_sum_list [of i "map snd runs"] assms by simp
  then show ?thesis using assms by (simp add: map_update sum_list_update)
qed

lemma sum_list_snd_keep:
  fixes runs :: "spill_file list"
  assumes "i < length runs" and "snd r = snd (runs ! i)"
  shows "sum_list (map snd (runs[i := r])) = sum_list (map snd runs)"
proof -
  have "snd r \<le> sum_list (map snd runs)" using elem_le_sum_list [of i "map snd runs"] assms by simp
  then show ?thesis using assms by (simp add: map_update sum_list_update)
qed

text \<open>The heap pops an entry that is greatest in the reversed order; the run it came from gives the next.\<close>

function merge_runs :: "externs \<Rightarrow> (doc \<Rightarrow> doc \<Rightarrow> ordering) \<Rightarrow> spill_file list \<Rightarrow> merge_heap \<Rightarrow> doc list sres" where
  "merge_runs X c runs heap =
     (if heap = [] then Inr []
      else (let i = x_pop_greatest X (\<lambda>a b. ord_reverse (c a b)) (map fst heap) in
        if length heap \<le> i then Inl StagePanic
        else (case heap ! i of (d, run_idx) \<Rightarrow>
          if length runs \<le> run_idx then Inl StagePanic
          else (case read_doc X (runs ! run_idx) of
            Inl e \<Rightarrow> Inl e
          | Inr (None, r) \<Rightarrow> res_bind (merge_runs X c (runs[run_idx := r]) (remove_at i heap)) (\<lambda>ds. Inr (d # ds))
          | Inr (Some next_doc, r) \<Rightarrow>
              res_bind (merge_runs X c (runs[run_idx := r]) (remove_at i heap @ [(next_doc, run_idx)])) (\<lambda>ds. Inr (d # ds))))))"
  by pat_completeness auto
termination
  apply (relation "measure (\<lambda>(X, c, runs, heap). sum_list (map snd runs) + length heap)")
  apply (auto simp: not_le length_remove_at sum_list_snd_keep dest!: read_doc_remaining read_doc_end)
  subgoal for X c runs heap d y aa b using sum_list_snd_update [of y runs "(aa, b)"] by simp
  done

declare merge_runs.simps [simp del]

definition external_sort :: "externs \<Rightarrow> doc_stream \<Rightarrow> bson \<Rightarrow> nat \<Rightarrow> doc list sres" where
  "external_sort X input sort_spec memory_limit =
     res_bind (stage_doc ''$sort'' sort_spec) (\<lambda>sort_doc.
     let c = cmp_by_sort_fields (sort_fields sort_doc) in
     res_bind (fold_res (spill_step X c memory_limit) ([], 0, []) input) (\<lambda>(buffer, _, runs).
     if runs = [] then Inr (sort_by c buffer)
     else res_bind (if buffer = [] then Inr runs else res_bind (write_run X (sort_by c buffer)) (\<lambda>run. Inr (runs @ [run]))) (\<lambda>runs.
       res_bind (fold_res (heap_fill X) (runs, []) [0..<length runs]) (\<lambda>(runs, heap).
       merge_runs X c runs heap))))"

section \<open>External group\<close>

definition hash_group_key :: "string \<Rightarrow> nat" where
  "hash_group_key key = unat (foldl (\<lambda>h b. h * 31 + ucast b) (5381 :: 64 word) (as_bytes key)) mod 64"

definition partition_doc :: "externs \<Rightarrow> bson \<Rightarrow> spill_file list \<Rightarrow> doc \<Rightarrow> spill_file list sres" where
  "partition_doc X id_expr writers d =
     res_bind (eval_agg X d id_expr) (\<lambda>key.
     let p = hash_group_key (bson_to_key_string X key) in
     res_bind (write_doc X (writers ! p) d) (\<lambda>w. Inr (writers[p := w])))"

definition group_spill_step :: "externs \<Rightarrow> bson \<Rightarrow> nat \<Rightarrow> doc list \<times> nat \<times> spill_file list option \<Rightarrow> doc sres \<Rightarrow> (doc list \<times> nat \<times> spill_file list option) sres" where
  "group_spill_step X id_expr limit s item = res_bind item (\<lambda>d. case s of
     (buffer, buffer_bytes, None) \<Rightarrow>
       let buffer = buffer @ [d]; buffer_bytes = buffer_bytes + estimate_doc_bytes X d in
       if limit \<le> buffer_bytes
       then res_bind (fold_res (partition_doc X id_expr) (replicate 64 ([], 0)) buffer) (\<lambda>writers. Inr ([], buffer_bytes, Some writers))
       else Inr (buffer, buffer_bytes, None)
   | (buffer, buffer_bytes, Some writers) \<Rightarrow>
       res_bind (partition_doc X id_expr writers d) (\<lambda>writers. Inr (buffer, buffer_bytes, Some writers)))"

definition group_partition :: "externs \<Rightarrow> bson \<Rightarrow> spill_file \<Rightarrow> doc list sres" where
  "group_partition X group_spec w =
     (if snd w = 0 then Inr [] else res_bind (read_all X w) (\<lambda>docs. stage_group X docs group_spec))"

definition external_group :: "externs \<Rightarrow> doc_stream \<Rightarrow> bson \<Rightarrow> nat \<Rightarrow> doc list sres" where
  "external_group X input group_spec memory_limit =
     res_bind (stage_doc ''$group'' group_spec) (\<lambda>group_doc.
     res_bind (required ''_id required in $group'' (doc_get group_doc ''_id'')) (\<lambda>id_expr.
     res_bind (fold_res (group_spill_step X id_expr memory_limit) ([], 0, None) input) (\<lambda>(buffer, _, writers).
     case writers of
       None \<Rightarrow> stage_group X buffer group_spec
     | Some writers \<Rightarrow> res_bind (map_res (group_partition X group_spec) writers) (\<lambda>rows. Inr (concat rows)))))"

section \<open>What a spill file holds\<close>

definition run_holds :: "externs \<Rightarrow> spill_file \<Rightarrow> doc list \<Rightarrow> bool" where
  "run_holds X r ds \<longleftrightarrow> snd r = length ds \<and> (\<exists>bs. map (x_to_vec X) ds = map Some bs \<and> fst r = concat bs)"

definition spillable :: "externs \<Rightarrow> doc \<Rightarrow> bool" where
  "spillable X d \<longleftrightarrow> x_to_vec X d \<noteq> None"

lemma run_holds_empty: "run_holds X ([], 0) []"
  by (simp add: run_holds_def)

lemma write_doc_holds:
  assumes "run_holds X w ds" and "spillable X d"
  shows "\<exists>w'. write_doc X w d = Inr w' \<and> run_holds X w' (ds @ [d])"
proof -
  obtain b bs where b: "x_to_vec X d = Some b" and bs: "map (x_to_vec X) ds = map Some bs" "fst w = concat bs"
    using assms by (auto simp: run_holds_def spillable_def)
  have "map (x_to_vec X) (ds @ [d]) = map Some (bs @ [b]) \<and> fst w @ b = concat (bs @ [b])" using b bs by simp
  then have "\<exists>cs. map (x_to_vec X) (ds @ [d]) = map Some cs \<and> fst w @ b = concat cs" by blast
  then show ?thesis using assms(1) b by (simp add: write_doc_def run_holds_def)
qed

lemma write_docs_holds:
  "run_holds X w ds \<Longrightarrow> \<forall>d \<in> set es. spillable X d \<Longrightarrow> \<exists>w'. fold_res (write_doc X) w es = Inr w' \<and> run_holds X w' (ds @ es)"
proof (induction es arbitrary: w ds)
  case (Cons e es)
  have "spillable X e" using Cons.prems(2) by simp
  then obtain w' where w': "write_doc X w e = Inr w'" "run_holds X w' (ds @ [e])" using write_doc_holds [OF Cons.prems(1)] by blast
  then show ?case using Cons.IH [OF w'(2)] Cons.prems(2) by simp
qed simp

lemma write_run_holds: "\<forall>d \<in> set ds. spillable X d \<Longrightarrow> \<exists>r. write_run X ds = Inr r \<and> run_holds X r ds"
  using write_docs_holds [OF run_holds_empty] by (simp add: write_run_def)

lemma read_doc_holds_Nil: "run_holds X r [] \<Longrightarrow> read_doc X r = Inr (None, r)"
  by (auto simp: run_holds_def read_doc_def split: prod.splits)

lemma unat_scast_of_nat: "n < 2 ^ 31 \<Longrightarrow> unat (scast (of_nat n :: 32 word) :: 64 word) = n"
proof -
  assume n: "n < 2 ^ 31"
  have "sint (of_nat n :: 32 word) = int n" using sint_word_of_int32 [of "int n"] n by simp
  then have "scast (of_nat n :: 32 word) = (of_nat n :: 64 word)" by (metis of_int_of_nat_eq of_int_sint)
  then show ?thesis using n by (simp add: unat_of_nat take_bit_eq_mod)
qed

lemma read_doc_holds_Cons:
  assumes "codec_ok X" and "run_holds X r (d # ds)"
  shows "\<exists>r'. read_doc X r = Inr (Some d, r') \<and> run_holds X r' ds"
proof -
  obtain b bs where b: "x_to_vec X d = Some b" and bs: "map (x_to_vec X) ds = map Some bs" and r: "r = (b @ concat bs, Suc (length ds))"
    using assms(2) by (cases r) (auto simp: run_holds_def)
  have c: "x_from_reader X b = Some d" "5 \<le> length b" "length b < 2 ^ 31" "take 4 b = le_bytes 4 (of_nat (length b) :: 32 word)"
    using assms(1) b by (auto simp: codec_ok_def)
  note len = unat_scast_of_nat [OF c(3)]
  have word: "of_le_bytes (take 4 b) = (of_nat (length b) :: 32 word)" unfolding c(4) by (rule le_bytes_roundtrip) simp
  have "4 - length b = 0" using c(2) by simp
  then have "read_doc X r = Inr (Some d, (concat bs, length ds))"
    using c by (simp add: r read_doc_def word len Let_def)
  then show ?thesis using bs by (auto simp: run_holds_def)
qed

lemma read_all_holds: "codec_ok X \<Longrightarrow> run_holds X r ds \<Longrightarrow> read_all X r = Inr ds"
proof (induction ds arbitrary: r)
  case Nil
  then show ?case by (simp add: read_all.simps read_doc_holds_Nil)
next
  case (Cons d ds)
  then obtain r' where "read_doc X r = Inr (Some d, r')" "run_holds X r' ds" using read_doc_holds_Cons by blast
  then show ?case using Cons.IH [OF Cons.prems(1)] by (subst read_all.simps) simp
qed

section \<open>Merging sorted runs\<close>

text \<open>A heap pops an entry that none exceeds, when its order is a total preorder.\<close>

definition heap_pops :: "externs \<Rightarrow> bool" where
  "heap_pops X \<longleftrightarrow> (\<forall>A c h. total_preorder_on A c \<longrightarrow> set h \<subseteq> A \<longrightarrow> h \<noteq> [] \<longrightarrow>
     x_pop_greatest X c h < length h \<and> (\<forall>d \<in> set h. c d (h ! x_pop_greatest X c h) \<noteq> Greater))"

text \<open>
  The state of the merge over the remaining documents \<open>Ls\<close> of the runs, of which the first \<open>n\<close> have entered
  the heap: an entry is not beyond what is left of its run, and a run without an entry is finished.
\<close>

definition merge_ok :: "(doc \<Rightarrow> doc \<Rightarrow> ordering) \<Rightarrow> nat \<Rightarrow> doc list list \<Rightarrow> merge_heap \<Rightarrow> bool" where
  "merge_ok c n Ls heap \<longleftrightarrow> n \<le> length Ls \<and> distinct (map snd heap) \<and>
     (\<forall>(d, i) \<in> set heap. i < n \<and> sorted_by c (d # Ls ! i)) \<and>
     (\<forall>i < n. i \<notin> snd ` set heap \<longrightarrow> Ls ! i = []) \<and> (\<forall>i < length Ls. n \<le> i \<longrightarrow> sorted_by c (Ls ! i))"

lemma mset_concat_update:
  assumes "k < length Ls" and "Ls ! k = e # es"
  shows "mset (concat Ls) = add_mset e (mset (concat (Ls[k := es])))"
  using assms by (subst id_take_nth_drop [of k Ls]) (simp_all add: upd_conv_take_nth_drop)

lemma merge_ok_push:
  assumes ok: "merge_ok c n Ls heap" and k: "k < length Ls" "k \<notin> snd ` set heap" "k \<le> n"
    and sorted: "sorted_by c (e # es)"
  shows "merge_ok c (max n (Suc k)) (Ls[k := es]) (heap @ [(e, k)])"
proof -
  have entry: "i < max n (Suc k) \<and> sorted_by c (d # Ls[k := es] ! i)" if di: "(d, i) \<in> set (heap @ [(e, k)])" for d i
  proof (cases "i = k")
    case True
    have "(d, k) \<notin> set heap" using k(2) by (metis image_eqI snd_conv)
    with True di have "d = e" by simp
    with True sorted k(1) show ?thesis by simp
  next
    case False
    with di have "(d, i) \<in> set heap" by simp
    with ok have "i < n \<and> sorted_by c (d # Ls ! i)" unfolding merge_ok_def by blast
    with False show ?thesis by (simp add: less_max_iff_disj)
  qed
  have finished: "Ls[k := es] ! i = []" if "i < max n (Suc k)" "i \<notin> snd ` set (heap @ [(e, k)])" for i
  proof -
    have "i < n" "i \<notin> snd ` set heap" "i \<noteq> k" using that k(3) by (auto simp: less_max_iff_disj)
    with ok show ?thesis by (simp add: merge_ok_def)
  qed
  have "max n (Suc k) \<le> length Ls" "distinct (map snd (heap @ [(e, k)]))" "\<forall>i < length Ls. n \<le> i \<longrightarrow> sorted_by c (Ls ! i)"
    using ok k by (simp_all add: merge_ok_def)
  moreover have "\<forall>p \<in> set (heap @ [(e, k)]). case p of (d, i) \<Rightarrow> i < max n (Suc k) \<and> sorted_by c (d # Ls[k := es] ! i)"
    using entry by blast
  ultimately show ?thesis unfolding merge_ok_def using finished
    by (intro conjI allI impI) (simp_all add: nth_list_update)
qed

lemma remove_at_entry:
  assumes "distinct (map snd heap)" and "i < length heap" and "heap ! i = (d, k)"
  shows "distinct (map snd (remove_at i heap))" and "k \<notin> snd ` set (remove_at i heap)"
    and "set heap = insert (d, k) (set (remove_at i heap))"
proof -
  have split: "heap = take i heap @ (d, k) # drop (Suc i) heap" using id_take_nth_drop [OF assms(2)] assms(3) by simp
  then have "distinct (map snd (take i heap @ (d, k) # drop (Suc i) heap))" using assms(1) by simp
  then show "distinct (map snd (remove_at i heap))" "k \<notin> snd ` set (remove_at i heap)"
    unfolding remove_at_def by (simp_all add: image_Un)
  have "set heap = set (take i heap @ (d, k) # drop (Suc i) heap)" using split by simp
  then show "set heap = insert (d, k) (set (remove_at i heap))" by (simp add: remove_at_def)
qed

lemma merge_ok_drop:
  assumes ok: "merge_ok c n Ls heap" and i: "i < length heap" "heap ! i = (d, k)" and "Ls ! k = []"
  shows "merge_ok c n Ls (remove_at i heap)"
proof -
  have "distinct (map snd heap)" using ok by (simp add: merge_ok_def)
  note entry = remove_at_entry [OF this i]
  have "Ls ! j = []" if "j < n" "j \<notin> snd ` set (remove_at i heap)" for j
    using that assms(1,4) entry(3) by (cases "j = k") (simp_all add: merge_ok_def)
  then show ?thesis using ok entry(1,3) unfolding merge_ok_def by simp
qed

lemma merge_ok_clear: "merge_ok c n Ls heap \<Longrightarrow> merge_ok c n (Ls[k := []]) heap"
  unfolding merge_ok_def by (cases "k < length Ls") (auto simp: nth_list_update)

lemma merge_ok_least:
  assumes tp: "total_preorder_on A c" and A: "fst ` set heap \<union> set (concat Ls) \<subseteq> A" and ok: "merge_ok c (length Ls) Ls heap"
    and d: "d \<in> A" "\<forall>e \<in> fst ` set heap. c d e \<noteq> Greater" and e: "e \<in> fst ` set heap \<union> set (concat Ls)"
  shows "c d e \<noteq> Greater"
proof (cases "e \<in> fst ` set heap")
  case False
  with e obtain j where j: "j < length Ls" "e \<in> set (Ls ! j)" by (auto simp: in_set_conv_nth [of _ Ls])
  then have "j \<in> snd ` set heap" using ok by (auto simp: merge_ok_def)
  then obtain f where f: "(f, j) \<in> set heap" by auto
  with ok have "sorted_by c (f # Ls ! j)" unfolding merge_ok_def by blast
  then have fe: "c f e \<noteq> Greater" using j(2) by simp
  have fA: "f \<in> fst ` set heap" using f by force
  then show ?thesis using total_preorder_on_trans [OF tp d(1), of f e] A e fe d(2) by blast
qed (use d in blast)

text \<open>A step of the merge: it takes a least document and asks its run for the next one.\<close>

lemma merge_pop:
  assumes tp: "total_preorder_on A c" and pops: "heap_pops X" and ok: "merge_ok c (length Ls) Ls heap"
    and A: "fst ` set heap \<union> set (concat Ls) \<subseteq> A" and lr: "length runs = length Ls" and ne: "heap \<noteq> []"
  obtains i d k where "i < length heap" "heap ! i = (d, k)" "k < length Ls" "sorted_by c (d # Ls ! k)"
    "\<forall>e \<in> fst ` set heap \<union> set (concat Ls). c d e \<noteq> Greater"
    "merge_runs X c runs heap = (case read_doc X (runs ! k) of
            Inl e \<Rightarrow> Inl e
          | Inr (None, r) \<Rightarrow> res_bind (merge_runs X c (runs[k := r]) (remove_at i heap)) (\<lambda>ds. Inr (d # ds))
          | Inr (Some e, r) \<Rightarrow> res_bind (merge_runs X c (runs[k := r]) (remove_at i heap @ [(e, k)])) (\<lambda>ds. Inr (d # ds)))"
proof -
  define i where "i = x_pop_greatest X (\<lambda>a b. ord_reverse (c a b)) (map fst heap)"
  have hA: "set (map fst heap) \<subseteq> A" using A by auto
  have pop: "i < length (map fst heap) \<and> (\<forall>e \<in> set (map fst heap). ord_reverse (c e (map fst heap ! i)) \<noteq> Greater)"
    using pops total_preorder_on_reverse [OF tp] hA ne unfolding heap_pops_def i_def by (metis map_is_Nil_conv)
  then have i: "i < length heap" by simp
  obtain d k where dk: "heap ! i = (d, k)" by fastforce
  have mem: "(d, k) \<in> set heap" using i dk by (metis nth_mem)
  then have k: "k < length Ls" and dA: "d \<in> A" and sd: "sorted_by c (d # Ls ! k)" using ok A by (auto simp: merge_ok_def)
  have "c d e \<noteq> Greater" if "e \<in> fst ` set heap" for e
  proof -
    have "e \<in> A" using that A by blast
    have "c e d \<noteq> Less" using pop that i dk by auto
    moreover have "c e d = ord_reverse (c d e)" using \<open>e \<in> A\<close> by (rule total_preorder_on_swap [OF tp dA])
    ultimately show ?thesis by simp
  qed
  then have "\<forall>e \<in> fst ` set heap. c d e \<noteq> Greater" by blast
  then have least: "\<forall>e \<in> fst ` set heap \<union> set (concat Ls). c d e \<noteq> Greater" using merge_ok_least [OF tp A ok dA] by blast
  show thesis
    by (rule that [OF i dk k sd least], unfold merge_runs.simps [of X c runs heap] Let_def i_def [symmetric])
      (use ne i dk k lr in \<open>simp split del: sum.split\<close>)
qed

lemma merge_next:
  assumes ok: "merge_ok c (length Ls) Ls heap" and i: "i < length heap" "heap ! i = (d, k)" and k: "k < length Ls"
    and Cons: "Ls ! k = e # es" and sorted: "sorted_by c (e # es)"
  shows "merge_ok c (length (Ls[k := es])) (Ls[k := es]) (remove_at i heap @ [(e, k)])"
proof -
  have dist: "distinct (map snd heap)" using ok by (simp add: merge_ok_def)
  have k': "k < length (Ls[k := []])" using k by simp
  have "merge_ok c (length Ls) (Ls[k := []]) (remove_at i heap)"
    by (rule merge_ok_drop [OF merge_ok_clear [OF ok, of k] i], rule nth_list_update_eq, rule k)
  then have "merge_ok c (max (length Ls) (Suc k)) (Ls[k := [], k := es]) (remove_at i heap @ [(e, k)])"
    by (rule merge_ok_push [OF _ k' remove_at_entry(2) [OF dist i] less_imp_le [OF k] sorted])
  then show ?thesis using k by (simp add: max_absorb1)
qed

lemma merge_emits:
  assumes least: "\<forall>e \<in> fst ` set heap \<union> set (concat Ls). c d e \<noteq> Greater"
    and r: "\<exists>ds. r = Inr ds \<and> mset ds = R \<and> sorted_by c ds" and R: "add_mset d R = mset (map fst heap) + mset (concat Ls)"
  shows "\<exists>ds. res_bind r (\<lambda>ds. Inr (d # ds)) = Inr ds \<and> mset ds = mset (map fst heap) + mset (concat Ls) \<and> sorted_by c ds"
proof -
  obtain ds where ds: "r = Inr ds" "mset ds = R" "sorted_by c ds" using r by blast
  have m: "mset (d # ds) = mset (map fst heap) + mset (concat Ls)" using ds(2) R by simp
  then have "set (d # ds) = fst ` set heap \<union> set (concat Ls)" by (metis set_map set_mset_mset set_mset_union)
  then have "sorted_by c (d # ds)" using ds(3) least by auto
  then show ?thesis using ds(1) m by auto
qed

lemma merge_runs_sorted:
  assumes tp: "total_preorder_on A c" and pops: "heap_pops X" and codec: "codec_ok X"
  shows "list_all2 (run_holds X) runs Ls \<Longrightarrow> merge_ok c (length Ls) Ls heap \<Longrightarrow> fst ` set heap \<union> set (concat Ls) \<subseteq> A \<Longrightarrow>
    \<exists>ds. merge_runs X c runs heap = Inr ds \<and> mset ds = mset (map fst heap) + mset (concat Ls) \<and> sorted_by c ds"
proof (induction "length heap + length (concat Ls)" arbitrary: runs Ls heap rule: less_induct)
  case less
  note runs = less.prems(1) and ok = less.prems(2) and A = less.prems(3)
  show ?case
  proof (cases "heap = []")
    case True
    then have "concat Ls = []" using ok by (auto simp: merge_ok_def in_set_conv_nth)
    then show ?thesis using True by (simp add: merge_runs.simps)
  next
    case False
    obtain i d k where i: "i < length heap" "heap ! i = (d, k)" and k: "k < length Ls" and sd: "sorted_by c (d # Ls ! k)"
      and least: "\<forall>e \<in> fst ` set heap \<union> set (concat Ls). c d e \<noteq> Greater"
      and unfold: "merge_runs X c runs heap = (case read_doc X (runs ! k) of
            Inl e \<Rightarrow> Inl e
          | Inr (None, r) \<Rightarrow> res_bind (merge_runs X c (runs[k := r]) (remove_at i heap)) (\<lambda>ds. Inr (d # ds))
          | Inr (Some e, r) \<Rightarrow> res_bind (merge_runs X c (runs[k := r]) (remove_at i heap @ [(e, k)])) (\<lambda>ds. Inr (d # ds)))"
      by (rule merge_pop [OF tp pops ok A list_all2_lengthD [OF runs] False]) blast
    have hk: "run_holds X (runs ! k) (Ls ! k)" using runs k by (rule list_all2_nthD2)
    have mh: "mset (map fst heap) = add_mset d (mset (map fst (remove_at i heap)))" using mset_remove_at [OF i(1)] i(2) by simp
    have sub: "set (remove_at i heap) \<subseteq> set heap" by (auto simp: remove_at_def dest: in_set_takeD in_set_dropD)
    show ?thesis
    proof (cases "Ls ! k")
      case Nil
      have rec: "merge_runs X c runs heap = res_bind (merge_runs X c runs (remove_at i heap)) (\<lambda>ds. Inr (d # ds))"
        unfolding unfold using hk by (simp add: Nil read_doc_holds_Nil)
      have "\<exists>ds. merge_runs X c runs (remove_at i heap) = Inr ds \<and> mset ds = mset (map fst (remove_at i heap)) + mset (concat Ls) \<and> sorted_by c ds"
        by (rule less.hyps [OF _ runs merge_ok_drop [OF ok i Nil]]) (use length_remove_at [OF i(1)] i(1) sub A in auto)
      then show ?thesis unfolding rec by (rule merge_emits [where c = c and d = d, OF least]) (use mh in simp)
    next
      case (Cons e es)
      then obtain r' where r': "read_doc X (runs ! k) = Inr (Some e, r')" "run_holds X r' es"
        using read_doc_holds_Cons [OF codec] hk by metis
      have runs': "list_all2 (run_holds X) (runs[k := r']) (Ls[k := es])" using runs r'(2) by (rule list_all2_update_cong)
      have ok': "merge_ok c (length (Ls[k := es])) (Ls[k := es]) (remove_at i heap @ [(e, k)])"
        by (rule merge_next [OF ok i k Cons]) (use sd Cons in simp)
      have mc: "mset (concat Ls) = add_mset e (mset (concat (Ls[k := es])))" by (rule mset_concat_update [OF k Cons])
      then have sc: "set (concat Ls) = insert e (set (concat (Ls[k := es])))" by (metis set_mset_add_mset_insert set_mset_mset)
      have lc: "length (concat Ls) = Suc (length (concat (Ls[k := es])))" using arg_cong [OF mc, of size] by simp
      have "\<exists>ds. merge_runs X c (runs[k := r']) (remove_at i heap @ [(e, k)]) = Inr ds \<and>
          mset ds = mset (map fst (remove_at i heap @ [(e, k)])) + mset (concat (Ls[k := es])) \<and> sorted_by c ds"
        by (rule less.hyps [OF _ runs' ok']) (use length_remove_at [OF i(1)] i(1) lc sub A sc in auto)
      then have "\<exists>ds. res_bind (merge_runs X c (runs[k := r']) (remove_at i heap @ [(e, k)])) (\<lambda>ds. Inr (d # ds)) = Inr ds \<and>
          mset ds = mset (map fst heap) + mset (concat Ls) \<and> sorted_by c ds"
        by (rule merge_emits [where c = c and d = d, OF least]) (use mh mc in simp)
      then show ?thesis unfolding unfold r'(1) by simp
    qed
  qed
qed

lemma heap_fill_ok:
  assumes codec: "codec_ok X" and runs: "list_all2 (run_holds X) runs Ls" and ok: "merge_ok c n Ls heap" and n: "n < length Ls"
  shows "\<exists>runs' Ls' heap'. heap_fill X (runs, heap) n = Inr (runs', heap') \<and> list_all2 (run_holds X) runs' Ls' \<and>
    merge_ok c (Suc n) Ls' heap' \<and> mset (map fst heap') + mset (concat Ls') = mset (map fst heap) + mset (concat Ls)"
proof -
  have hn: "run_holds X (runs ! n) (Ls ! n)" using runs n by (rule list_all2_nthD2)
  have fresh: "n \<notin> snd ` set heap" using ok by (auto simp: merge_ok_def)
  show ?thesis
  proof (cases "Ls ! n")
    case Nil
    have "merge_ok c (Suc n) Ls heap" using ok n Nil unfolding merge_ok_def by (auto simp: less_Suc_eq)
    moreover have "heap_fill X (runs, heap) n = Inr (runs, heap)" using hn Nil by (simp add: heap_fill_def read_doc_holds_Nil)
    ultimately show ?thesis using runs by blast
  next
    case (Cons e es)
    then obtain r where r: "read_doc X (runs ! n) = Inr (Some e, r)" "run_holds X r es" using read_doc_holds_Cons [OF codec] hn by metis
    have "sorted_by c (Ls ! n)" using ok n unfolding merge_ok_def by blast
    then have "sorted_by c (e # es)" unfolding Cons .
    then have "merge_ok c (Suc n) (Ls[n := es]) (heap @ [(e, n)])" using merge_ok_push [OF ok n fresh le_refl, of e es] by simp
    moreover have "mset (map fst (heap @ [(e, n)])) + mset (concat (Ls[n := es])) = mset (map fst heap) + mset (concat Ls)"
      using mset_concat_update [OF n Cons] by simp
    moreover have "list_all2 (run_holds X) (runs[n := r]) (Ls[n := es])" using runs r(2) by (rule list_all2_update_cong)
    moreover have "heap_fill X (runs, heap) n = Inr (runs[n := r], heap @ [(e, n)])" using r(1) by (simp add: heap_fill_def)
    ultimately show ?thesis by blast
  qed
qed

lemma heap_filled:
  assumes codec: "codec_ok X" and runs: "list_all2 (run_holds X) runs Ls" and sorted: "\<forall>L \<in> set Ls. sorted_by c L"
  shows "n \<le> length Ls \<Longrightarrow> \<exists>runs' Ls' heap. fold_res (heap_fill X) (runs, []) [0..<n] = Inr (runs', heap) \<and>
    list_all2 (run_holds X) runs' Ls' \<and> merge_ok c n Ls' heap \<and> mset (map fst heap) + mset (concat Ls') = mset (concat Ls) \<and> length Ls' = length Ls"
proof (induction n)
  case 0
  have "merge_ok c 0 Ls []" using sorted by (simp add: merge_ok_def)
  then show ?case using runs by auto
next
  case (Suc n)
  then obtain runs' Ls' heap where IH: "fold_res (heap_fill X) (runs, []) [0..<n] = Inr (runs', heap)"
    "list_all2 (run_holds X) runs' Ls'" "merge_ok c n Ls' heap" "mset (map fst heap) + mset (concat Ls') = mset (concat Ls)" "length Ls' = length Ls"
    by (metis Suc_leD)
  have "n < length Ls'" using Suc.prems IH(5) by simp
  from heap_fill_ok [OF codec IH(2,3) this] obtain runs'' Ls'' heap'' where
    step: "heap_fill X (runs', heap) n = Inr (runs'', heap'')" "list_all2 (run_holds X) runs'' Ls''" "merge_ok c (Suc n) Ls'' heap''"
      "mset (map fst heap'') + mset (concat Ls'') = mset (map fst heap) + mset (concat Ls')" by blast
  moreover have "length runs'' = length runs'" using step(1) by (auto simp: heap_fill_def)
  ultimately show ?case using IH by (auto simp: fold_res_append list_all2_lengthD)
qed

section \<open>Spilling sorted runs\<close>

lemma spill_loop:
  assumes "\<forall>d \<in> set docs. spillable X d" and tp: "total_preorder_on A c" and "set docs \<subseteq> A"
  shows "\<exists>buffer n runs Ls. fold_res (spill_step X c limit) ([], 0, []) (map Inr docs) = Inr (buffer, n, runs) \<and>
    list_all2 (run_holds X) runs Ls \<and> (\<forall>L \<in> set Ls. sorted_by c L) \<and> mset (concat Ls) + mset buffer = mset docs"
  using assms(1,3)
proof (induction docs rule: rev_induct)
  case Nil
  then show ?case by auto
next
  case (snoc d docs)
  then obtain buffer n runs Ls where IH: "fold_res (spill_step X c limit) ([], 0, []) (map Inr docs) = Inr (buffer, n, runs)"
    "list_all2 (run_holds X) runs Ls" "\<forall>L \<in> set Ls. sorted_by c L" "mset (concat Ls) + mset buffer = mset docs" by auto
  have sb: "set (buffer @ [d]) \<subseteq> set (docs @ [d])" using IH(4) by (metis Un_upper2 set_append set_mset_mset set_mset_union Un_mono subset_refl)
  then have "\<forall>d \<in> set (sort_by c (buffer @ [d])). spillable X d" using snoc.prems(1) by (auto simp: set_sort_by)
  then obtain run where run: "write_run X (sort_by c (buffer @ [d])) = Inr run" "run_holds X run (sort_by c (buffer @ [d]))"
    using write_run_holds by blast
  show ?case
  proof (cases "limit \<le> n + estimate_doc_bytes X d")
    case True
    have "set (buffer @ [d]) \<subseteq> A" using sb snoc.prems(2) by blast
    then have "sorted_by c (sort_by c (buffer @ [d]))" by (rule sorted_sort_by [OF tp])
    then have sorted: "\<forall>L \<in> set (Ls @ [sort_by c (buffer @ [d])]). sorted_by c L" using IH(3) by simp
    have holds: "list_all2 (run_holds X) (runs @ [run]) (Ls @ [sort_by c (buffer @ [d])])" using IH(2) run(2) by (simp add: list_all2_appendI)
    have mset: "mset (concat (Ls @ [sort_by c (buffer @ [d])])) + mset [] = mset (docs @ [d])" using IH(4) by simp
    have "fold_res (spill_step X c limit) ([], 0, []) (map Inr (docs @ [d])) = Inr ([], 0, runs @ [run])"
      using IH(1) run(1) True by (simp add: fold_res_append spill_step_def)
    then show ?thesis using holds sorted mset by blast
  next
    case False
    then have "fold_res (spill_step X c limit) ([], 0, []) (map Inr (docs @ [d])) = Inr (buffer @ [d], n + estimate_doc_bytes X d, runs)"
      using IH(1) by (simp add: fold_res_append spill_step_def)
    moreover have "mset (concat Ls) + mset (buffer @ [d]) = mset (docs @ [d])" using IH(4) by simp
    ultimately show ?thesis using IH(2,3) by blast
  qed
qed

lemma heap_pops_sample: "heap_pops sample_externs"
proof -
  have "greatest c h < length h \<and> (\<forall>d \<in> set h. c d (h ! greatest c h) \<noteq> Greater)"
    if tp: "total_preorder_on A c" and "set h \<subseteq> A" "h \<noteq> []" for A c and h :: "doc list"
    using that(2,3)
  proof (induction h)
    case (Cons x xs)
    have x: "x \<in> A" "c x x = Equal" using Cons.prems(1) total_preorder_on_refl [OF tp] by auto
    show ?case
    proof (cases "xs = []")
      case False
      define y where "y = xs ! greatest c xs"
      have IH: "greatest c xs < length xs" "\<forall>d \<in> set xs. c d y \<noteq> Greater" using Cons False by (auto simp: y_def)
      have y: "y \<in> A" using Cons.prems(1) IH(1) by (auto simp: y_def)
      have "c d x \<noteq> Greater" if "c x y \<noteq> Less" "d \<in> set xs" for d
      proof -
        have "c y x \<noteq> Greater" using total_preorder_on_swap [OF tp x(1) y] that(1) by simp
        moreover have "d \<in> A" using that(2) Cons.prems(1) by auto
        ultimately show ?thesis using IH(2) that(2) total_preorder_on_trans [OF tp _ y x(1)] by blast
      qed
      then show ?thesis using False IH x(2) by (auto simp: y_def [symmetric])
    qed (use x in simp)
  qed simp
  then show ?thesis by (simp add: heap_pops_def sample_externs_def)
qed

definition sortable :: "doc \<Rightarrow> doc \<Rightarrow> bool" where
  "sortable sort_doc d \<longleftrightarrow> list_all (\<lambda>(field, _). not_nan (get_value d field)) sort_doc"

lemma cmp_by_sort_fields_preorder:
  "total_preorder_on {d. list_all (\<lambda>(field, _). not_nan (get_value d field)) fs} (cmp_by_sort_fields fs)"
proof (induction fs)
  case Nil
  then show ?case by (simp add: total_preorder_on_def)
next
  case (Cons p fs)
  obtain field dir where p: "p = (field, dir)" by fastforce
  let ?A = "{d. list_all (\<lambda>(field, _). not_nan (get_value d field)) (p # fs)}"
  have rest: "total_preorder_on ?A (cmp_by_sort_fields fs)" by (rule total_preorder_on_subset [OF Cons.IH]) auto
  have "total_preorder_on ?A (\<lambda>a b. compare_bson (get_value a field) (get_value b field))"
    by (rule total_preorder_on_image [OF compare_bson_preorder]) (auto simp: p)
  then have "total_preorder_on ?A (\<lambda>a b. if sint dir < 0 then ord_reverse (compare_bson (get_value a field) (get_value b field))
      else compare_bson (get_value a field) (get_value b field))"
    using total_preorder_on_reverse by (cases "sint dir < 0") fastforce+
  from total_preorder_on_then [OF this rest] show ?case
    by (rule total_preorder_on_cong [THEN iffD1, rotated]) (simp add: p then_cmp_def Let_def split: ordering.split)
qed

lemma external_sort_sorted:
  assumes codec: "codec_ok X" and pops: "heap_pops X" and tp: "total_preorder_on A (cmp_by_sort_fields (sort_fields sort_doc))"
    and A: "set docs \<subseteq> A" and docs: "\<forall>d \<in> set docs. spillable X d"
  shows "\<exists>ds. external_sort X (map Inr docs) (Document sort_doc) memory_limit = Inr ds \<and> mset ds = mset docs \<and>
    sorted_by (cmp_by_sort_fields (sort_fields sort_doc)) ds"
proof -
  define c where "c = cmp_by_sort_fields (sort_fields sort_doc)"
  note tp = tp [folded c_def]
  obtain buffer n runs Ls where loop: "fold_res (spill_step X c memory_limit) ([], 0, []) (map Inr docs) = Inr (buffer, n, runs)"
    "list_all2 (run_holds X) runs Ls" "\<forall>L \<in> set Ls. sorted_by c L" "mset (concat Ls) + mset buffer = mset docs"
    using spill_loop [OF docs tp A] by blast
  have ext: "external_sort X (map Inr docs) (Document sort_doc) memory_limit = (if runs = [] then Inr (sort_by c buffer)
     else res_bind (if buffer = [] then Inr runs else res_bind (write_run X (sort_by c buffer)) (\<lambda>run. Inr (runs @ [run]))) (\<lambda>runs.
       res_bind (fold_res (heap_fill X) (runs, []) [0..<length runs]) (\<lambda>(runs, heap). merge_runs X c runs heap)))"
    by (simp add: external_sort_def stage_doc_def c_def [symmetric] loop(1))
  have sb: "set buffer \<subseteq> set docs" "set buffer \<subseteq> A" using loop(4) A by (metis Un_upper2 set_mset_mset set_mset_union subset_trans)+
  have sorted: "sorted_by c (sort_by c buffer)" by (rule sorted_sort_by [OF tp sb(2)])
  show ?thesis
  proof (cases "runs = []")
    case True
    then have "mset buffer = mset docs" using loop(2,4) by simp
    then show ?thesis unfolding ext c_def [symmetric] using True sorted by simp
  next
    case False
    obtain runs' Ls' where full: "(if buffer = [] then Inr runs else res_bind (write_run X (sort_by c buffer)) (\<lambda>run. Inr (runs @ [run]))) = (Inr runs' :: spill_file list sres)"
      "list_all2 (run_holds X) runs' Ls'" "\<forall>L \<in> set Ls'. sorted_by c L" "mset (concat Ls') = mset docs"
    proof (cases "buffer = []")
      case True
      with loop that [of runs Ls] show thesis by simp
    next
      case False
      obtain run where "write_run X (sort_by c buffer) = Inr run" "run_holds X run (sort_by c buffer)"
        using write_run_holds [of "sort_by c buffer" X] docs sb(1) by auto
      with False loop sorted that [of "runs @ [run]" "Ls @ [sort_by c buffer]"] show thesis by (simp add: list_all2_appendI ball_Un)
    qed
    have len: "length runs' = length Ls'" using full(2) by (rule list_all2_lengthD)
    obtain runs'' Ls'' heap where fill: "fold_res (heap_fill X) (runs', []) [0..<length runs'] = Inr (runs'', heap)"
      "list_all2 (run_holds X) runs'' Ls''" "merge_ok c (length Ls') Ls'' heap" "mset (map fst heap) + mset (concat Ls'') = mset (concat Ls')" "length Ls'' = length Ls'"
      using heap_filled [OF codec full(2,3) le_refl] unfolding len by blast
    have "fst ` set heap \<union> set (concat Ls'') = set docs" using fill(4) full(4) by (metis set_map set_mset_mset set_mset_union)
    then have "fst ` set heap \<union> set (concat Ls'') \<subseteq> A" using A by simp
    from merge_runs_sorted [OF tp pops codec fill(2) _ this] obtain ds where
      "merge_runs X c runs'' heap = Inr ds" "mset ds = mset (map fst heap) + mset (concat Ls'')" "sorted_by c ds"
      using fill(3,5) by auto
    then show ?thesis unfolding ext full(1) c_def [symmetric] using False fill(1,4) full(4) by simp
  qed
qed

text \<open>
  C34. Spilling does not change a sort: for documents that can be written and have no NaN among the sort
  fields, the external sort ends without an error, whatever the memory limit, and returns the documents of
  the stream; position by position they compare as equal to those of the in-memory stage.
\<close>

theorem external_sort_matches:
  assumes codec: "codec_ok X" and pops: "heap_pops X"
    and docs: "\<forall>d \<in> set docs. spillable X d \<and> sortable sort_doc d"
  shows "\<exists>ds es. external_sort X (map Inr docs) (Document sort_doc) memory_limit = Inr ds \<and>
    stage_sort docs (Document sort_doc) = Inr es \<and> mset ds = mset docs \<and> length ds = length es \<and>
    (\<forall>i < length ds. cmp_by_sort_fields (sort_fields sort_doc) (ds ! i) (es ! i) = Equal)"
proof -
  define c where "c = cmp_by_sort_fields (sort_fields sort_doc)"
  define A where "A = {d. list_all (\<lambda>(field, _). not_nan (get_value d field)) (sort_fields sort_doc)}"
  have tp: "total_preorder_on A c" unfolding A_def c_def by (rule cmp_by_sort_fields_preorder)
  have A: "set docs \<subseteq> A" using docs by (auto simp: A_def sortable_def sort_fields_def list_all_iff)
  obtain ds where ds: "external_sort X (map Inr docs) (Document sort_doc) memory_limit = Inr ds" "mset ds = mset docs" "sorted_by c ds"
    using external_sort_sorted [OF codec pops tp [unfolded c_def] A] docs unfolding c_def by blast
  have s: "stage_sort docs (Document sort_doc) = Inr (sort_by c docs)" by (simp add: stage_sort_def stage_doc_def c_def)
  have "set ds \<subseteq> A" using A ds(2) by (metis mset_eq_setD)
  then have "c (ds ! i) (sort_by c docs ! i) = Equal" if "i < length ds" for i
    using sorted_by_unique [OF tp _ ds(3) sorted_sort_by [OF tp A] _ that] ds(2) by simp
  moreover have "length ds = length (sort_by c docs)" using ds(2) by (metis length_sort_by size_mset)
  ultimately show ?thesis using ds s unfolding c_def by blast
qed

abbreviation three_docs :: "doc list" where
  "three_docs \<equiv> [[(''k'', Str ''b'')], [(''k'', Str ''a'')], [(''k'', Str ''b''), (''v'', Null)]]"

lemma table_codec_ok: "codec_ok (table_codec three_docs)"
proof -
  have six: "le_bytes 4 (6 :: 32 word) = [6, 0, 0, 0]" by code_simp
  show ?thesis unfolding codec_ok_def table_codec_def by (auto simp: six enumerate_eq_zip split: if_splits)
qed

lemma table_codec_pops: "heap_pops (table_codec docs)"
  using heap_pops_sample by (simp add: heap_pops_def table_codec_def)

theorem external_sort_matches_witness:
  "\<exists>ds es. external_sort (table_codec three_docs) (map Inr three_docs) (Document [(''k'', Int32 1)]) 12 = Inr ds \<and>
    stage_sort three_docs (Document [(''k'', Int32 1)]) = Inr es \<and> mset ds = mset three_docs \<and>
    cmp_by_sort_fields (sort_fields [(''k'', Int32 1)]) (ds ! 0) (es ! 0) = Equal"
proof -
  have "\<forall>d \<in> set three_docs. spillable (table_codec three_docs) d \<and> sortable [(''k'', Int32 1)] d"
    by (simp add: spillable_def table_codec_def sortable_def) code_simp
  from external_sort_matches [OF table_codec_ok table_codec_pops this, of 12] obtain ds es where
    "external_sort (table_codec three_docs) (map Inr three_docs) (Document [(''k'', Int32 1)]) 12 = Inr ds"
    "stage_sort three_docs (Document [(''k'', Int32 1)]) = Inr es" "mset ds = mset three_docs"
    "\<forall>i < length ds. cmp_by_sort_fields (sort_fields [(''k'', Int32 1)]) (ds ! i) (es ! i) = Equal" by blast
  moreover from this have "length ds = 3" by (metis size_mset length_Cons list.size(3) numeral_3_eq_3)
  ultimately show ?thesis by auto
qed

section \<open>Grouping by partitions\<close>

text \<open>The groups of documents whose keys all evaluate.\<close>

definition group_value :: "externs \<Rightarrow> bson \<Rightarrow> doc \<Rightarrow> bson" where
  "group_value X e d = projr (eval_agg X d e)"

abbreviation group_key :: "externs \<Rightarrow> bson \<Rightarrow> doc \<Rightarrow> string" where
  "group_key X e d \<equiv> bson_to_key_string X (group_value X e d)"

definition group_put :: "externs \<Rightarrow> bson \<Rightarrow> groups \<Rightarrow> doc \<Rightarrow> groups" where
  "group_put X e g d = al_insert (group_key X e d)
     (case map_of g (group_key X e d) of None \<Rightarrow> (group_value X e d, [d]) | Some (first, ds) \<Rightarrow> (first, ds @ [d])) g"

abbreviation groupable :: "externs \<Rightarrow> bson \<Rightarrow> doc \<Rightarrow> bool" where
  "groupable X e d \<equiv> is_ok (eval_agg X d e)"

lemma groupable_value: "groupable X e d \<Longrightarrow> eval_agg X d e = Inr (group_value X e d)"
  by (cases "eval_agg X d e") (simp_all add: group_value_def)

lemma group_fold: "\<forall>d \<in> set docs. groupable X e d \<Longrightarrow> fold_res (group_add X e) g docs = Inr (foldl (group_put X e) g docs)"
  by (induction docs arbitrary: g) (simp_all add: group_add_def group_put_def groupable_value Let_def)

lemma group_fold_groupable: "fold_res (group_add X e) g docs = Inr g' \<Longrightarrow> \<forall>d \<in> set docs. groupable X e d"
  by (induction docs arbitrary: g) (auto simp: group_add_def Let_def)

lemma groups_filter:
  "filter (\<lambda>(k, _). P k) (foldl (group_put X e) g docs) =
   foldl (group_put X e) (filter (\<lambda>(k, _). P k) g) (filter (\<lambda>d. P (group_key X e d)) docs)"
  by (induction docs arbitrary: g) (simp_all add: group_put_def filter_al_insert map_of_filter_key)

lemma groups_distinct: "distinct (map fst g) \<Longrightarrow> distinct (map fst (foldl (group_put X e) g docs))"
  by (induction docs arbitrary: g) (simp_all add: group_put_def)

lemma mset_partitions: "mset (concat (map (\<lambda>p. filter (\<lambda>x. h x = p) xs) [0..<n])) = mset (filter (\<lambda>x. h x < n) xs)"
proof (induction n)
  case (Suc n)
  have "filter_mset (\<lambda>x. h x < n) M + filter_mset (\<lambda>x. h x = n) M = filter_mset (\<lambda>x. h x < Suc n) M" for M
    by (rule multiset_eqI) (auto simp: less_Suc_eq)
  with Suc show ?case by simp
qed simp

lemma hash_entries_mset:
  assumes "distinct (map fst m)" and "mset (x_hash_order X (map fst m)) = mset (map fst m)"
  shows "mset (hash_entries X m) = mset m"
proof -
  have keys: "map_of m k \<noteq> None" if "k \<in> set (x_hash_order X (map fst m))" for k
    using that assms(2) by (metis map_of_eq_None_iff mset_eq_setD set_map)
  have "hash_entries X m = map (\<lambda>k. (k, the (map_of m k))) (x_hash_order X (map fst m))"
    unfolding hash_entries_def by (rule map_filter_total) (rule keys)
  then have "mset (hash_entries X m) = mset (map (\<lambda>k. (k, the (map_of m k))) (map fst m))" using assms(2) by (metis mset_map)
  also have "map (\<lambda>k. (k, the (map_of m k))) (map fst m) = m"
    using assms(1) by (auto intro!: map_idI simp: map_of_is_SomeI)
  finally show ?thesis .
qed

lemma map_res_mset: "map_res f xs = Inr ys \<Longrightarrow> mset ys = image_mset (\<lambda>x. projr (f x)) (mset xs)"
  by (induction xs arbitrary: ys) auto

definition hash_permutes :: "externs \<Rightarrow> bool" where
  "hash_permutes X \<longleftrightarrow> (\<forall>ks. mset (x_hash_order X ks) = mset ks)"

text \<open>The rows of a group stage, from the groups.\<close>

lemma stage_group_rows:
  assumes "hash_permutes X" and "doc_get group_doc ''_id'' = Some e" and "\<forall>d \<in> set docs. groupable X e d"
    and "\<forall>g \<in> set (foldl (group_put X e) [] docs). is_ok (group_result X group_doc g)"
  shows "\<exists>rows. stage_group X docs (Document group_doc) = Inr rows \<and>
    mset rows = image_mset (\<lambda>g. projr (group_result X group_doc g)) (mset (foldl (group_put X e) [] docs))"
proof -
  define gs where "gs = foldl (group_put X e) [] docs"
  have "distinct (map fst gs)" unfolding gs_def by (rule groups_distinct) simp
  then have m: "mset (hash_entries X gs) = mset gs" using assms(1) by (simp add: hash_entries_mset hash_permutes_def)
  have "is_ok (group_result X group_doc g)" if "g \<in> set (hash_entries X gs)" for g
    using that assms(4) m by (metis gs_def mset_eq_setD)
  note total = map_res_total [of "hash_entries X gs" "group_result X group_doc", OF this]
  have "stage_group X docs (Document group_doc) = Inr (map (\<lambda>g. projr (group_result X group_doc g)) (hash_entries X gs))"
    using assms(2) by (simp add: stage_group_def stage_doc_def required_def group_fold [OF assms(3)] gs_def [symmetric] total)
  then show ?thesis using m by (simp add: gs_def)
qed

lemma hash_group_key_bound: "hash_group_key k < 64"
  by (simp add: hash_group_key_def)

definition partitions :: "externs \<Rightarrow> bson \<Rightarrow> doc list \<Rightarrow> doc list list" where
  "partitions X e docs = map (\<lambda>p. filter (\<lambda>d. hash_group_key (group_key X e d) = p) docs) [0..<64]"

lemma partition_doc_holds:
  assumes "list_all2 (run_holds X) ws (partitions X e docs)" and "groupable X e d" and "spillable X d"
  shows "\<exists>ws'. partition_doc X e ws d = Inr ws' \<and> list_all2 (run_holds X) ws' (partitions X e (docs @ [d]))"
proof -
  define p where "p = hash_group_key (group_key X e d)"
  have p: "p < 64" unfolding p_def by (rule hash_group_key_bound)
  have "run_holds X (ws ! p) (partitions X e docs ! p)" by (rule list_all2_nthD2 [OF assms(1)]) (simp add: partitions_def p)
  from write_doc_holds [OF this assms(3)] obtain w where
    w: "write_doc X (ws ! p) d = Inr w" "run_holds X w (partitions X e docs ! p @ [d])" by blast
  have "partitions X e (docs @ [d]) = (partitions X e docs)[p := partitions X e docs ! p @ [d]]"
    by (rule nth_equalityI) (auto simp: partitions_def nth_list_update p p_def)
  then have "list_all2 (run_holds X) (ws[p := w]) (partitions X e (docs @ [d]))"
    using list_all2_update_cong [OF assms(1) w(2)] by simp
  then show ?thesis using w(1) by (simp add: partition_doc_def groupable_value [OF assms(2)] Let_def p_def)
qed

lemma partition_docs_hold:
  "list_all2 (run_holds X) ws (partitions X e docs) \<Longrightarrow> \<forall>d \<in> set ds. groupable X e d \<and> spillable X d \<Longrightarrow>
    \<exists>ws'. fold_res (partition_doc X e) ws ds = Inr ws' \<and> list_all2 (run_holds X) ws' (partitions X e (docs @ ds))"
proof (induction ds arbitrary: ws docs)
  case (Cons d ds)
  obtain ws' where "partition_doc X e ws d = Inr ws'" "list_all2 (run_holds X) ws' (partitions X e (docs @ [d]))"
    using partition_doc_holds [OF Cons.prems(1)] Cons.prems(2) by auto
  then show ?case using Cons.IH [of ws' "docs @ [d]"] Cons.prems(2) by simp
qed simp

lemma partitions_empty: "list_all2 (run_holds X) (replicate 64 ([], 0)) (partitions X e [])"
  by (simp add: partitions_def list_all2_conv_all_nth run_holds_empty)

lemma group_spill_loop:
  "\<forall>d \<in> set docs. groupable X e d \<and> spillable X d \<Longrightarrow>
    (\<exists>n. fold_res (group_spill_step X e limit) ([], 0, None) (map Inr docs) = Inr (docs, n, None)) \<or>
    (\<exists>n ws. fold_res (group_spill_step X e limit) ([], 0, None) (map Inr docs) = Inr ([], n, Some ws) \<and> list_all2 (run_holds X) ws (partitions X e docs))"
proof (induction docs rule: rev_induct)
  case (snoc d docs)
  have d: "\<forall>d \<in> set (docs @ [d]). groupable X e d \<and> spillable X d" using snoc.prems by simp
  then consider (mem) n where "fold_res (group_spill_step X e limit) ([], 0, None) (map Inr docs) = Inr (docs, n, None)"
    | (disk) n ws where "fold_res (group_spill_step X e limit) ([], 0, None) (map Inr docs) = Inr ([], n, Some ws)" "list_all2 (run_holds X) ws (partitions X e docs)"
    using snoc.IH by auto
  then show ?case
  proof cases
    case mem
    obtain ws where "fold_res (partition_doc X e) (replicate 64 ([], 0)) (docs @ [d]) = Inr ws" "list_all2 (run_holds X) ws (partitions X e (docs @ [d]))"
      using partition_docs_hold [OF partitions_empty d] by auto
    moreover from this have "fold_res (group_spill_step X e limit) ([], 0, None) (map Inr (docs @ [d])) =
        (if limit \<le> n + estimate_doc_bytes X d then Inr ([], n + estimate_doc_bytes X d, Some ws) else Inr (docs @ [d], n + estimate_doc_bytes X d, None))"
      using mem by (simp add: fold_res_append group_spill_step_def)
    ultimately show ?thesis by auto
  next
    case disk
    obtain ws' where "partition_doc X e ws d = Inr ws'" "list_all2 (run_holds X) ws' (partitions X e (docs @ [d]))"
      using partition_doc_holds [OF disk(2)] d by auto
    moreover from this have "fold_res (group_spill_step X e limit) ([], 0, None) (map Inr (docs @ [d])) = Inr ([], n, Some ws')"
      using disk(1) by (simp add: fold_res_append group_spill_step_def)
    ultimately show ?thesis by blast
  qed
qed simp

lemma group_partition_rows:
  assumes "codec_ok X" "hash_permutes X" "doc_get group_doc ''_id'' = Some e" and holds: "run_holds X w docs"
    and "\<forall>d \<in> set docs. groupable X e d" and "\<forall>g \<in> set (foldl (group_put X e) [] docs). is_ok (group_result X group_doc g)"
  shows "\<exists>rows. group_partition X (Document group_doc) w = Inr rows \<and>
    mset rows = image_mset (\<lambda>g. projr (group_result X group_doc g)) (mset (foldl (group_put X e) [] docs))"
proof (cases "docs = []")
  case True
  then show ?thesis using holds by (simp add: group_partition_def run_holds_def)
next
  case False
  then have "snd w \<noteq> 0" using holds by (simp add: run_holds_def)
  then show ?thesis using stage_group_rows [OF assms(2,3,5,6)] by (simp add: group_partition_def read_all_holds [OF assms(1) holds])
qed

lemma map_res_concat:
  assumes "list_all2 R xs ys" and "\<And>x y. y \<in> set ys \<Longrightarrow> R x y \<Longrightarrow> \<exists>r. f x = Inr r \<and> mset r = g y"
  shows "\<exists>rs. map_res f xs = Inr rs \<and> mset (concat rs) = (\<Sum>y \<leftarrow> ys. g y)"
  using assms
proof (induction xs ys rule: list_all2_induct)
  case (Cons x xs y ys)
  obtain r where "f x = Inr r" "mset r = g y" using Cons.prems [of y x] Cons.hyps(1) by auto
  moreover obtain rs where "map_res f xs = Inr rs" "mset (concat rs) = (\<Sum>y \<leftarrow> ys. g y)" using Cons.IH Cons.prems by auto
  ultimately show ?case by simp
qed simp

lemma groups_of_partitions:
  "(\<Sum>D \<leftarrow> partitions X e docs. image_mset F (mset (foldl (group_put X e) [] D))) = image_mset F (mset (foldl (group_put X e) [] docs))"
proof -
  define gs where "gs = foldl (group_put X e) [] docs"
  have part: "foldl (group_put X e) [] (filter (\<lambda>d. hash_group_key (group_key X e d) = p) docs) = filter (\<lambda>g. hash_group_key (fst g) = p) gs" for p
    using groups_filter [of "\<lambda>k. hash_group_key k = p" X e "[]" docs] unfolding gs_def case_prod_beta by simp
  have "mset (concat (map (\<lambda>p. filter (\<lambda>g. hash_group_key (fst g) = p) gs) [0..<64])) = mset (filter (\<lambda>g. hash_group_key (fst g) < 64) gs)"
    by (rule mset_partitions)
  also have "filter (\<lambda>g. hash_group_key (fst g) < 64) gs = gs" by (simp add: hash_group_key_bound filter_id_conv)
  finally have "(\<Sum>p \<leftarrow> [0..<64]. mset (filter (\<lambda>g. hash_group_key (fst g) = p) gs)) = mset gs" by (simp add: mset_concat comp_def del: upt_rec_numeral)
  then have "image_mset F (\<Sum>p \<leftarrow> [0..<64]. mset (filter (\<lambda>g. hash_group_key (fst g) = p) gs)) = image_mset F (mset gs)" by simp
  moreover have "image_mset F (\<Sum>p \<leftarrow> ps. mset (filter (\<lambda>g. hash_group_key (fst g) = p) gs)) =
      (\<Sum>p \<leftarrow> ps. image_mset F (mset (filter (\<lambda>g. hash_group_key (fst g) = p) gs)))" for ps
    by (induction ps) simp_all
  ultimately show ?thesis by (simp add: partitions_def comp_def part gs_def [symmetric] del: upt_rec_numeral mset_filter)
qed

text \<open>
  C35. Spilling does not change a grouping: when the in-memory stage returns rows for documents that can be
  written, the external grouping ends without an error, whatever the memory limit, and returns the same rows
  up to their order, which the hash maps decide in both cases.
\<close>

theorem external_group_matches:
  assumes codec: "codec_ok X" and perm: "hash_permutes X" and docs: "\<forall>d \<in> set docs. spillable X d"
    and stage: "stage_group X docs (Document group_doc) = Inr rows"
  shows "\<exists>rows'. external_group X (map Inr docs) (Document group_doc) memory_limit = Inr rows' \<and> mset rows' = mset rows"
proof -
  obtain e gs where e: "doc_get group_doc ''_id'' = Some e" and fold: "fold_res (group_add X e) [] docs = Inr gs"
    and rows: "map_res (group_result X group_doc) (hash_entries X gs) = Inr rows"
    using stage by (auto simp: stage_group_def stage_doc_def required_def)
  have ok: "\<forall>d \<in> set docs. groupable X e d" by (rule group_fold_groupable [OF fold])
  have gs: "gs = foldl (group_put X e) [] docs" using fold group_fold [OF ok, of "[]"] by simp
  have "distinct (map fst gs)" unfolding gs by (rule groups_distinct) simp
  then have m: "mset (hash_entries X gs) = mset gs" using perm by (simp add: hash_entries_mset hash_permutes_def)
  have mrows: "mset rows = image_mset (\<lambda>g. projr (group_result X group_doc g)) (mset gs)" using map_res_mset [OF rows] m by simp
  have oks: "\<forall>g \<in> set gs. is_ok (group_result X group_doc g)" using map_res_ok [OF rows] m by (metis mset_eq_setD)
  have ext: "external_group X (map Inr docs) (Document group_doc) memory_limit =
      res_bind (fold_res (group_spill_step X e memory_limit) ([], 0, None) (map Inr docs)) (\<lambda>(buffer, _, writers). case writers of
         None \<Rightarrow> stage_group X buffer (Document group_doc)
       | Some writers \<Rightarrow> res_bind (map_res (group_partition X (Document group_doc)) writers) (\<lambda>rows. Inr (concat rows)))"
    using e by (simp add: external_group_def stage_doc_def required_def)
  consider (mem) n where "fold_res (group_spill_step X e memory_limit) ([], 0, None) (map Inr docs) = Inr (docs, n, None)"
    | (disk) n ws where "fold_res (group_spill_step X e memory_limit) ([], 0, None) (map Inr docs) = Inr ([], n, Some ws)" "list_all2 (run_holds X) ws (partitions X e docs)"
    using group_spill_loop [of docs X e memory_limit] ok docs by blast
  then show ?thesis
  proof cases
    case mem
    then show ?thesis unfolding ext using stage by simp
  next
    case disk
    have "\<exists>r. group_partition X (Document group_doc) w = Inr r \<and> mset r = image_mset (\<lambda>g. projr (group_result X group_doc g)) (mset (foldl (group_put X e) [] D))"
      if D: "D \<in> set (partitions X e docs)" "run_holds X w D" for w D
    proof -
      obtain p where p: "D = filter (\<lambda>d. hash_group_key (group_key X e d) = p) docs" using D(1) by (auto simp: partitions_def)
      have "foldl (group_put X e) [] D = filter (\<lambda>(k, _). hash_group_key k = p) gs"
        unfolding p gs using groups_filter [of "\<lambda>k. hash_group_key k = p" X e "[]" docs] by simp
      then show ?thesis using oks ok by (intro group_partition_rows [OF codec perm e D(2)]) (auto simp: p)
    qed
    from map_res_concat [where f = "group_partition X (Document group_doc)" and g = "\<lambda>D. image_mset (\<lambda>g. projr (group_result X group_doc g)) (mset (foldl (group_put X e) [] D))",
        OF disk(2) this] obtain rs where
      "map_res (group_partition X (Document group_doc)) ws = Inr rs"
      "mset (concat rs) = (\<Sum>D \<leftarrow> partitions X e docs. image_mset (\<lambda>g. projr (group_result X group_doc g)) (mset (foldl (group_put X e) [] D)))" by blast
    then show ?thesis unfolding ext using disk(1) mrows by (simp add: groups_of_partitions gs)
  qed
qed

theorem external_group_matches_witness:
  "\<exists>rows'. external_group (table_codec three_docs) (map Inr three_docs) (Document [(''_id'', Str ''$k''), (''n'', Document [(''$count'', Null)])]) 12 = Inr rows' \<and>
     mset rows' = mset [[(''_id'', Str ''b''), (''n'', Int32 2)], [(''_id'', Str ''a''), (''n'', Int32 1)]]"
proof -
  have perm: "hash_permutes (table_codec three_docs)" by (simp add: hash_permutes_def table_codec_def sample_externs_def)
  have spill: "\<forall>d \<in> set three_docs. spillable (table_codec three_docs) d" by (simp add: spillable_def table_codec_def)
  have "evaluate_leaf [(''k'', Str ''b'')] (Str ''$k'') = Str ''b''" "evaluate_leaf [(''k'', Str ''a'')] (Str ''$k'') = Str ''a''"
    "evaluate_leaf [(''k'', Str ''b''), (''v'', Null)] (Str ''$k'') = Str ''b''" by code_simp+
  then have "stage_group (table_codec three_docs) three_docs (Document [(''_id'', Str ''$k''), (''n'', Document [(''$count'', Null)])]) =
      Inr [[(''_id'', Str ''b''), (''n'', Int32 2)], [(''_id'', Str ''a''), (''n'', Int32 1)]]"
    by (simp add: stage_group_def stage_doc_def required_def group_add_def evaluate_expression.simps bson_to_key_string_def hash_entries_def
      table_codec_def sample_externs_def group_result_def accumulate_def evaluate_accumulator_def len_i32_def List.map_filter_simps)
  then show ?thesis by (rule external_group_matches [OF table_codec_ok perm spill])
qed

end
