(* ===== verification/Joins.thy ===== *)
theory Joins
  imports Stages
begin

text \<open>
  The stages of \<^verbatim>\<open>aggregation/stages.rs\<close> that read other collections or run sub-pipelines: \<^verbatim>\<open>$lookup\<close> (a hash join, or
  a sub-pipeline with variables), \<^verbatim>\<open>$graphLookup\<close> (a breadth-first search), \<^verbatim>\<open>$facet\<close>, \<^verbatim>\<open>$unionWith\<close>, and the arguments
  of \<^verbatim>\<open>$out\<close> and \<^verbatim>\<open>$merge\<close>.  The resolver of collections and the function that runs a sub-pipeline are
  arguments.  Shown here: the hash join is the nested-loop join, and the search ends and finds exactly the
  reachable documents, each once.
\<close>

type_synonym resolver = "string \<Rightarrow> doc list sres"
type_synonym runner = "doc list \<Rightarrow> doc list \<Rightarrow> doc list sres"

definition canonical_bson_key :: "externs \<Rightarrow> bson option \<Rightarrow> bytes" where
  "canonical_bson_key X v = (case v of Some v \<Rightarrow> opt_or [] (x_to_vec X [([], v)]) | None \<Rightarrow> [])"

definition needs_resolver :: "string \<Rightarrow> resolver option \<Rightarrow> resolver sres" where
  "needs_resolver name R = ok_or (Agg (AggOther (name @ '' requires a CollectionResolver''))) R"

section \<open>\<^verbatim>\<open>$lookup\<close>\<close>

function substitute_var :: "string \<Rightarrow> bson \<Rightarrow> bson \<Rightarrow> bson" where
  "substitute_var name v e = (case e of
     Str s \<Rightarrow>
       if s = ''$$'' @ name then v
       else if starts_with s (''$$'' @ name @ ''.'') then
         (case as_document v of Some d \<Rightarrow> opt_or Null (get_value d (drop (length name + 3) s)) | None \<Rightarrow> Null)
       else e
   | Document d \<Rightarrow> Document (doc_extend [] (map (\<lambda>(k, w). (k, substitute_var name v w)) d))
   | Array arr \<Rightarrow> Array (map (substitute_var name v) arr)
   | _ \<Rightarrow> e)"
  by pat_completeness auto
termination
  by (relation "measure (\<lambda>(name, v, e). bson_nodes e)")
    (auto simp del: bson_nodes.simps dest!: bson_nodes_field bson_nodes_item)

declare substitute_var.simps [simp del]

definition lookup_stages :: "bson list \<Rightarrow> doc list" where
  "lookup_stages arr = List.map_filter as_document arr"

definition bind_stage :: "(string \<times> bson) list \<Rightarrow> doc \<Rightarrow> doc" where
  "bind_stage bound stage =
     opt_or [] (as_document (foldl (\<lambda>s (name, v). substitute_var name v s) (Document stage) bound))"

definition lookup_bound :: "externs \<Rightarrow> doc \<Rightarrow> doc \<Rightarrow> (string \<times> bson) list sres" where
  "lookup_bound X vars d = map_res (\<lambda>(name, e). res_bind (eval_agg X d e) (\<lambda>v. Inr (name, v))) vars"

definition stage_lookup_pipeline :: "externs \<Rightarrow> runner \<Rightarrow> doc list \<Rightarrow> doc \<Rightarrow> resolver option \<Rightarrow> doc list sres" where
  "stage_lookup_pipeline X run docs lookup_doc R =
     res_bind (required ''$lookup.from required'' (get_str lookup_doc ''from'')) (\<lambda>frm.
     res_bind (required ''$lookup.as required'' (get_str lookup_doc ''as'')) (\<lambda>as_field.
     res_bind (required ''$lookup.pipeline required'' (get_arr lookup_doc ''pipeline'')) (\<lambda>pipeline_bson.
     res_bind (needs_resolver ''$lookup'' R) (\<lambda>resolve.
     let sub_pipeline = lookup_stages pipeline_bson in
     res_bind (resolve frm) (\<lambda>foreign_docs.
     let attach = (\<lambda>d matched. doc_insert as_field (Array (map Document matched)) d) in
     case get_doc lookup_doc ''let'' of
       None \<Rightarrow> res_bind (run foreign_docs sub_pipeline) (\<lambda>matched. Inr (map (\<lambda>d. attach d matched) docs))
     | Some vars \<Rightarrow> map_res (\<lambda>d.
         res_bind (lookup_bound X vars d) (\<lambda>bound.
         res_bind (run foreign_docs (map (bind_stage bound) sub_pipeline)) (\<lambda>matched. Inr (attach d matched)))) docs)))))"

definition foreign_map :: "externs \<Rightarrow> string \<Rightarrow> doc list \<Rightarrow> (bytes \<times> doc list) list" where
  "foreign_map X foreign_field foreign_docs =
     foldl (\<lambda>m f. al_push (canonical_bson_key X (get_value f foreign_field)) f m) [] foreign_docs"

definition stage_lookup :: "externs \<Rightarrow> runner \<Rightarrow> doc list \<Rightarrow> bson \<Rightarrow> resolver option \<Rightarrow> doc list sres" where
  "stage_lookup X run docs spec R =
     res_bind (stage_doc ''$lookup'' spec) (\<lambda>lookup_doc.
     if get_arr lookup_doc ''pipeline'' \<noteq> None then stage_lookup_pipeline X run docs lookup_doc R
     else
       res_bind (required ''$lookup.from required'' (get_str lookup_doc ''from'')) (\<lambda>frm.
       res_bind (required ''$lookup.localField required'' (get_str lookup_doc ''localField'')) (\<lambda>local_field.
       res_bind (required ''$lookup.foreignField required'' (get_str lookup_doc ''foreignField'')) (\<lambda>foreign_field.
       res_bind (required ''$lookup.as required'' (get_str lookup_doc ''as'')) (\<lambda>as_field.
       res_bind (needs_resolver ''$lookup'' R) (\<lambda>resolve.
       res_bind (resolve frm) (\<lambda>foreign_docs.
       let m = foreign_map X foreign_field foreign_docs in
       Inr (map (\<lambda>d.
         let matches = opt_or [] (map_of m (canonical_bson_key X (get_value d local_field))) in
         doc_insert as_field (Array (map Document matches)) d) docs))))))))"

section \<open>\<^verbatim>\<open>$graphLookup\<close>\<close>

record graph_args =
  ga_connect_from :: string
  ga_max_depth :: "int option"
  ga_depth_field :: "string option"
  ga_restrict :: "doc option"

fun as_int :: "bson \<Rightarrow> int option" where
  "as_int (Int64 n) = Some (sint n)"
| "as_int (Int32 n) = Some (sint n)"
| "as_int _ = None"

definition spread :: "bson option \<Rightarrow> bson list" where
  "spread v = (case v of None \<Rightarrow> [] | Some (Array arr) \<Rightarrow> arr | Some w \<Rightarrow> [w])"

definition connect_index :: "externs \<Rightarrow> string \<Rightarrow> doc list \<Rightarrow> (bytes \<times> doc list) list" where
  "connect_index X connect_to foreign_docs =
     foldl (\<lambda>m (k, f). al_push k f m) []
       (concat (map (\<lambda>f. map (\<lambda>v. (canonical_bson_key X (Some v), f)) (spread (get_value f connect_to))) foreign_docs))"

type_synonym graph_state = "bytes list \<times> (bson \<times> int) list \<times> doc list"

definition graph_visit :: "externs \<Rightarrow> graph_args \<Rightarrow> int \<Rightarrow> graph_state \<Rightarrow> doc \<Rightarrow> graph_state sres" where
  "graph_visit X g depth s fdoc = (case s of (visited, queue, found) \<Rightarrow>
     res_bind (case ga_restrict g of Some q \<Rightarrow> query_or_false (eval_query X fdoc q) | None \<Rightarrow> Inr True) (\<lambda>ok.
     let fdoc_key = canonical_bson_key X (Some (Document fdoc)) in
     Inr (if \<not> ok \<or> fdoc_key \<in> set visited then s
      else (let visited' = fdoc_key # visited;
                found_doc = (case ga_depth_field g of Some df \<Rightarrow> doc_insert df (i64 depth) fdoc | None \<Rightarrow> fdoc);
                next_vals = filter (\<lambda>v. canonical_bson_key X (Some v) \<notin> set visited') (spread (get_value fdoc (ga_connect_from g)))
            in (visited', queue @ map (\<lambda>v. (v, depth + 1)) next_vals, found @ [found_doc])))))"

text \<open>What is left to visit decreases, or nothing changes.\<close>

definition unvisited :: "externs \<Rightarrow> (bytes \<times> doc list) list \<Rightarrow> bytes list \<Rightarrow> nat" where
  "unvisited X index visited =
     card ((\<lambda>f. canonical_bson_key X (Some (Document f))) ` (\<Union>(k, fs) \<in> set index. set fs) - set visited)"

lemma graph_visits_progress:
  assumes "fold_res (graph_visit X g depth) (visited, queue, found) fs = Inr (visited', queue', found')"
    and "\<exists>k. (k, gs) \<in> set index" and "set fs \<subseteq> set gs"
  shows "unvisited X index visited' < unvisited X index visited \<or> visited' = visited \<and> queue' = queue"
  using assms(1,3)
proof (induction fs arbitrary: visited queue found)
  case (Cons f fs)
  let ?k = "canonical_bson_key X (Some (Document f))"
  from Cons.prems(1) obtain s where s: "graph_visit X g depth (visited, queue, found) f = Inr s"
    "fold_res (graph_visit X g depth) s fs = Inr (visited', queue', found')" by auto
  obtain v q h where vqh: "s = (v, q, h)" by (cases s)
  have IH: "unvisited X index visited' < unvisited X index v \<or> visited' = v \<and> queue' = q"
    using Cons.IH [of v q h] s(2) Cons.prems(2) by (simp add: vqh)
  show ?case
  proof (cases "s = (visited, queue, found)")
    case True
    then show ?thesis using IH by (simp add: vqh)
  next
    case False
    then have v: "v = ?k # visited" "?k \<notin> set visited"
      using s(1) by (auto simp: graph_visit_def Let_def vqh split: if_splits)
    have "f \<in> (\<Union>(k, fs) \<in> set index. set fs)" using assms(2) Cons.prems(2) by force
    then have "unvisited X index v < unvisited X index visited"
      unfolding unvisited_def v(1) using v(2) by (intro psubset_card_mono) auto
    then show ?thesis using IH by auto
  qed
qed simp

function graph_search :: "externs \<Rightarrow> graph_args \<Rightarrow> (bytes \<times> doc list) list \<Rightarrow> bytes list \<Rightarrow> (bson \<times> int) list \<Rightarrow> doc list \<Rightarrow> doc list sres" where
  "graph_search X g index visited [] found = Inr found"
| "graph_search X g index visited ((current, depth) # queue) found =
     (if (case ga_max_depth g of Some md \<Rightarrow> md < depth | None \<Rightarrow> False) then graph_search X g index visited queue found
      else case map_of index (canonical_bson_key X (Some current)) of
        None \<Rightarrow> graph_search X g index visited queue found
      | Some candidates \<Rightarrow>
          res_bind (fold_res (graph_visit X g depth) (visited, queue, found) candidates) (\<lambda>(visited, queue, found).
          graph_search X g index visited queue found))"
  by pat_completeness auto
termination
proof (relation "measures [\<lambda>(X, g, index, visited, queue, found). unvisited X index visited, \<lambda>(X, g, index, visited, queue, found). length queue]",
    goal_cases)
  case (4 X g index visited current depth queue found candidates s visited' p queue' found')
  then show ?case using graph_visits_progress [of X g depth visited queue found candidates visited' queue' found' candidates index]
    by (auto dest: map_of_SomeD)
qed auto

definition graph_start :: "externs \<Rightarrow> bson list \<Rightarrow> bytes list \<times> (bson \<times> int) list" where
  "graph_start X vals = foldl (\<lambda>(visited, queue) v.
     let k = canonical_bson_key X (Some v) in
     if k \<in> set visited then (visited, queue) else (k # visited, queue @ [(v, 0)])) ([], []) vals"

definition graph_lookup_doc :: "externs \<Rightarrow> graph_args \<Rightarrow> (bytes \<times> doc list) list \<Rightarrow> bson \<Rightarrow> doc \<Rightarrow> doc list sres" where
  "graph_lookup_doc X g index start_with d =
     res_bind (eval_agg X d start_with) (\<lambda>start_val.
     case graph_start X (spread (Some start_val)) of (visited, queue) \<Rightarrow> graph_search X g index visited queue [])"

definition stage_graph_lookup :: "externs \<Rightarrow> doc list \<Rightarrow> bson \<Rightarrow> resolver option \<Rightarrow> doc list sres" where
  "stage_graph_lookup X docs spec R =
     res_bind (stage_doc ''$graphLookup'' spec) (\<lambda>gl_doc.
     res_bind (required ''from required'' (get_str gl_doc ''from'')) (\<lambda>frm.
     res_bind (required ''startWith required'' (doc_get gl_doc ''startWith'')) (\<lambda>start_with.
     res_bind (required ''connectFromField required'' (get_str gl_doc ''connectFromField'')) (\<lambda>connect_from.
     res_bind (required ''connectToField required'' (get_str gl_doc ''connectToField'')) (\<lambda>connect_to.
     res_bind (required ''as required'' (get_str gl_doc ''as'')) (\<lambda>as_field.
     let g = \<lparr>ga_connect_from = connect_from, ga_max_depth = Option.bind (doc_get gl_doc ''maxDepth'') as_int,
              ga_depth_field = get_str gl_doc ''depthField'', ga_restrict = get_doc gl_doc ''restrictSearchWithMatch''\<rparr> in
     res_bind (needs_resolver ''$graphLookup'' R) (\<lambda>resolve.
     res_bind (resolve frm) (\<lambda>foreign_docs.
     map_res (\<lambda>d. res_bind (graph_lookup_doc X g (connect_index X connect_to foreign_docs) start_with d) (\<lambda>found.
       Inr (doc_insert as_field (Array (map Document found)) d))) docs))))))))"

section \<open>\<^verbatim>\<open>$facet\<close>, \<^verbatim>\<open>$unionWith\<close>, \<^verbatim>\<open>$out\<close>, \<^verbatim>\<open>$merge\<close>\<close>

definition stage_facet :: "runner \<Rightarrow> doc list \<Rightarrow> bson \<Rightarrow> doc list sres" where
  "stage_facet run docs spec =
     res_bind (stage_doc ''$facet'' spec) (\<lambda>facet_doc.
     res_bind (fold_res (\<lambda>result (name, pipeline_bson).
         res_bind (ok_or (Agg (InvalidStage (''$facet.'' @ name @ '' must be an array''))) (as_array_opt pipeline_bson)) (\<lambda>arr.
         res_bind (run docs (lookup_stages arr)) (\<lambda>rows.
         Inr (doc_insert name (Array (map Document rows)) result)))) [] facet_doc) (\<lambda>result.
     Inr [result]))"

definition stage_union_with :: "runner \<Rightarrow> doc list \<Rightarrow> bson \<Rightarrow> resolver option \<Rightarrow> doc list sres" where
  "stage_union_with run docs spec R =
     res_bind (needs_resolver ''$unionWith'' R) (\<lambda>resolve.
     res_bind (case spec of
         Str name \<Rightarrow> Inr (name, [])
       | Document d \<Rightarrow>
           res_bind (required ''$unionWith.coll required'' (get_str d ''coll'')) (\<lambda>name.
           Inr (name, lookup_stages (opt_or [] (get_arr d ''pipeline''))))
       | _ \<Rightarrow> Inl (Agg (InvalidStage ''$unionWith requires string or document''))) (\<lambda>(coll_name, sub_pipeline).
     res_bind (resolve coll_name) (\<lambda>foreign_docs.
     res_bind (if sub_pipeline = [] then Inr foreign_docs else run foreign_docs sub_pipeline) (\<lambda>foreign_docs.
     Inr (docs @ foreign_docs)))))"

definition out_target :: "bson \<Rightarrow> string sres" where
  "out_target spec =
     res_bind (case spec of
         Str name \<Rightarrow> Inr name
       | Document d \<Rightarrow> Inr (case get_str d ''coll'' of Some c \<Rightarrow> c | None \<Rightarrow> opt_or [] (get_str d ''db''))
       | _ \<Rightarrow> Inl (Agg (InvalidStage ''$out requires string or document''))) (\<lambda>target.
     if target = [] then Inl (Agg (MissingField ''$out target collection required'')) else Inr target)"

definition execute_out :: "(string \<Rightarrow> doc list \<Rightarrow> 'r sres) \<Rightarrow> bson \<Rightarrow> doc list \<Rightarrow> 'r sres" where
  "execute_out drop_and_insert spec docs = res_bind (out_target spec) (\<lambda>target. drop_and_insert target docs)"

definition merge_target :: "bson \<Rightarrow> string" where
  "merge_target into = (case into of Str s \<Rightarrow> s | Document d \<Rightarrow> opt_or [] (get_str d ''coll'') | _ \<Rightarrow> [])"

definition merge_on :: "bson option \<Rightarrow> string list" where
  "merge_on v = (case v of Some (Str s) \<Rightarrow> [s] | Some (Array arr) \<Rightarrow> List.map_filter as_str arr | _ \<Rightarrow> [''_id''])"

definition execute_merge :: "(string \<Rightarrow> string list \<Rightarrow> doc list \<Rightarrow> string \<Rightarrow> 'r sres) \<Rightarrow> bson \<Rightarrow> doc list \<Rightarrow> 'r sres" where
  "execute_merge upsert spec docs =
     res_bind (stage_doc ''$merge'' spec) (\<lambda>merge_doc.
     res_bind (required ''$merge.into required'' (doc_get merge_doc ''into'')) (\<lambda>into.
     if merge_target into = [] then Inl (Agg (MissingField ''$merge target collection required''))
     else upsert (merge_target into) (merge_on (doc_get merge_doc ''on'')) docs
       (opt_or ''replace'' (get_str merge_doc ''whenMatched''))))"

section \<open>The hash join is the nested-loop join\<close>

text \<open>A value that the serialiser writes and reads back.\<close>

definition encodable :: "externs \<Rightarrow> bson \<Rightarrow> bool" where
  "encodable X v \<longleftrightarrow> (case x_to_vec X [([], v)] of Some b \<Rightarrow> b \<noteq> [] \<and> x_from_reader X b = Some [([], v)] | None \<Rightarrow> False)"

lemma canonical_key_eq:
  assumes "\<And>u. v = Some u \<Longrightarrow> encodable X u" and "\<And>u. w = Some u \<Longrightarrow> encodable X u"
  shows "canonical_bson_key X v = canonical_bson_key X w \<longleftrightarrow> v = w"
  using assms by (cases v; cases w) (auto simp: canonical_bson_key_def encodable_def split: option.splits)

lemma foreign_map_lookup:
  "opt_or [] (map_of (foreign_map X ff foreign) k) = filter (\<lambda>f. canonical_bson_key X (get_value f ff) = k) foreign"
proof -
  let ?key = "\<lambda>f. canonical_bson_key X (get_value f ff)"
  have "foreign_map X ff foreign = foldl (\<lambda>m (k, f). al_push k f m) [] (map (\<lambda>f. (?key f, f)) foreign)"
    by (simp add: foreign_map_def foldl_map)
  then show ?thesis by (simp add: foldl_al_push filter_map comp_def)
qed

text \<open>
  C32. \<^verbatim>\<open>$lookup\<close> with fields, which builds a hash table of the foreign collection, attaches to every document
  exactly the foreign documents whose foreign field equals its local field, in their order (a missing field
  equals a missing field, an array only the same array).
\<close>

theorem lookup_is_join:
  assumes "resolve frm = Inr foreign"
    and "\<And>d v. d \<in> set docs \<Longrightarrow> get_value d lf = Some v \<Longrightarrow> encodable X v"
    and "\<And>f v. f \<in> set foreign \<Longrightarrow> get_value f ff = Some v \<Longrightarrow> encodable X v"
  shows "stage_lookup X run docs
      (Document [(''from'', Str frm), (''localField'', Str lf), (''foreignField'', Str ff), (''as'', Str as_field)]) (Some resolve) =
    Inr (map (\<lambda>d. doc_insert as_field (Array (map Document (filter (\<lambda>f. get_value f ff = get_value d lf) foreign))) d) docs)"
proof -
  have "filter (\<lambda>f. canonical_bson_key X (get_value f ff) = canonical_bson_key X (get_value d lf)) foreign =
      filter (\<lambda>f. get_value f ff = get_value d lf) foreign" if "d \<in> set docs" for d
    using assms(2) [OF that] assms(3) by (intro filter_cong refl canonical_key_eq)
  then show ?thesis
    by (simp add: stage_lookup_def stage_doc_def required_def needs_resolver_def assms(1) foreign_map_lookup Let_def cong: map_cong)
qed

theorem lookup_is_join_witness:
  "stage_lookup (table_codec [[([], Str ''x'')], [([], Str ''y'')]]) (\<lambda>_ _. Inr []) [[(''a'', Str ''x'')], [(''c'', Null)]]
      (Document [(''from'', Str ''other''), (''localField'', Str ''a''), (''foreignField'', Str ''b''), (''as'', Str ''m'')])
      (Some (\<lambda>_. Inr [[(''b'', Str ''y'')], [(''b'', Str ''x'')]])) =
    Inr [[(''a'', Str ''x''), (''m'', Array [Document [(''b'', Str ''x'')]])], [(''c'', Null), (''m'', Array [])]]"
  by (subst lookup_is_join [where foreign = "[[(''b'', Str ''y'')], [(''b'', Str ''x'')]]"])
    (auto simp: encodable_def table_codec_def get_value_def)

section \<open>The graph search finds the reachable documents\<close>

inductive reaches :: "doc list \<Rightarrow> string \<Rightarrow> string \<Rightarrow> bson list \<Rightarrow> doc \<Rightarrow> bool" for foreign connect_from connect_to start where
  first: "f \<in> set foreign \<Longrightarrow> v \<in> set start \<Longrightarrow> v \<in> set (spread (get_value f connect_to)) \<Longrightarrow>
     reaches foreign connect_from connect_to start f"
| further: "reaches foreign connect_from connect_to start f \<Longrightarrow> v \<in> set (spread (get_value f connect_from)) \<Longrightarrow>
     f' \<in> set foreign \<Longrightarrow> v \<in> set (spread (get_value f' connect_to)) \<Longrightarrow> reaches foreign connect_from connect_to start f'"

abbreviation value_key :: "externs \<Rightarrow> bson \<Rightarrow> bytes" where
  "value_key X v \<equiv> canonical_bson_key X (Some v)"

text \<open>The values the search compares are encodable, and none of them is itself a foreign document.\<close>

definition graph_values :: "doc list \<Rightarrow> string \<Rightarrow> string \<Rightarrow> bson list \<Rightarrow> bson set" where
  "graph_values foreign cf ct start =
     set start \<union> (\<Union>f \<in> set foreign. set (spread (get_value f cf)) \<union> set (spread (get_value f ct)))"

definition graph_values_ok :: "externs \<Rightarrow> doc list \<Rightarrow> string \<Rightarrow> string \<Rightarrow> bson list \<Rightarrow> bool" where
  "graph_values_ok X foreign cf ct start \<longleftrightarrow>
     (\<forall>v \<in> graph_values foreign cf ct start. encodable X v \<and> v \<notin> Document ` set foreign) \<and>
     (\<forall>f \<in> set foreign. encodable X (Document f))"

lemma graph_key_eq:
  assumes "graph_values_ok X foreign cf ct start" and "v \<in> graph_values foreign cf ct start" and "w \<in> graph_values foreign cf ct start"
  shows "value_key X v = value_key X w \<longleftrightarrow> v = w"
  using assms canonical_key_eq [of "Some v" X "Some w"] by (simp add: graph_values_ok_def)

lemma graph_key_doc:
  assumes "graph_values_ok X foreign cf ct start" and "v \<in> graph_values foreign cf ct start" and "f \<in> set foreign"
  shows "value_key X v \<noteq> value_key X (Document f)"
proof -
  have "encodable X v" "encodable X (Document f)" "v \<noteq> Document f" using assms by (auto simp: graph_values_ok_def)
  then show ?thesis using canonical_key_eq [of "Some v" X "Some (Document f)"] by simp
qed

lemma graph_doc_eq:
  assumes "graph_values_ok X foreign cf ct start" and "f \<in> set foreign" and "f' \<in> set foreign"
  shows "value_key X (Document f) = value_key X (Document f') \<longleftrightarrow> f = f'"
  using assms canonical_key_eq [of "Some (Document f)" X "Some (Document f')"] by (simp add: graph_values_ok_def)

lemma connect_index_lookup:
  assumes "graph_values_ok X foreign cf ct start" and "v \<in> graph_values foreign cf ct start"
  shows "set (opt_or [] (map_of (connect_index X ct foreign) (value_key X v))) = {f \<in> set foreign. v \<in> set (spread (get_value f ct))}"
proof -
  have "f \<in> set foreign \<Longrightarrow> w \<in> set (spread (get_value f ct)) \<Longrightarrow> value_key X w = value_key X v \<longleftrightarrow> w = v" for f w
    using graph_key_eq [OF assms(1) _ assms(2), of w] by (auto simp: graph_values_def)
  then show ?thesis unfolding connect_index_def foldl_al_push by force
qed

text \<open>
  The invariant of the search: the visited keys are those of the start values and of the documents found, the
  documents found are reachable, and every value that leads on is queued, is in \<open>P\<close> (the value being
  expanded), or has all its documents found.
\<close>

definition leads :: "string \<Rightarrow> bson list \<Rightarrow> doc list \<Rightarrow> bson set" where
  "leads cf start found = set start \<union> (\<Union>f \<in> set found. set (spread (get_value f cf)))"

definition graph_inv :: "externs \<Rightarrow> doc list \<Rightarrow> string \<Rightarrow> string \<Rightarrow> bson list \<Rightarrow> bson set \<Rightarrow> graph_state \<Rightarrow> bool" where
  "graph_inv X foreign cf ct start P s = (case s of (visited, queue, found) \<Rightarrow>
     set visited = value_key X ` set start \<union> (\<lambda>f. value_key X (Document f)) ` set found \<and>
     distinct found \<and> (\<forall>f \<in> set found. f \<in> set foreign \<and> reaches foreign cf ct start f) \<and>
     fst ` set queue \<subseteq> leads cf start found \<and>
     (\<forall>v \<in> leads cf start found. v \<in> P \<or> v \<in> fst ` set queue \<or>
        (\<forall>f \<in> set foreign. v \<in> set (spread (get_value f ct)) \<longrightarrow> f \<in> set found)))"

abbreviation plain_graph :: "string \<Rightarrow> graph_args" where
  "plain_graph cf \<equiv> \<lparr>ga_connect_from = cf, ga_max_depth = None, ga_depth_field = None, ga_restrict = None\<rparr>"

lemma leads_values:
  assumes "\<And>f. f \<in> set found \<Longrightarrow> f \<in> set foreign"
  shows "leads cf start found \<subseteq> graph_values foreign cf ct start"
  using assms by (auto simp: leads_def graph_values_def)

lemma reaches_leads:
  assumes "\<And>f. f \<in> set found \<Longrightarrow> reaches foreign cf ct start f" and "v \<in> leads cf start found"
    and "f \<in> set foreign" and "v \<in> set (spread (get_value f ct))"
  shows "reaches foreign cf ct start f"
  using assms by (auto simp: leads_def intro: reaches.intros)

lemma graph_visit_inv:
  assumes ok: "graph_values_ok X foreign cf ct start" and inv: "graph_inv X foreign cf ct start P (visited, queue, found)"
    and f: "f \<in> set foreign" "v \<in> leads cf start found" "v \<in> set (spread (get_value f ct))"
  shows "\<exists>visited' queue' found'. graph_visit X (plain_graph cf) depth (visited, queue, found) f = Inr (visited', queue', found') \<and>
    graph_inv X foreign cf ct start P (visited', queue', found') \<and> set found' = insert f (set found)"
proof (cases "f \<in> set found")
  case True
  then have "value_key X (Document f) \<in> set visited" using inv by (auto simp: graph_inv_def)
  then show ?thesis using inv True by (auto simp: graph_visit_def Let_def insert_absorb)
next
  case False
  define k where "k = value_key X (Document f)"
  define nv where "nv = filter (\<lambda>v. value_key X v \<notin> set (k # visited)) (spread (get_value f cf))"
  have vis: "set visited = value_key X ` set start \<union> (\<lambda>f. value_key X (Document f)) ` set found"
    and found: "distinct found" "\<forall>g \<in> set found. g \<in> set foreign \<and> reaches foreign cf ct start g"
    and queue: "fst ` set queue \<subseteq> leads cf start found"
    and cover: "\<forall>v \<in> leads cf start found. v \<in> P \<or> v \<in> fst ` set queue \<or>
        (\<forall>f \<in> set foreign. v \<in> set (spread (get_value f ct)) \<longrightarrow> f \<in> set found)"
    using inv by (simp_all add: graph_inv_def)
  have start: "set start \<subseteq> graph_values foreign cf ct start" by (auto simp: graph_values_def)
  have "k \<noteq> value_key X w" if "w \<in> set start" for w
    using graph_key_doc [OF ok _ f(1), of w] start that by (auto simp: k_def)
  moreover have "k \<noteq> value_key X (Document g)" if "g \<in> set found" for g
    using graph_doc_eq [OF ok f(1), of g] found(2) that False by (auto simp: k_def)
  ultimately have new: "k \<notin> set visited" using vis by auto
  have step: "graph_visit X (plain_graph cf) depth (visited, queue, found) f =
      Inr (k # visited, queue @ map (\<lambda>v. (v, depth + 1)) nv, found @ [f])"
    using new by (simp add: graph_visit_def Let_def k_def nv_def)
  have reach: "reaches foreign cf ct start f" using reaches_leads [OF _ f(2,1,3)] found(2) by blast
  have leads: "leads cf start (found @ [f]) = leads cf start found \<union> set (spread (get_value f cf))" by (auto simp: leads_def)
  have skipped: "w \<in> set start" if w: "w \<in> set (spread (get_value f cf))" "w \<notin> set nv" for w
  proof -
    have gv: "w \<in> graph_values foreign cf ct start" using w(1) f(1) by (auto simp: graph_values_def)
    have "value_key X w \<in> set (k # visited)" using w by (simp add: nv_def)
    then obtain u where "u \<in> set start" "value_key X w = value_key X u"
      using graph_key_doc [OF ok gv] found(2) f(1) vis by (auto simp: k_def)
    then show ?thesis using graph_key_eq [OF ok gv, of u] start by auto
  qed
  have starts: "set start \<subseteq> leads cf start found" by (simp add: leads_def)
  let ?queue = "queue @ map (\<lambda>v. (v, depth + 1)) nv"
  have q: "fst ` set ?queue = fst ` set queue \<union> set nv" by (simp add: image_Un image_image)
  have c1: "set (k # visited) = value_key X ` set start \<union> (\<lambda>f. value_key X (Document f)) ` set (found @ [f])"
    using vis by (simp add: k_def)
  have c2: "distinct (found @ [f])" using found(1) False by simp
  have c3: "\<forall>g \<in> set (found @ [f]). g \<in> set foreign \<and> reaches foreign cf ct start g" using found(2) f(1) reach by simp
  have c4: "fst ` set ?queue \<subseteq> leads cf start (found @ [f])"
    unfolding q leads using queue by (auto simp: nv_def)
  have c5: "w \<in> P \<or> w \<in> fst ` set ?queue \<or> (\<forall>g \<in> set foreign. w \<in> set (spread (get_value g ct)) \<longrightarrow> g \<in> set (found @ [f]))"
    if "w \<in> leads cf start (found @ [f])" for w
  proof (cases "w \<in> set nv")
    case True
    then have "w \<in> fst ` set ?queue" unfolding q by simp
    then show ?thesis by (intro disjI2 disjI1)
  next
    case False
    have "w \<in> leads cf start found \<or> w \<in> set (spread (get_value f cf))" using that leads by simp
    then have "w \<in> leads cf start found" using skipped [of w, OF _ False] starts by auto
    with cover consider "w \<in> P" | "w \<in> fst ` set queue" | "\<forall>g \<in> set foreign. w \<in> set (spread (get_value g ct)) \<longrightarrow> g \<in> set found" by blast
    then show ?thesis unfolding q by cases simp_all
  qed
  have "graph_inv X foreign cf ct start P (k # visited, ?queue, found @ [f])"
    unfolding graph_inv_def prod.case using c5 by (intro conjI c1 c2 c3 c4 ballI)
  then show ?thesis using step by simp
qed

lemma graph_visits_inv:
  assumes ok: "graph_values_ok X foreign cf ct start" and "graph_inv X foreign cf ct start P (visited, queue, found)"
    and "v \<in> leads cf start found" and "\<And>f. f \<in> set fs \<Longrightarrow> f \<in> set foreign \<and> v \<in> set (spread (get_value f ct))"
  shows "\<exists>visited' queue' found'. fold_res (graph_visit X (plain_graph cf) depth) (visited, queue, found) fs = Inr (visited', queue', found') \<and>
    graph_inv X foreign cf ct start P (visited', queue', found') \<and> set found' = set fs \<union> set found"
  using assms(2-)
proof (induction fs arbitrary: visited queue found)
  case (Cons f fs)
  obtain visited' queue' found' where s: "graph_visit X (plain_graph cf) depth (visited, queue, found) f = Inr (visited', queue', found')"
    "graph_inv X foreign cf ct start P (visited', queue', found')" "set found' = insert f (set found)"
    using graph_visit_inv [OF ok Cons.prems(1) _ Cons.prems(2), of f depth] Cons.prems(3) [of f] by (metis list.set_intros(1))
  have "v \<in> leads cf start found'" using Cons.prems(2) s(3) by (auto simp: leads_def)
  from Cons.IH [OF s(2) this] Cons.prems(3) show ?case using s(1,3) by auto
qed simp

lemma graph_search_inv:
  assumes "graph_values_ok X foreign cf ct start" and "graph_inv X foreign cf ct start {} (visited, queue, found)"
  shows "\<exists>visited' found'. graph_search X (plain_graph cf) (connect_index X ct foreign) visited queue found = Inr found' \<and>
    graph_inv X foreign cf ct start {} (visited', [], found')"
  using assms
proof (induction "X" "plain_graph cf" "connect_index X ct foreign" visited queue found rule: graph_search.induct)
  case (1 X visited found)
  then show ?case by auto
next
  case (2 X visited current depth queue found)
  note ok = 2(4) and none = 2(2) and some = 2(3)
  let ?index = "connect_index X ct foreign"
  have inv: "graph_inv X foreign cf ct start {current} (visited, queue, found)"
    using 2(5) by (auto simp: graph_inv_def)
  have lead: "current \<in> leads cf start found" and sub: "\<And>f. f \<in> set found \<Longrightarrow> f \<in> set foreign"
    using 2(5) by (auto simp: graph_inv_def)
  have val: "current \<in> graph_values foreign cf ct start" using lead leads_values [OF sub] by blast
  note look = connect_index_lookup [OF ok val]
  have drop: "graph_inv X foreign cf ct start {} (v, q, h)"
    if "graph_inv X foreign cf ct start {current} (v, q, h)" "{f \<in> set foreign. current \<in> set (spread (get_value f ct))} \<subseteq> set h" for v q h
    using that by (auto simp: graph_inv_def)
  show ?case
  proof (cases "map_of ?index (value_key X current)")
    case None
    then have "graph_inv X foreign cf ct start {} (visited, queue, found)" using look by (intro drop [OF inv]) auto
    then show ?thesis using none [OF _ None] ok None by simp
  next
    case (Some cands)
    then have cands: "set cands = {f \<in> set foreign. current \<in> set (spread (get_value f ct))}" using look by simp
    obtain v q h where s: "fold_res (graph_visit X (plain_graph cf) depth) (visited, queue, found) cands = Inr (v, q, h)"
      "graph_inv X foreign cf ct start {current} (v, q, h)" "set h = set cands \<union> set found"
      using graph_visits_inv [OF ok inv lead, of cands depth] cands by blast
    have "graph_inv X foreign cf ct start {} (v, q, h)" using cands s(3) by (intro drop [OF s(2)]) auto
    then show ?thesis using some [OF _ Some s(1) refl refl] ok Some s(1) by simp
  qed
qed

lemma graph_start_inv:
  assumes "graph_values_ok X foreign cf ct start"
  shows "\<exists>visited queue. graph_start X start = (visited, queue) \<and> graph_inv X foreign cf ct start {} (visited, queue, [])"
proof -
  define step where "step = (\<lambda>(visited, queue) v. let k = value_key X v in
     if k \<in> set visited then (visited, queue) else (k # visited, queue @ [(v, 0 :: int)]))"
  have "\<exists>visited queue. foldl step ([], []) vs = (visited, queue) \<and> set visited = value_key X ` set vs \<and> fst ` set queue = set vs"
    if "set vs \<subseteq> set start" for vs
    using that
  proof (induction vs rule: rev_induct)
    case (snoc v vs)
    then obtain visited queue where IH: "foldl step ([], []) vs = (visited, queue)" "set visited = value_key X ` set vs" "fst ` set queue = set vs"
      by auto
    have "value_key X v \<in> value_key X ` set vs \<longleftrightarrow> v \<in> set vs"
      using snoc.prems graph_key_eq [OF assms, of v] by (auto simp: graph_values_def)
    then show ?case using IH by (auto simp: step_def Let_def)
  qed simp
  from this [of start] obtain visited queue where *: "graph_start X start = (visited, queue)"
    "set visited = value_key X ` set start" "fst ` set queue = set start"
    by (auto simp: graph_start_def step_def)
  then have "graph_inv X foreign cf ct start {} (visited, queue, [])" by (simp add: graph_inv_def leads_def)
  with * show ?thesis by blast
qed

text \<open>
  C33. \<^verbatim>\<open>$graphLookup\<close> without depth limit and restriction ends, and finds exactly the documents reachable from
  the start values along the connecting fields, each once.
\<close>

theorem graph_lookup_reaches:
  assumes "evaluate_expression X d start_with = Inr start_val" and "graph_values_ok X foreign cf ct (spread (Some start_val))"
  shows "\<exists>found. graph_lookup_doc X (plain_graph cf) (connect_index X ct foreign) start_with d = Inr found \<and>
    distinct found \<and> set found = {f. reaches foreign cf ct (spread (Some start_val)) f}"
proof -
  let ?start = "spread (Some start_val)"
  obtain visited queue where s: "graph_start X ?start = (visited, queue)" "graph_inv X foreign cf ct ?start {} (visited, queue, [])"
    using graph_start_inv [OF assms(2)] by blast
  obtain visited' found where f: "graph_search X (plain_graph cf) (connect_index X ct foreign) visited queue [] = Inr found"
    "graph_inv X foreign cf ct ?start {} (visited', [], found)"
    using graph_search_inv [OF assms(2) s(2)] by blast
  have closed: "f \<in> set found" if "v \<in> leads cf ?start found" "f \<in> set foreign" "v \<in> set (spread (get_value f ct))" for v f
    using f(2) that by (simp add: graph_inv_def)
  have "f \<in> set found" if "reaches foreign cf ct ?start f" for f
    using that by induction (auto intro!: closed simp: leads_def)
  moreover have "distinct found" "\<And>f. f \<in> set found \<Longrightarrow> reaches foreign cf ct ?start f" using f(2) by (auto simp: graph_inv_def)
  ultimately show ?thesis using assms(1) s(1) f(1) by (auto simp: graph_lookup_doc_def)
qed

theorem graph_lookup_reaches_witness:
  "\<exists>found. graph_lookup_doc (table_codec ([([], Document [(''id'', Str ''a''), (''up'', Str ''b'')])] # [([], Document [(''id'', Str ''b'')])] #
        map (\<lambda>v. [([], Str v)]) [''a'', ''b'']))
      (plain_graph ''up'') (connect_index (table_codec ([([], Document [(''id'', Str ''a''), (''up'', Str ''b'')])] # [([], Document [(''id'', Str ''b'')])] #
        map (\<lambda>v. [([], Str v)]) [''a'', ''b''])) ''id'' [[(''id'', Str ''a''), (''up'', Str ''b'')], [(''id'', Str ''b'')]]) (Str ''a'') [] = Inr found \<and>
    distinct found \<and> set found = {f. reaches [[(''id'', Str ''a''), (''up'', Str ''b'')], [(''id'', Str ''b'')]] ''up'' ''id'' (spread (Some (Str ''a''))) f}"
  by (rule graph_lookup_reaches)
    (auto simp: encodable_def table_codec_def get_value_def spread_def graph_values_ok_def graph_values_def evaluate_expression.simps evaluate_leaf_def starts_with_def)

end
