(* ===== verification/Window_Stage.thy ===== *)
theory Window_Stage
  imports Stages
begin

text \<open>
  The stages \<^verbatim>\<open>$setWindowFields\<close> and \<^verbatim>\<open>$geoNear\<close> of \<^verbatim>\<open>aggregation/stages.rs\<close>.  A window operator writes its result
  into the sorted documents at the positions of a partition, one after the other; \<^verbatim>\<open>$first\<close> of an empty partition
  is a panic.  \<^verbatim>\<open>$geoNear\<close> with a limit keeps the nearest documents in a heap ordered by distance
  (\<^verbatim>\<open>total_ord.rs\<close>) and position.
\<close>

section \<open>\<^verbatim>\<open>$setWindowFields\<close>\<close>

definition sort_keys_equal :: "doc option \<Rightarrow> doc \<Rightarrow> doc \<Rightarrow> bool" where
  "sort_keys_equal sort_doc a b = (case sort_doc of
     None \<Rightarrow> True
   | Some sb \<Rightarrow> list_all (\<lambda>(field, _). compare_bson (get_value a field) (get_value b field) = Equal) sb)"

definition set_at :: "string \<Rightarrow> bson \<Rightarrow> doc list \<Rightarrow> nat \<Rightarrow> doc list" where
  "set_at field v docs idx = docs[idx := doc_insert field v (docs ! idx)]"

definition set_all :: "string \<Rightarrow> bson \<Rightarrow> nat list \<Rightarrow> doc list \<Rightarrow> doc list" where
  "set_all field v part docs = foldl (set_at field v) docs part"

definition rank_step :: "bool \<Rightarrow> doc option \<Rightarrow> nat list \<Rightarrow> string \<Rightarrow> doc list \<times> 32 word \<Rightarrow> nat \<times> nat \<Rightarrow> doc list \<times> 32 word" where
  "rank_step dense sort_doc part field s pos_idx = (case (s, pos_idx) of ((docs, rank), (pos, idx)) \<Rightarrow>
     let rank' = (if 0 < pos \<and> \<not> sort_keys_equal sort_doc (docs ! (part ! (pos - 1))) (docs ! idx)
                  then (if dense then rank + 1 else of_nat (pos + 1)) else rank)
     in (set_at field (Int32 rank') docs idx, rank'))"

definition window_rank :: "bool \<Rightarrow> doc option \<Rightarrow> string \<Rightarrow> nat list \<Rightarrow> doc list \<Rightarrow> doc list" where
  "window_rank dense sort_doc field part docs =
     fst (foldl (rank_step dense sort_doc part field) (docs, 1) (List.enumerate 0 part))"

definition set_each :: "string \<Rightarrow> (nat \<times> bson) list \<Rightarrow> doc list \<Rightarrow> doc list" where
  "set_each field vals docs = foldl (\<lambda>docs (idx, v). set_at field v docs idx) docs vals"

fun shift_by :: "bson option \<Rightarrow> 32 word" where
  "shift_by (Some (Int32 n)) = n"
| "shift_by (Some (Int64 n)) = ucast n"
| "shift_by _ = 0"

text \<open>\<^verbatim>\<open>evaluate_expression(..).unwrap_or_else(|_| default)\<close>\<close>

definition eval_or_default :: "bson \<Rightarrow> bson ares \<Rightarrow> bson sres" where
  "eval_or_default d r = (case r of Inr v \<Rightarrow> Inr v | Inl e \<Rightarrow> if e = ExprPanic then Inl (Agg e) else Inr d)"

definition window_shift :: "externs \<Rightarrow> string \<Rightarrow> doc \<Rightarrow> bson \<Rightarrow> nat list \<Rightarrow> doc list \<Rightarrow> doc list sres" where
  "window_shift X field shift_doc output_expr part docs =
     (let delta = sint (shift_by (doc_get shift_doc ''by'')); default_val = opt_or Null (doc_get shift_doc ''default'') in
      res_bind (map_res (\<lambda>(pos, idx).
          let shifted = int pos + delta in
          if 0 \<le> shifted \<and> nat shifted < length part
          then res_bind (eval_or_default default_val (evaluate_expression X (docs ! (part ! nat shifted)) output_expr)) (\<lambda>v. Inr (idx, v))
          else Inr (idx, default_val)) (List.enumerate 0 part)) (\<lambda>vals.
      Inr (set_each field vals docs)))"

definition f64_inf :: "bool \<Rightarrow> f64" where
  "f64_inf neg = of_sign_mag neg inf_mag"

definition pick_extreme :: "(f64 \<Rightarrow> f64 \<Rightarrow> bool) \<Rightarrow> f64 \<Rightarrow> bson option \<Rightarrow> f64 \<times> bson \<Rightarrow> bson option" where
  "pick_extreme better worst best nv = (case nv of (n, v) \<Rightarrow> Some (case best of
     Some prev \<Rightarrow> if better n (opt_or worst (as_f64 prev)) then v else prev
   | None \<Rightarrow> v))"

definition window_stat :: "string \<Rightarrow> bson list \<Rightarrow> bson" where
  "window_stat op vals =
     (let nums = List.map_filter (\<lambda>v. map_option (\<lambda>n. (n, v)) (as_f64 v)) vals; total = f64_sum (map fst nums) in
      if op = ''$sum'' then Double total
      else if op = ''$avg'' then (if nums = [] then Null else Double (f64_div total (f64_of_nat (length nums))))
      else if op = ''$min'' then opt_or Null (foldl (pick_extreme f64_lt (f64_inf False)) None nums)
      else opt_or Null (foldl (pick_extreme (\<lambda>a b. f64_lt b a) (f64_inf True)) None nums))"

definition window_op :: "externs \<Rightarrow> doc option \<Rightarrow> string \<Rightarrow> string \<Rightarrow> bson \<Rightarrow> nat list \<Rightarrow> doc list \<Rightarrow> doc list sres" where
  "window_op X sort_doc field op e part docs =
     (if op = ''$rank'' then Inr (window_rank False sort_doc field part docs)
      else if op = ''$denseRank'' then Inr (window_rank True sort_doc field part docs)
      else if op = ''$documentNumber'' then
        Inr (set_each field (map (\<lambda>(pos, idx). (idx, Int32 (of_nat (pos + 1)))) (List.enumerate 0 part)) docs)
      else if op = ''$count'' then Inr (set_all field (len_i32 part) part docs)
      else if op = ''$first'' then
        (case part of [] \<Rightarrow> Inl StagePanic
         | i # _ \<Rightarrow> res_bind (eval_agg X (docs ! i) e) (\<lambda>v. Inr (set_all field v part docs)))
      else if op = ''$last'' then
        (if part = [] then Inr docs
         else res_bind (eval_agg X (docs ! List.last part) e) (\<lambda>v. Inr (set_all field v part docs)))
      else if op = ''$shift'' then
        res_bind (ok_or (Agg (InvalidStage ''$shift requires a document with output and by'')) (as_document e)) (\<lambda>shift_doc.
        res_bind (required ''$shift.output required'' (doc_get shift_doc ''output'')) (\<lambda>output_expr.
        window_shift X field shift_doc output_expr part docs))
      else if op \<in> {''$sum'', ''$avg'', ''$min'', ''$max''} then
        res_bind (map_res (\<lambda>i. eval_agg X (docs ! i) e) part) (\<lambda>vals.
        Inr (set_all field (window_stat op vals) part docs))
      else Inl (Agg (InvalidOperator (''Unknown $setWindowFields operator: '' @ op))))"

definition window_partitions :: "externs \<Rightarrow> bson option \<Rightarrow> doc list \<Rightarrow> nat list list sres" where
  "window_partitions X partition_by docs = (case partition_by of
     None \<Rightarrow> Inr [[0..<length docs]]
   | Some pb \<Rightarrow>
       res_bind (fold_res (\<lambda>groups (i, d). res_bind (eval_agg X d pb) (\<lambda>key.
           let k = bson_to_key_string X key in Inr (al_push k i groups)))
         [] (List.enumerate 0 docs)) (\<lambda>groups.
       Inr (map snd (hash_entries X groups))))"

definition window_field :: "externs \<Rightarrow> doc option \<Rightarrow> nat list list \<Rightarrow> doc list \<Rightarrow> string \<times> bson \<Rightarrow> doc list sres" where
  "window_field X sort_doc parts docs field_spec = (case field_spec of (field, window_spec) \<Rightarrow>
     case List.find (\<lambda>(k, _). starts_with k ''$'') (opt_or [] (as_document window_spec)) of
       None \<Rightarrow> Inl (Agg (InvalidStage (''$setWindowFields.output.'' @ field @ '' needs an operator'')))
     | Some (op, e) \<Rightarrow> fold_res (\<lambda>docs part. window_op X sort_doc field op e part docs) docs parts)"

definition stage_set_window_fields :: "externs \<Rightarrow> doc list \<Rightarrow> bson \<Rightarrow> doc list sres" where
  "stage_set_window_fields X docs spec =
     res_bind (stage_doc ''$setWindowFields'' spec) (\<lambda>wf_doc.
     res_bind (required ''$setWindowFields.output required'' (get_doc wf_doc ''output'')) (\<lambda>output.
     let sort_doc = get_doc wf_doc ''sortBy'' in
     res_bind (case sort_doc of Some sb \<Rightarrow> stage_sort docs (Document sb) | None \<Rightarrow> Inr docs) (\<lambda>sorted_docs.
     res_bind (window_partitions X (doc_get wf_doc ''partitionBy'') sorted_docs) (\<lambda>parts.
     fold_res (window_field X sort_doc parts) sorted_docs output))))"

section \<open>\<^verbatim>\<open>$geoNear\<close>\<close>

definition f64_total_key :: "f64 \<Rightarrow> int" where
  "f64_total_key x = (if f64_neg x then - int (f64_mag x) - 1 else int (f64_mag x))"

fun heap_max :: "(f64 \<times> nat) list \<Rightarrow> (f64 \<times> nat) option" where
  "heap_max [] = None"
| "heap_max ((d, i) # h) = (case heap_max h of
     None \<Rightarrow> Some (d, i)
   | Some (m, j) \<Rightarrow>
       if f64_total_key m < f64_total_key d \<or> f64_total_key m = f64_total_key d \<and> j < i then Some (d, i) else Some (m, j))"

definition heap_offer :: "nat \<Rightarrow> (f64 \<times> nat) list \<Rightarrow> f64 \<times> nat \<Rightarrow> (f64 \<times> nat) list" where
  "heap_offer k heap di =
     (if length heap < k then heap @ [di]
      else case heap_max heap of
        Some m \<Rightarrow> if f64_total_key (fst di) < f64_total_key (fst m) then remove1 m heap @ [di] else heap
      | None \<Rightarrow> heap)"

fun double_or_i64 :: "bson \<Rightarrow> f64 option" where
  "double_or_i64 (Double x) = Some x"
| "double_or_i64 (Int64 n) = Some (f64_of_int (sint n))"
| "double_or_i64 _ = None"

fun only_double :: "bson \<Rightarrow> f64 option" where
  "only_double (Double x) = Some x"
| "only_double _ = None"

record geo_near_args =
  gn_key :: string
  gn_distance_field :: string
  gn_multiplier :: f64
  gn_include_locs :: "string option"
  gn_max :: "f64 option"
  gn_min :: "f64 option"
  gn_limit :: "nat option"
  gn_query :: "doc option"

definition geo_near_args :: "doc \<Rightarrow> string \<Rightarrow> geo_near_args" where
  "geo_near_args d distance_field = \<lparr>
     gn_key = opt_or ''location'' (get_str d ''key''),
     gn_distance_field = distance_field,
     gn_multiplier = opt_or (f64_of_int 1) (Option.bind (doc_get d ''distanceMultiplier'') only_double),
     gn_include_locs = get_str d ''includeLocs'',
     gn_max = Option.bind (doc_get d ''maxDistance'') double_or_i64,
     gn_min = Option.bind (doc_get d ''minDistance'') double_or_i64,
     gn_limit = Option.bind (doc_get d ''limit'') as_count,
     gn_query = get_doc d ''query''\<rparr>"

definition geo_result :: "geo_near_args \<Rightarrow> doc \<Rightarrow> f64 \<Rightarrow> doc" where
  "geo_result g d dist =
     (let d = set_or_keep d (gn_distance_field g) (Double (f64_mul dist (gn_multiplier g))) in
      case gn_include_locs g of
        Some locs \<Rightarrow> (case get_value d (gn_key g) of Some loc \<Rightarrow> set_or_keep d locs loc | None \<Rightarrow> d)
      | None \<Rightarrow> d)"

definition geo_candidate :: "externs \<Rightarrow> geo_near_args \<Rightarrow> f64 \<Rightarrow> f64 \<Rightarrow> doc \<Rightarrow> (f64 \<times> doc) option sres" where
  "geo_candidate X g lon lat d =
     res_bind (case gn_query g of Some q \<Rightarrow> query_or_false (eval_query X d q) | None \<Rightarrow> Inr True) (\<lambda>ok.
     Inr (if \<not> ok then None
      else case extract_lon_lat (get_value d (gn_key g)) of
        None \<Rightarrow> None
      | Some (dlon, dlat) \<Rightarrow>
          (let dist = x_haversine X lon lat dlon dlat in
           if (case gn_max g of Some m \<Rightarrow> f64_lt m dist | None \<Rightarrow> False) then None
           else if (case gn_min g of Some m \<Rightarrow> f64_lt dist m | None \<Rightarrow> False) then None
           else Some (dist, geo_result g d dist))))"

definition geo_nearest :: "externs \<Rightarrow> nat \<Rightarrow> (f64 \<times> doc) list \<Rightarrow> (f64 \<times> nat) list" where
  "geo_nearest X k prepared =
     sort_by (\<lambda>a b. f64_order (fst a) (fst b))
       (x_heap_order X (foldl (heap_offer k) [] (map (\<lambda>(i, (dist, _)). (dist, i)) (List.enumerate 0 prepared))))"

definition stage_geo_near :: "externs \<Rightarrow> doc list \<Rightarrow> bson \<Rightarrow> doc list sres" where
  "stage_geo_near X docs spec =
     res_bind (stage_doc ''$geoNear'' spec) (\<lambda>gn_doc.
     res_bind (required ''$geoNear.near required'' (doc_get gn_doc ''near'')) (\<lambda>near.
     res_bind (ok_or (Agg (InvalidStage ''$geoNear.near must be a GeoJSON Point or [lon, lat]'')) (extract_lon_lat (Some near))) (\<lambda>(lon, lat).
     res_bind (required ''$geoNear.distanceField required'' (get_str gn_doc ''distanceField'')) (\<lambda>distance_field.
     let g = geo_near_args gn_doc distance_field in
     res_bind (map_res (geo_candidate X g lon lat) docs) (\<lambda>cands.
     let prepared = List.map_filter (\<lambda>c. c) cands in
     case gn_limit g of
       Some k \<Rightarrow> Inr (map (\<lambda>(_, i). snd (prepared ! i)) (geo_nearest X k prepared))
     | None \<Rightarrow> Inr (map snd (sort_by (\<lambda>a b. f64_order (fst a) (fst b)) prepared)))))))"

end
