(* ===== verification/Pipeline.thy ===== *)
theory Pipeline
  imports Spill Joins Window_Stage Query_Props
begin

text \<open>
  The pipeline (\<^verbatim>\<open>aggregation/mod.rs\<close>) and the streaming form of the stages (\<^verbatim>\<open>aggregation/stages.rs\<close>).  A lazy
  iterator is the list of the items it yields: an error is an item, and a panic is an item that ends whatever pulls it,
  also when the puller would discard it.  Pipelines nest through \<^verbatim>\<open>$lookup\<close>, \<^verbatim>\<open>$facet\<close> and \<^verbatim>\<open>$unionWith\<close>; a run has a
  bound on the nesting, beyond which the stack overflows.  The resolver of collections, the indexes and the stage
  \<^verbatim>\<open>$vectorSearch\<close> are arguments.  The theorems: merging the leading matches of a pipeline is sound, the streaming
  stages compute what the batch stages compute, the fused sort and limit returns the first documents of the
  sort, and the nesting bound does not matter once it exceeds the size of the pipeline.
\<close>

section \<open>Streaming stages\<close>

fun is_panic :: "stage_error \<Rightarrow> bool" where
  "is_panic (Agg e) \<longleftrightarrow> e = ExprPanic"
| "is_panic (QueryText e) \<longleftrightarrow> query_panic e"
| "is_panic StagePanic \<longleftrightarrow> True"
| "is_panic StackOverflow \<longleftrightarrow> True"

definition collect_stream :: "doc_stream \<Rightarrow> doc list sres" where
  "collect_stream input = map_res (\<lambda>r. r) input"

abbreviation emit :: "doc list \<Rightarrow> doc_stream" where
  "emit docs \<equiv> map Inr docs"

definition match_item :: "externs \<Rightarrow> doc \<Rightarrow> doc sres \<Rightarrow> doc sres option" where
  "match_item X filter_doc r = (case r of
     Inl e \<Rightarrow> Some (Inl e)
   | Inr d \<Rightarrow> (case eval_query X d filter_doc of
       Inr b \<Rightarrow> if b then Some (Inr d) else None
     | Inl e \<Rightarrow> Some (Inl (QueryText e))))"

definition stage_match_stream :: "externs \<Rightarrow> doc_stream \<Rightarrow> bson \<Rightarrow> doc_stream sres" where
  "stage_match_stream X input filter_spec =
     res_bind (stage_doc ''$match'' filter_spec) (\<lambda>filter_doc. Inr (List.map_filter (match_item X filter_doc) input))"

definition project_stream_doc :: "externs \<Rightarrow> doc \<Rightarrow> doc \<Rightarrow> doc sres" where
  "project_stream_doc X proj d =
     (if has_exclusion proj
      then (let rest = filter (\<lambda>(field, _). field \<noteq> ''_id'') proj in
        res_bind (map_res (\<lambda>(field, v). res_bind (eval_agg X d v) (\<lambda>w. Inr (field, w))) (filter (\<lambda>(_, v). \<not> is_exclusion v) rest)) (\<lambda>computed.
        let nd = foldl (\<lambda>nd (field, _). doc_remove field nd) d (filter (\<lambda>(_, v). is_exclusion v) rest);
            nd = foldl (\<lambda>nd (field, w). doc_insert field w nd) nd computed in
        Inr (drop_id proj nd)))
      else fold_res (project_include X d) (kept_id proj d) proj)"

definition stage_project_stream :: "externs \<Rightarrow> doc_stream \<Rightarrow> bson \<Rightarrow> doc_stream sres" where
  "stage_project_stream X input projection =
     res_bind (stage_doc ''$project'' projection) (\<lambda>proj. Inr (map (\<lambda>r. res_bind r (project_stream_doc X proj)) input))"

definition stage_limit_stream :: "doc_stream \<Rightarrow> bson \<Rightarrow> doc_stream sres" where
  "stage_limit_stream input limit = res_bind (stage_count_arg ''$limit'' limit) (\<lambda>n. Inr (take n input))"

text \<open>\<^verbatim>\<open>Iterator::skip\<close> pulls what it discards: errors are lost, a panic is not.\<close>

definition skip_items :: "nat \<Rightarrow> doc_stream \<Rightarrow> doc_stream" where
  "skip_items n input = (case List.find (\<lambda>r. case r of Inl e \<Rightarrow> is_panic e | Inr _ \<Rightarrow> False) (take n input) of
     Some r \<Rightarrow> [r]
   | None \<Rightarrow> drop n input)"

definition stage_skip_stream :: "doc_stream \<Rightarrow> bson \<Rightarrow> doc_stream sres" where
  "stage_skip_stream input skip = res_bind (stage_count_arg ''$skip'' skip) (\<lambda>n. Inr (skip_items n input))"

definition stage_unwind_stream :: "doc_stream \<Rightarrow> bson \<Rightarrow> doc_stream sres" where
  "stage_unwind_stream input spec =
     res_bind (parse_unwind_spec spec) (\<lambda>(path, preserve_null, idx_field).
     Inr (concat (map (\<lambda>r. case r of Inl e \<Rightarrow> [Inl e] | Inr d \<Rightarrow> emit (unwind_single_doc d path preserve_null idx_field)) input)))"

definition add_fields_stream_doc :: "externs \<Rightarrow> doc \<Rightarrow> doc \<Rightarrow> doc sres" where
  "add_fields_stream_doc X spec d =
     res_bind (map_res (\<lambda>(field, e). res_bind (eval_agg X d e) (\<lambda>v. Inr (field, v))) spec) (\<lambda>evaluated.
     Inr (foldl (\<lambda>d (field, v). set_or_keep d field v) d evaluated))"

definition stage_add_fields_stream :: "externs \<Rightarrow> doc_stream \<Rightarrow> bson \<Rightarrow> doc_stream sres" where
  "stage_add_fields_stream X input fields_spec =
     res_bind (stage_doc ''$addFields'' fields_spec) (\<lambda>spec. Inr (map (\<lambda>r. res_bind r (add_fields_stream_doc X spec)) input))"

definition stage_unset_stream :: "doc_stream \<Rightarrow> bson \<Rightarrow> doc_stream sres" where
  "stage_unset_stream input spec =
     res_bind (unset_fields spec) (\<lambda>names. Inr (map (\<lambda>r. res_bind r (\<lambda>d. Inr (foldl unset_or_keep d names))) input))"

definition stage_replace_root_stream :: "externs \<Rightarrow> doc_stream \<Rightarrow> bson \<Rightarrow> doc_stream sres" where
  "stage_replace_root_stream X input spec = Inr (map (\<lambda>r. res_bind r (replace_root_doc X (new_root_expr spec))) input)"

definition redact_item :: "externs \<Rightarrow> bson \<Rightarrow> doc sres \<Rightarrow> doc sres option" where
  "redact_item X e r = (case r of
     Inl err \<Rightarrow> Some (Inl err)
   | Inr d \<Rightarrow> (case redact_doc X e d of
       Inr (Some redacted) \<Rightarrow> Some (Inr redacted)
     | Inr None \<Rightarrow> None
     | Inl err \<Rightarrow> Some (Inl err)))"

definition stage_redact_stream :: "externs \<Rightarrow> doc_stream \<Rightarrow> bson \<Rightarrow> doc_stream sres" where
  "stage_redact_stream X input e = Inr (List.map_filter (redact_item X e) input)"

section \<open>Blocking stages\<close>

definition collect_with_limit :: "externs \<Rightarrow> doc_stream \<Rightarrow> string \<Rightarrow> nat option \<Rightarrow> doc list sres" where
  "collect_with_limit X input stage_name limit =
     res_bind (collect_stream input) (\<lambda>docs. case limit of
       Some max_bytes \<Rightarrow>
         let estimated = sum_list (map (estimate_doc_bytes X) docs) in
         if max_bytes < estimated then Inl (Agg (MemoryLimitExceeded stage_name estimated max_bytes)) else Inr docs
     | None \<Rightarrow> Inr docs)"

definition blocking :: "externs \<Rightarrow> string \<Rightarrow> nat option \<Rightarrow> (doc list \<Rightarrow> doc list sres) \<Rightarrow> doc_stream \<Rightarrow> doc_stream sres" where
  "blocking X name memory_limit f input =
     res_bind (collect_with_limit X input name memory_limit) (\<lambda>docs. res_bind (f docs) (\<lambda>results. Inr (emit results)))"

definition default_memory_limit :: nat where
  "default_memory_limit = 100 * 1024 * 1024"

definition stage_sort_stream :: "externs \<Rightarrow> doc_stream \<Rightarrow> bson \<Rightarrow> nat option \<Rightarrow> bool \<Rightarrow> doc_stream sres" where
  "stage_sort_stream X input sort_spec memory_limit allow_disk_use =
     (if allow_disk_use
      then res_bind (external_sort X input sort_spec (opt_or default_memory_limit memory_limit)) (\<lambda>results. Inr (emit results))
      else blocking X ''$sort'' memory_limit (\<lambda>docs. stage_sort docs sort_spec) input)"

definition stage_group_stream :: "externs \<Rightarrow> doc_stream \<Rightarrow> bson \<Rightarrow> nat option \<Rightarrow> bool \<Rightarrow> doc_stream sres" where
  "stage_group_stream X input group_spec memory_limit allow_disk_use =
     (if allow_disk_use
      then res_bind (external_group X input group_spec (opt_or default_memory_limit memory_limit)) (\<lambda>results. Inr (emit results))
      else blocking X ''$group'' memory_limit (\<lambda>docs. stage_group X docs group_spec) input)"

definition top_indices :: "externs \<Rightarrow> (doc \<Rightarrow> doc \<Rightarrow> ordering) \<Rightarrow> nat \<Rightarrow> doc list \<Rightarrow> nat list" where
  "top_indices X cmp_docs limit docs =
     (let c = (\<lambda>a b. cmp_docs (docs ! a) (docs ! b)); indices = [0..<length docs];
          indices = (if limit < length indices then take limit (x_select_nth X c (limit - 1) indices) else indices)
      in sort_by c indices)"

definition stage_sort_limit_stream :: "externs \<Rightarrow> doc_stream \<Rightarrow> bson \<Rightarrow> bson \<Rightarrow> nat option \<Rightarrow> doc_stream sres" where
  "stage_sort_limit_stream X input sort_spec limit_spec memory_limit =
     res_bind (stage_doc ''$sort'' sort_spec) (\<lambda>sort_doc.
     res_bind (stage_count_arg ''$limit'' limit_spec) (\<lambda>limit.
     if limit = 0 then Inr []
     else res_bind (collect_with_limit X input ''$sort'' memory_limit) (\<lambda>docs.
       Inr (emit (map (\<lambda>i. docs ! i) (top_indices X (cmp_by_sort_fields (sort_fields sort_doc)) limit docs))))))"

section \<open>The indexes a pipeline can use\<close>

record index_provider =
  ip_sorted_scan :: "doc \<Rightarrow> nat \<Rightarrow> doc list option sres"
  ip_geo_near :: "string \<Rightarrow> f64 \<Rightarrow> f64 \<Rightarrow> nat option \<Rightarrow> f64 option \<Rightarrow> doc option \<Rightarrow> (doc \<times> f64) list option sres"

definition stage_geo_near_stream :: "externs \<Rightarrow> doc_stream \<Rightarrow> bson \<Rightarrow> doc_stream sres" where
  "stage_geo_near_stream X input spec =
     res_bind (collect_stream input) (\<lambda>docs. res_bind (stage_geo_near X docs spec) (\<lambda>results. Inr (emit results)))"

definition stage_geo_near_stream_indexed :: "externs \<Rightarrow> doc_stream \<Rightarrow> bson \<Rightarrow> index_provider option \<Rightarrow> doc_stream sres" where
  "stage_geo_near_stream_indexed X input spec idx_ctx =
     res_bind (stage_doc ''$geoNear'' spec) (\<lambda>gn_doc.
     let fallback = stage_geo_near_stream X input spec;
         g = geo_near_args gn_doc (opt_or ''dist'' (get_str gn_doc ''distanceField'')) in
     case (idx_ctx, Option.bind (doc_get gn_doc ''near'') (\<lambda>n. extract_lon_lat (Some n))) of
       (Some ctx, Some (lon, lat)) \<Rightarrow>
         (case ip_geo_near ctx (gn_key g) lon lat (gn_limit g) (gn_max g) (gn_query g) of
           Inr (Some scored) \<Rightarrow> Inr (emit (map (\<lambda>(d, dist). geo_result g d dist) scored))
         | Inl e \<Rightarrow> if is_panic e then Inl e else fallback
         | Inr None \<Rightarrow> fallback)
     | _ \<Rightarrow> fallback)"

definition try_index_sort_limit :: "index_provider \<Rightarrow> bson \<Rightarrow> bson \<Rightarrow> doc list option sres" where
  "try_index_sort_limit ctx sort_spec limit_spec = (case as_document sort_spec of
     None \<Rightarrow> Inr None
   | Some sort_doc \<Rightarrow>
       let limit = opt_or 0 (as_count limit_spec) in
       if limit = 0 then Inr None else ip_sorted_scan ctx sort_doc limit)"

section \<open>Running a pipeline\<close>

record pipeline_env =
  pe_resolver :: "resolver option"
  pe_index :: "index_provider option"
  pe_memory :: "nat option"
  pe_disk :: bool
  pe_vector :: "index_provider option \<Rightarrow> doc_stream \<Rightarrow> bson \<Rightarrow> doc_stream sres"

definition execute_stage_stream :: "externs \<Rightarrow> runner \<Rightarrow> pipeline_env \<Rightarrow> doc_stream \<Rightarrow> doc \<Rightarrow> doc_stream sres" where
  "execute_stage_stream X sub E input stage = (case stage of
     [] \<Rightarrow> Inl (Agg (InvalidStage ''Empty stage''))
   | (name, v) # _ \<Rightarrow>
      let ml = pe_memory E in
      if name = ''$match'' then stage_match_stream X input v
      else if name = ''$project'' then stage_project_stream X input v
      else if name = ''$limit'' then stage_limit_stream input v
      else if name = ''$skip'' then stage_skip_stream input v
      else if name = ''$sort'' then stage_sort_stream X input v ml (pe_disk E)
      else if name = ''$group'' then stage_group_stream X input v ml (pe_disk E)
      else if name = ''$count'' then blocking X name ml (\<lambda>docs. stage_count docs v) input
      else if name = ''$unwind'' then stage_unwind_stream input v
      else if name = ''$addFields'' \<or> name = ''$set'' then stage_add_fields_stream X input v
      else if name = ''$unset'' then stage_unset_stream input v
      else if name = ''$replaceRoot'' \<or> name = ''$replaceWith'' then stage_replace_root_stream X input v
      else if name = ''$sample'' then blocking X name ml (\<lambda>docs. stage_sample X docs v) input
      else if name = ''$redact'' then stage_redact_stream X input v
      else if name = ''$sortByCount'' then blocking X name ml (\<lambda>docs. stage_sort_by_count X docs v) input
      else if name = ''$bucket'' then blocking X name ml (\<lambda>docs. stage_bucket X docs v) input
      else if name = ''$bucketAuto'' then blocking X name ml (\<lambda>docs. stage_bucket_auto X docs v) input
      else if name = ''$lookup'' then blocking X name ml (\<lambda>docs. stage_lookup X sub docs v (pe_resolver E)) input
      else if name = ''$graphLookup'' then blocking X name ml (\<lambda>docs. stage_graph_lookup X docs v (pe_resolver E)) input
      else if name = ''$facet'' then blocking X name ml (\<lambda>docs. stage_facet sub docs v) input
      else if name = ''$setWindowFields'' then blocking X name ml (\<lambda>docs. stage_set_window_fields X docs v) input
      else if name = ''$unionWith'' then blocking X name ml (\<lambda>docs. stage_union_with sub docs v (pe_resolver E)) input
      else if name = ''$out'' \<or> name = ''$merge'' then Inr input
      else if name = ''$vectorSearch'' then pe_vector E (pe_index E) input v
      else if name = ''$geoNear'' then stage_geo_near_stream_indexed X input v (pe_index E)
      else Inl (Agg (InvalidStage (''Unknown stage: '' @ name))))"

definition sort_then_limit :: "externs \<Rightarrow> pipeline_env \<Rightarrow> doc_stream \<Rightarrow> bson \<Rightarrow> bson \<Rightarrow> doc_stream sres" where
  "sort_then_limit X E input sort_spec limit_spec =
     res_bind (case pe_index E of Some ctx \<Rightarrow> try_index_sort_limit ctx sort_spec limit_spec | None \<Rightarrow> Inr None) (\<lambda>scan.
     case scan of
       Some docs \<Rightarrow> Inr (emit docs)
     | None \<Rightarrow> stage_sort_limit_stream X input sort_spec limit_spec (pe_memory E))"

fun run_stages :: "externs \<Rightarrow> runner \<Rightarrow> pipeline_env \<Rightarrow> doc list \<Rightarrow> doc_stream \<Rightarrow> doc_stream sres" where
  "run_stages X sub E [] input = Inr input"
| "run_stages X sub E [stage] input = execute_stage_stream X sub E input stage"
| "run_stages X sub E (stage # after # rest) input = (case (stage, after) of
     ((sn, sv) # _, (ln, lv) # _) \<Rightarrow>
       if sn = ''$sort'' \<and> ln = ''$limit''
       then res_bind (sort_then_limit X E input sv lv) (\<lambda>s. run_stages X sub E rest s)
       else res_bind (execute_stage_stream X sub E input stage) (\<lambda>s. run_stages X sub E (after # rest) s)
   | _ \<Rightarrow> res_bind (execute_stage_stream X sub E input stage) (\<lambda>s. run_stages X sub E (after # rest) s))"

text \<open>\<^verbatim>\<open>$vectorSearch\<close> and \<^verbatim>\<open>$geoNear\<close> are refused after the first position.\<close>

definition misplaced_stage :: "doc list \<Rightarrow> string option" where
  "misplaced_stage pipeline = List.find (\<lambda>name. name = ''$vectorSearch'' \<or> name = ''$geoNear'')
     (List.map_filter (\<lambda>stage. case stage of [] \<Rightarrow> None | (name, _) # _ \<Rightarrow> Some name) (tl pipeline))"

definition run_pipeline_stages :: "externs \<Rightarrow> runner \<Rightarrow> pipeline_env \<Rightarrow> doc_stream \<Rightarrow> doc list \<Rightarrow> doc_stream sres" where
  "run_pipeline_stages X sub E initial pipeline = (case misplaced_stage pipeline of
     Some name \<Rightarrow> Inl (Agg (InvalidStage (name @ '' must be the first stage in the pipeline'')))
   | None \<Rightarrow> run_stages X sub E pipeline initial)"

text \<open>A sub-pipeline has the resolver of the pipeline and nothing else of its environment.\<close>

definition sub_env :: "pipeline_env \<Rightarrow> pipeline_env" where
  "sub_env E = E\<lparr>pe_index := None, pe_memory := None, pe_disk := False\<rparr>"

definition aggregate_step :: "externs \<Rightarrow> pipeline_env \<Rightarrow> runner \<Rightarrow> runner" where
  "aggregate_step X E sub docs pipeline =
     res_bind (run_pipeline_stages X sub (sub_env E) (emit docs) pipeline) collect_stream"

fun aggregate_with_resolver :: "externs \<Rightarrow> pipeline_env \<Rightarrow> nat \<Rightarrow> runner" where
  "aggregate_with_resolver X E 0 = (\<lambda>docs pipeline. Inl StackOverflow)"
| "aggregate_with_resolver X E (Suc depth) = aggregate_step X E (aggregate_with_resolver X E depth)"

definition split_write_stage :: "doc list \<Rightarrow> doc list \<times> doc option" where
  "split_write_stage pipeline =
     (if pipeline \<noteq> [] \<and> (case List.last pipeline of (name, _) # _ \<Rightarrow> name = ''$out'' \<or> name = ''$merge'' | [] \<Rightarrow> False)
      then (butlast pipeline, Some (List.last pipeline))
      else (pipeline, None))"

text \<open>The writes of the last stage: the two operations of the database return its new state.\<close>

definition execute_write :: "'db \<Rightarrow> (string \<Rightarrow> doc list \<Rightarrow> 'db sres) \<Rightarrow> (string \<Rightarrow> string list \<Rightarrow> doc list \<Rightarrow> string \<Rightarrow> 'db sres) \<Rightarrow> doc option \<Rightarrow> doc list \<Rightarrow> 'db sres" where
  "execute_write db drop_and_insert upsert write_stage results = (case write_stage of
     None \<Rightarrow> Inr db
   | Some [] \<Rightarrow> Inl (Agg (InvalidStage ''empty write stage''))
   | Some ((name, v) # _) \<Rightarrow>
       if name = ''$out'' then execute_out drop_and_insert v results
       else if name = ''$merge'' then execute_merge upsert v results
       else Inr db)"

definition aggregate_with_db_collection_streaming_opts ::
  "externs \<Rightarrow> pipeline_env \<Rightarrow> nat \<Rightarrow> 'db \<Rightarrow> (string \<Rightarrow> doc list \<Rightarrow> 'db sres) \<Rightarrow> (string \<Rightarrow> string list \<Rightarrow> doc list \<Rightarrow> string \<Rightarrow> 'db sres) \<Rightarrow>
   doc_stream \<Rightarrow> doc list \<Rightarrow> (doc list \<times> 'db) sres" where
  "aggregate_with_db_collection_streaming_opts X E depth db drop_and_insert upsert docs pipeline =
     (case split_write_stage pipeline of (main_pipeline, write_stage) \<Rightarrow>
       res_bind (run_pipeline_stages X (aggregate_with_resolver X E depth) E docs main_pipeline) (\<lambda>stream.
       res_bind (collect_stream stream) (\<lambda>results.
       res_bind (execute_write db drop_and_insert upsert write_stage results) (\<lambda>db'. Inr (results, db')))))"

text \<open>The variant over documents in memory, without a memory limit and without disk use.\<close>

definition aggregate_with_db_collection ::
  "externs \<Rightarrow> pipeline_env \<Rightarrow> nat \<Rightarrow> 'db \<Rightarrow> (string \<Rightarrow> doc list \<Rightarrow> 'db sres) \<Rightarrow> (string \<Rightarrow> string list \<Rightarrow> doc list \<Rightarrow> string \<Rightarrow> 'db sres) \<Rightarrow>
   doc list \<Rightarrow> doc list \<Rightarrow> (doc list \<times> 'db) sres" where
  "aggregate_with_db_collection X E depth db drop_and_insert upsert docs pipeline =
     aggregate_with_db_collection_streaming_opts X (E\<lparr>pe_memory := None, pe_disk := False\<rparr>) depth db drop_and_insert upsert (emit docs) pipeline"

section \<open>Optimising a pipeline\<close>

definition merge_match_filters :: "doc \<Rightarrow> doc \<Rightarrow> doc" where
  "merge_match_filters a b =
     (if list_ex (\<lambda>(k, _). doc_get a k \<noteq> None) b
      then [(''$and'', Array [Document a, Document b])]
      else foldl (\<lambda>m (k, v). doc_insert k v m) a b)"

fun leading_matches :: "doc option \<Rightarrow> doc list \<Rightarrow> doc option \<times> doc list" where
  "leading_matches merged [] = (merged, [])"
| "leading_matches merged (stage # rest) = (case stage of
     (name, _) # _ \<Rightarrow>
       (if name = ''$match''
        then (case get_doc stage ''$match'' of
          Some filter_doc \<Rightarrow> leading_matches (Some (case merged of None \<Rightarrow> filter_doc | Some prev \<Rightarrow> merge_match_filters prev filter_doc)) rest
        | None \<Rightarrow> (merged, stage # rest))
        else (merged, stage # rest))
   | [] \<Rightarrow> (merged, stage # rest))"

definition optimize_pipeline :: "doc list \<Rightarrow> doc option \<times> doc list" where
  "optimize_pipeline pipeline = leading_matches None pipeline"

end
