(* ===== verification/Pipeline_Props.thy ===== *)
theory Pipeline_Props
  imports Pipeline
begin

text \<open>
  The theorems on pipelines announced in \<open>Pipeline\<close>, and what the use of an index changes: a sort and a limit that an index
  answers forget every stage before them.
\<close>

section \<open>Merging leading matches\<close>

lemma run_stages_Cons:
  assumes "\<And>v r. stage \<noteq> (''$sort'', v) # r"
  shows "run_stages X sub E (stage # rest) input = res_bind (execute_stage_stream X sub E input stage) (\<lambda>s. run_stages X sub E rest s)"
proof (cases rest)
  case Nil
  then show ?thesis by (cases "execute_stage_stream X sub E input stage") simp_all
next
  case (Cons a rest')
  with assms show ?thesis by (auto split: list.splits)
qed

lemma eval_query_merge:
  assumes "distinct (map fst a)" and "distinct (map fst b)"
  shows "eval_query X d (merge_match_filters a b) = res_bind (eval_query X d a) (\<lambda>t. if t then eval_query X d b else Inr False)"
proof (cases "list_ex (\<lambda>(k, _). doc_get a k \<noteq> None) b")
  case True
  then show ?thesis
    using eval_and_docs [of X d "[a, b]"]
    by (simp add: merge_match_filters_def eval_query_logical all_res_concat eval_query_append del: all_res.simps)
next
  case False
  then have "fst ` set b \<inter> fst ` set a = {}" by (force simp: list_ex_iff map_of_eq_None_iff)
  then have "distinct (map fst (a @ b))" using assms by auto
  then show ?thesis using False by (simp add: merge_match_filters_def foldl_al_insert eval_query_append)
qed

lemma distinct_merge: "distinct (map fst a) \<Longrightarrow> distinct (map fst b) \<Longrightarrow> distinct (map fst (merge_match_filters a b))"
proof -
  assume a: "distinct (map fst a)"
  have "distinct (map fst (foldl (\<lambda>m (k, v). doc_insert k v m) a b))" for b
    using a by (induction b arbitrary: a) auto
  then show ?thesis by (simp add: merge_match_filters_def)
qed

lemma match_item_merge:
  assumes "\<And>d. eval_query X d m = res_bind (eval_query X d a) (\<lambda>t. if t then eval_query X d b else Inr False)"
  shows "List.map_filter (match_item X m) input = List.map_filter (match_item X b) (List.map_filter (match_item X a) input)"
  by (induction input) (auto simp: List.map_filter_simps match_item_def assms split: sum.splits)

lemma stage_match_stream_doc: "stage_match_stream X input (Document f) = Inr (List.map_filter (match_item X f) input)"
  by (simp add: stage_match_stream_def stage_doc_def)

lemma match_stage:
  assumes "doc_ok stage" and "stage = (''$match'', v) # r" and "get_doc stage ''$match'' = Some f"
  shows "v = Document f \<and> distinct (map fst f)"
  using assms by (cases v) (auto simp: doc_ok_def)

lemma leading_matches_sound:
  assumes "list_all doc_ok pipeline" and "distinct (map fst m)"
  shows "\<exists>f rest. leading_matches (Some m) pipeline = (Some f, rest) \<and>
    res_bind (stage_match_stream X input (Document m)) (\<lambda>s. run_stages X sub E pipeline s) =
    res_bind (stage_match_stream X input (Document f)) (\<lambda>s. run_stages X sub E rest s)"
  using assms
proof (induction pipeline arbitrary: m)
  case (Cons stage pipeline)
  show ?case
  proof (cases "\<exists>v r f. stage = (''$match'', v) # r \<and> get_doc stage ''$match'' = Some f")
    case True
    then obtain v r f where st: "stage = (''$match'', v) # r" "get_doc stage ''$match'' = Some f" by blast
    then have f: "v = Document f" "distinct (map fst f)" using match_stage [of stage v r f] Cons.prems(1) by simp_all
    have "res_bind (stage_match_stream X input (Document m)) (\<lambda>s. run_stages X sub E (stage # pipeline) s) =
        res_bind (stage_match_stream X input (Document (merge_match_filters m f))) (\<lambda>s. run_stages X sub E pipeline s)"
      using match_item_merge [OF eval_query_merge [OF Cons.prems(2) f(2)]]
      by (simp add: stage_match_stream_doc run_stages_Cons execute_stage_stream_def st(1) f(1) Let_def)
    then show ?thesis
      using Cons.IH [OF _ distinct_merge [OF Cons.prems(2) f(2)]] Cons.prems(1) st by simp
  next
    case False
    then have "leading_matches (Some m) (stage # pipeline) = (Some m, stage # pipeline)"
      by (auto split: list.split option.split)
    then show ?thesis by blast
  qed
qed simp


definition sample_env :: pipeline_env where
  "sample_env = \<lparr>pe_resolver = None, pe_index = None, pe_memory = None, pe_disk = False, pe_vector = (\<lambda>_ input _. Inr input)\<rparr>"


section \<open>Streaming and batch stages\<close>

lemma res_bind_Inr: "res_bind r Inr = r"
  by (cases r) simp_all

lemma collect_map: "collect_stream (map (\<lambda>r. res_bind r f) (emit docs)) = map_res f docs"
  unfolding collect_stream_def by (induction docs) simp_all

lemma collect_emit [simp]: "collect_stream (emit docs) = Inr docs"
  unfolding collect_stream_def by (induction docs) simp_all

lemma map_res_pure: "map_res (\<lambda>x. Inr (f x)) xs = Inr (map f xs)"
  by (induction xs) simp_all

lemma collect_concat: "collect_stream (concat (map (\<lambda>d. emit (f d)) docs)) = Inr (concat (map f docs))"
  using collect_emit [of "concat (map f docs)"] by (simp add: map_concat comp_def)

lemma doc_remove_insert: "k \<noteq> j \<Longrightarrow> doc_insert k v (doc_remove j d) = doc_remove j (doc_insert k v d)"
  unfolding al_remove_def using filter_al_insert [of "\<lambda>k. k \<noteq> j" k v d] by simp

lemma doc_removes_insert:
  "k \<notin> fst ` set xs \<Longrightarrow> doc_insert k v (foldl (\<lambda>nd (field, _). doc_remove field nd) d xs) = foldl (\<lambda>nd (field, _). doc_remove field nd) (doc_insert k v d) xs"
  by (induction xs arbitrary: d) (auto simp: doc_remove_insert)

lemma project_exclude_stream:
  assumes "distinct (map fst proj)"
  shows "fold_res (project_exclude X d) nd proj =
    (let rest = filter (\<lambda>(field, _). field \<noteq> ''_id'') proj in
     res_bind (map_res (\<lambda>(field, v). res_bind (eval_agg X d v) (\<lambda>w. Inr (field, w))) (filter (\<lambda>(_, v). \<not> is_exclusion v) rest)) (\<lambda>computed.
     Inr (foldl (\<lambda>nd (field, w). doc_insert field w nd) (foldl (\<lambda>nd (field, _). doc_remove field nd) nd (filter (\<lambda>(_, v). is_exclusion v) rest)) computed)))"
  using assms
proof (induction proj arbitrary: nd)
  case (Cons p proj)
  obtain field v where p: "p = (field, v)" by fastforce
  let ?excl = "filter (\<lambda>(_, v). is_exclusion v) (filter (\<lambda>(field, _). field \<noteq> ''_id'') proj)"
  have fresh: "field \<notin> fst ` set ?excl" using Cons.prems p by (auto simp: image_iff)
  show ?case
  proof (cases "field = ''_id'' \<or> is_exclusion v")
    case True
    then show ?thesis using Cons by (auto simp: p project_exclude_def Let_def simp del: filter_filter)
  next
    case False
    then show ?thesis using Cons
      by (cases "evaluate_expression X d v") (simp_all add: p project_exclude_def Let_def doc_removes_insert [OF fresh, symmetric] res_bind_assoc del: filter_filter)
  qed
qed (simp add: Let_def)

lemma project_stream_batch: "distinct (map fst proj) \<Longrightarrow> project_stream_doc X proj = project_doc X proj"
  by (rule ext) (simp add: project_stream_doc_def project_doc_def project_exclude_stream Let_def res_bind_assoc)

lemma add_fields_stream_batch: "add_fields_stream_doc X spec = add_fields_doc X spec"
proof
  fix d
  have "fold_res (\<lambda>nd (field, e). res_bind (eval_agg X d e) (\<lambda>v. Inr (set_or_keep nd field v))) nd spec =
      res_bind (map_res (\<lambda>(field, e). res_bind (eval_agg X d e) (\<lambda>v. Inr (field, v))) spec) (\<lambda>evaluated.
      Inr (foldl (\<lambda>d (field, v). set_or_keep d field v) nd evaluated))" for nd
    by (induction spec arbitrary: nd) (auto simp: res_bind_assoc intro!: res_bind_cong)
  then show "add_fields_stream_doc X spec d = add_fields_doc X spec d" by (simp add: add_fields_stream_doc_def add_fields_doc_def)
qed

lemma redact_stream_batch: "collect_stream (List.map_filter (redact_item X e) (emit docs)) = stage_redact X docs e"
  unfolding collect_stream_def stage_redact_def
  by (induction docs) (auto simp: List.map_filter_simps redact_item_def res_bind_assoc res_bind_def split: sum.split option.split)

lemma match_stream_batch:
  "\<forall>d \<in> set docs. is_ok (eval_query X d f) \<Longrightarrow> collect_stream (List.map_filter (match_item X f) (emit docs)) = filter_res (\<lambda>d. query_or_false (eval_query X d f)) docs"
proof (induction docs)
  case (Cons d docs)
  then obtain b where "eval_query X d f = Inr b" by (cases "eval_query X d f") auto
  with Cons show ?case by (simp add: collect_stream_def List.map_filter_simps match_item_def query_or_false_def res_bind_Inr)
qed (simp add: collect_stream_def List.map_filter_simps)

lemma skip_emit: "skip_items n (emit docs) = emit (drop n docs)"
proof -
  have "List.find (\<lambda>r. case r of Inl e \<Rightarrow> is_panic e | Inr _ \<Rightarrow> False) (emit ds) = None" for ds
    by (induction ds) auto
  from this [of "take n docs"] show ?thesis by (simp add: skip_items_def take_map drop_map)
qed



section \<open>Sort and limit\<close>

text \<open>What \<^verbatim>\<open>select_nth_unstable_by\<close> documents: a permutation with nothing before the position beyond anything after it.\<close>

definition selects :: "externs \<Rightarrow> bool" where
  "selects X \<longleftrightarrow> (\<forall>A c k is. total_preorder_on A c \<longrightarrow> set is \<subseteq> A \<longrightarrow> k < length is \<longrightarrow>
     mset (x_select_nth X c k is) = mset is \<and>
     (\<forall>a \<in> set (take (Suc k) (x_select_nth X c k is)). \<forall>b \<in> set (drop (Suc k) (x_select_nth X c k is)). c a b \<noteq> Greater))"

lemma selects_sample: "selects sample_externs"
  unfolding selects_def
proof (intro allI impI conjI ballI)
  fix A c k and "is" :: "nat list" and a b
  assume "total_preorder_on A c" "set is \<subseteq> A" "k < length is"
    and a: "a \<in> set (take (Suc k) (x_select_nth sample_externs c k is))" and b: "b \<in> set (drop (Suc k) (x_select_nth sample_externs c k is))"
  then have "sorted_by c (take (Suc k) (sort_by c is) @ drop (Suc k) (sort_by c is))" using sorted_sort_by by (metis append_take_drop_id)
  then show "c a b \<noteq> Greater" using a b unfolding sorted_wrt_append by (simp add: sample_externs_def)
qed (simp add: sample_externs_def)

lemma top_indices_first:
  assumes sel: "selects X" and tp: "total_preorder_on A cmp_docs" and A: "set docs \<subseteq> A" and limit: "0 < limit"
  defines "c \<equiv> \<lambda>a b. cmp_docs (docs ! a) (docs ! b)"
  shows "\<exists>rest. mset (top_indices X cmp_docs limit docs @ rest) = mset [0..<length docs] \<and> sorted_by c (top_indices X cmp_docs limit docs @ rest) \<and>
    length (top_indices X cmp_docs limit docs) = min limit (length docs)"
proof -
  have tpc: "total_preorder_on {0..<length docs} c" unfolding c_def by (rule total_preorder_on_image [OF tp]) (use A in auto)
  show ?thesis
  proof (cases "limit < length docs")
    case True
    define r where "r = x_select_nth X c (limit - 1) [0..<length docs]"
    have S: "Suc (limit - 1) = limit" using limit by simp
    have m: "mset r = mset [0..<length docs]"
      and le: "\<forall>a \<in> set (take limit r). \<forall>b \<in> set (drop limit r). c a b \<noteq> Greater"
      using sel [unfolded selects_def, rule_format, OF tpc, of "[0..<length docs]" "limit - 1"] True S by (auto simp: r_def)
    have lr: "length r = length docs" using arg_cong [OF m, of size] by simp
    have sr: "set r = {0..<length docs}" using mset_eq_setD [OF m] by simp
    have st: "set (take limit r) \<subseteq> {0..<length docs}" "set (drop limit r) \<subseteq> {0..<length docs}" using sr set_take_subset set_drop_subset by fastforce+
    have top: "top_indices X cmp_docs limit docs = sort_by c (take limit r)" using True by (simp add: top_indices_def c_def [symmetric] r_def Let_def)
    have "sorted_by c (sort_by c (take limit r) @ sort_by c (drop limit r))"
      using sorted_sort_by [OF tpc st(1)] sorted_sort_by [OF tpc st(2)] le by (simp add: sorted_wrt_append)
    moreover have "mset (sort_by c (take limit r) @ sort_by c (drop limit r)) = mset r"
      by (metis append_take_drop_id mset_append mset_sort_by)
    moreover have "length (sort_by c (take limit r)) = min limit (length docs)" using lr True by simp
    ultimately show ?thesis unfolding top using m by metis
  next
    case False
    then have top: "top_indices X cmp_docs limit docs = sort_by c [0..<length docs]" by (simp add: top_indices_def c_def [symmetric] Let_def)
    have "sorted_by c (sort_by c [0..<length docs] @ [])" using sorted_sort_by [OF tpc, of "[0..<length docs]"] by simp
    then show ?thesis unfolding top using False by (intro exI [of _ "[]"]) simp
  qed
qed

text \<open>
  C38. The fused \<^verbatim>\<open>$sort\<close> and \<^verbatim>\<open>$limit\<close> returns the first documents of the sort: on documents without NaN among the sort
  fields it yields as many as the sort followed by the limit, all from the stream, and position by position
  they compare as equal.
\<close>

theorem sort_limit_is_top:
  assumes sel: "selects X" and docs: "\<forall>d \<in> set docs. sortable sort_doc d" and limit: "as_count limit_spec = Some limit"
  shows "\<exists>ds es. stage_sort_limit_stream X (emit docs) (Document sort_doc) limit_spec None = Inr (emit ds) \<and>
    res_bind (stage_sort docs (Document sort_doc)) (\<lambda>s. stage_limit s limit_spec) = Inr es \<and>
    length ds = length es \<and> set ds \<subseteq> set docs \<and>
    (\<forall>i < length ds. cmp_by_sort_fields (sort_fields sort_doc) (ds ! i) (es ! i) = Equal)"
proof -
  define cd where "cd = cmp_by_sort_fields (sort_fields sort_doc)"
  define A where "A = {d. list_all (\<lambda>(field, _). not_nan (get_value d field)) (sort_fields sort_doc)}"
  have tp: "total_preorder_on A cd" unfolding A_def cd_def by (rule cmp_by_sort_fields_preorder)
  have A: "set docs \<subseteq> A" using docs by (auto simp: A_def sortable_def sort_fields_def list_all_iff)
  have batch: "res_bind (stage_sort docs (Document sort_doc)) (\<lambda>s. stage_limit s limit_spec) = Inr (take limit (sort_by cd docs))"
    using limit by (simp add: stage_sort_def stage_doc_def stage_limit_def stage_count_arg_def cd_def)
  have stream: "stage_sort_limit_stream X (emit docs) (Document sort_doc) limit_spec None =
      Inr (if limit = 0 then [] else emit (map (\<lambda>i. docs ! i) (top_indices X cd limit docs)))"
    using limit by (simp add: stage_sort_limit_stream_def stage_doc_def stage_count_arg_def collect_with_limit_def cd_def del: map_map)
  show ?thesis
  proof (cases "limit = 0")
    case True
    then show ?thesis unfolding stream batch by simp
  next
    case False
    then obtain rest where rest: "mset (top_indices X cd limit docs @ rest) = mset [0..<length docs]"
      "sorted_by (\<lambda>a b. cd (docs ! a) (docs ! b)) (top_indices X cd limit docs @ rest)" "length (top_indices X cd limit docs) = min limit (length docs)"
      using top_indices_first [OF sel tp A, of limit] by auto
    define all where "all = map (\<lambda>i. docs ! i) (top_indices X cd limit docs @ rest)"
    define ds where "ds = map (\<lambda>i. docs ! i) (top_indices X cd limit docs)"
    have "mset all = image_mset (\<lambda>i. docs ! i) (mset [0..<length docs])" unfolding all_def using rest(1) by (metis mset_map)
    also have "\<dots> = mset docs" by (metis map_nth mset_map)
    finally have m: "mset all = mset docs" .
    have sorted: "sorted_by cd all" unfolding all_def sorted_wrt_map using rest(2) .
    have sa: "set all \<subseteq> A" "set all = set docs" using A mset_eq_setD [OF m] by simp_all
    have "cd (all ! i) (sort_by cd docs ! i) = Equal" if "i < length all" for i
      using sorted_by_unique [OF tp sa(1) sorted sorted_sort_by [OF tp A] _ that] m by simp
    moreover have "ds ! i = all ! i" "i < length all" if "i < length ds" for i using that by (simp_all add: ds_def all_def nth_append)
    moreover have lds: "length ds = min limit (length docs)" using rest(3) by (simp add: ds_def)
    moreover have "set ds \<subseteq> set docs" unfolding sa(2) [symmetric] by (auto simp: ds_def all_def)
    ultimately show ?thesis unfolding stream batch using False by (intro exI [of _ ds] exI [of _ "take limit (sort_by cd docs)"]) (auto simp: ds_def cd_def)
  qed
qed

theorem sort_limit_is_top_witness:
  "\<exists>ds es. stage_sort_limit_stream sample_externs (emit three_docs) (Document [(''k'', Int32 1)]) (Int32 2) None = Inr (emit ds) \<and>
    res_bind (stage_sort three_docs (Document [(''k'', Int32 1)])) (\<lambda>s. stage_limit s (Int32 2)) = Inr es \<and> length ds = length es \<and> set ds \<subseteq> set three_docs"
proof -
  have "\<forall>d \<in> set three_docs. sortable [(''k'', Int32 1)] d" by (simp add: sortable_def) code_simp
  from sort_limit_is_top [OF selects_sample this, of "Int32 2" 2] show ?thesis by auto
qed

section \<open>Indexes\<close>

text \<open>
  C39. A sort and a limit that an index can answer forget the stages before them: the documents of the sorted
  scan replace the stream, whatever it holds.
\<close>

theorem indexed_sort_limit_ignores_input:
  assumes "pe_index E = Some ctx" and "ip_sorted_scan ctx sort_doc n = Inr (Some scanned)"
    and "as_count limit_spec = Some n" and "0 < n"
  shows "run_stages X sub E [[(''$match'', Document f)], [(''$sort'', Document sort_doc)], [(''$limit'', limit_spec)]] input = Inr (emit scanned)"
  using assms by (simp add: execute_stage_stream_def stage_match_stream_doc sort_then_limit_def try_index_sort_limit_def)

definition sample_index :: index_provider where
  "sample_index = \<lparr>ip_sorted_scan = (\<lambda>_ _. Inr (Some [[(''a'', Int32 7)]])), ip_geo_near = (\<lambda>_ _ _ _ _ _. Inr None)\<rparr>"

theorem indexed_sort_limit_ignores_input_witness:
  "run_stages sample_externs (\<lambda>_ _. Inr []) (sample_env\<lparr>pe_index := Some sample_index\<rparr>)
     [[(''$match'', Document [(''a'', Int32 1)])], [(''$sort'', Document [(''a'', Int32 1)])], [(''$limit'', Int32 1)]] [Inr [(''a'', Int32 1)]] = Inr [Inr [(''a'', Int32 7)]]"
proof -
  have "ip_sorted_scan sample_index [(''a'', Int32 1)] 1 = Inr (Some [[(''a'', Int32 7)]])" by (simp add: sample_index_def)
  from indexed_sort_limit_ignores_input [OF _ this, of "sample_env\<lparr>pe_index := Some sample_index\<rparr>" "Int32 1"] show ?thesis by simp
qed

section \<open>Nested pipelines\<close>

fun plain_bson :: "bson \<Rightarrow> bool" where
  "plain_bson (Document d) \<longleftrightarrow> list_all (\<lambda>(k, v). k \<noteq> ''let'' \<and> plain_bson v) d"
| "plain_bson (Array xs) \<longleftrightarrow> list_all plain_bson xs"
| "plain_bson _ \<longleftrightarrow> True"

abbreviation pipeline_nodes :: "doc list \<Rightarrow> nat" where
  "pipeline_nodes pipeline \<equiv> bson_nodes (Array (map Document pipeline))"

definition agrees :: "nat \<Rightarrow> runner \<Rightarrow> runner \<Rightarrow> bool" where
  "agrees n f g \<longleftrightarrow> (\<forall>docs p. pipeline_nodes p < n \<longrightarrow> list_all (\<lambda>s. plain_bson (Document s)) p \<longrightarrow> f docs p = g docs p)"

lemma lookup_stages_nodes: "pipeline_nodes (lookup_stages arr) \<le> bson_nodes (Array arr)"
proof (induction arr)
  case (Cons v arr)
  then show ?case by (cases v) (simp_all add: lookup_stages_def List.map_filter_simps)
qed (simp add: lookup_stages_def List.map_filter_simps)

lemma lookup_stages_plain: "list_all plain_bson arr \<Longrightarrow> list_all (\<lambda>s. plain_bson (Document s)) (lookup_stages arr)"
proof (induction arr)
  case (Cons v arr)
  then show ?case by (cases v) (simp_all add: lookup_stages_def List.map_filter_simps)
qed (simp add: lookup_stages_def List.map_filter_simps)

lemma agrees_stages:
  assumes "agrees (bson_nodes (Document d)) f g" and "plain_bson (Document d)" and "(k, Array arr) \<in> set d"
  shows "f docs (lookup_stages arr) = g docs (lookup_stages arr)"
proof -
  have "pipeline_nodes (lookup_stages arr) < bson_nodes (Document d)"
    using lookup_stages_nodes [of arr] bson_nodes_field [OF assms(3)] by (rule le_less_trans)
  moreover have "list_all plain_bson arr" using assms(2,3) by (auto simp: list_all_iff)
  ultimately show ?thesis using assms(1) lookup_stages_plain unfolding agrees_def by blast
qed

lemma agrees_lookup:
  assumes "agrees (bson_nodes v) f g" and "plain_bson v"
  shows "stage_lookup X f docs v R = stage_lookup X g docs v R"
proof (cases v)
  case (Document d)
  have nolet: "doc_get d ''let'' = None" using assms(2) by (auto simp: Document list_all_iff map_of_eq_None_iff)
  have "f docs (lookup_stages arr) = g docs (lookup_stages arr)" if "get_arr d ''pipeline'' = Some arr" for docs arr
  proof -
    have "doc_get d ''pipeline'' = Some (Array arr)" using that by (auto simp: bind_eq_Some_conv)
    then show ?thesis using agrees_stages [of d f g _ arr] assms Document map_of_SomeD by metis
  qed
  then have "stage_lookup_pipeline X f docs d R = stage_lookup_pipeline X g docs d R"
    unfolding stage_lookup_pipeline_def Let_def nolet by (intro res_bind_cong refl) (simp add: required_def)
  then show ?thesis by (simp add: stage_lookup_def stage_doc_def Document)
qed (simp_all add: stage_lookup_def stage_doc_def)

lemma agrees_facet:
  assumes "agrees (bson_nodes v) f g" and "plain_bson v"
  shows "stage_facet f docs v = stage_facet g docs v"
proof (cases v)
  case (Document d)
  have step: "f docs (lookup_stages arr) = g docs (lookup_stages arr)" if "(k, Array arr) \<in> set d" for k arr
    using agrees_stages [OF _ _ that] assms Document by metis
  have "fold_res (\<lambda>result (name, pipeline_bson).
         res_bind (ok_or (Agg (InvalidStage (''$facet.'' @ name @ '' must be an array''))) (as_array_opt pipeline_bson)) (\<lambda>arr.
         res_bind (f docs (lookup_stages arr)) (\<lambda>rows. Inr (doc_insert name (Array (map Document rows)) result)))) [] d =
      fold_res (\<lambda>result (name, pipeline_bson).
         res_bind (ok_or (Agg (InvalidStage (''$facet.'' @ name @ '' must be an array''))) (as_array_opt pipeline_bson)) (\<lambda>arr.
         res_bind (g docs (lookup_stages arr)) (\<lambda>rows. Inr (doc_insert name (Array (map Document rows)) result)))) [] d"
    by (intro fold_res_cong refl) (auto simp: step intro!: res_bind_cong)
  then show ?thesis by (simp add: stage_facet_def stage_doc_def Document)
qed (simp_all add: stage_facet_def stage_doc_def)

lemma agrees_union:
  assumes "agrees (bson_nodes v) f g" and "plain_bson v"
  shows "stage_union_with f docs v R = stage_union_with g docs v R"
proof (cases v)
  case (Document d)
  have "f docs (lookup_stages arr) = g docs (lookup_stages arr)" if "get_arr d ''pipeline'' = Some arr" for docs arr
  proof -
    have "doc_get d ''pipeline'' = Some (Array arr)" using that by (auto simp: bind_eq_Some_conv)
    then show ?thesis using agrees_stages [of d f g _ arr] assms Document map_of_SomeD by metis
  qed
  then show ?thesis
    by (cases "get_arr d ''pipeline''") (auto simp: stage_union_with_def Document res_bind_assoc lookup_stages_def intro!: res_bind_cong)
qed (simp_all add: stage_union_with_def)

lemma agrees_execute:
  assumes "agrees (bson_nodes (Document stage)) f g" and "plain_bson (Document stage)"
  shows "execute_stage_stream X f E input stage = execute_stage_stream X g E input stage"
proof (cases stage)
  case (Cons p rest)
  obtain name v where p: "p = (name, v)" by fastforce
  have "agrees (bson_nodes v) f g" "plain_bson v" using assms by (auto simp: agrees_def Cons p)
  note eqs = agrees_lookup [OF this] agrees_facet [OF this] agrees_union [OF this]
  show ?thesis unfolding execute_stage_stream_def Cons p by (simp add: eqs Let_def)
qed (simp add: execute_stage_stream_def)

lemma run_stages_cases:
  obtains (fused) sv a lv b rest' where "stage = (''$sort'', sv) # a" "rest = ((''$limit'', lv) # b) # rest'"
  | (single) "\<And>X sub E input. run_stages X sub E (stage # rest) input = res_bind (execute_stage_stream X sub E input stage) (\<lambda>s. run_stages X sub E rest s)"
proof (cases "\<exists>sv a lv b rest'. stage = (''$sort'', sv) # a \<and> rest = ((''$limit'', lv) # b) # rest'")
  case True
  then show thesis using fused by blast
next
  case False
  have "run_stages X sub E (stage # rest) input = res_bind (execute_stage_stream X sub E input stage) (\<lambda>s. run_stages X sub E rest s)" for X sub E input
  proof (cases rest)
    case (Cons a rest')
    with False show ?thesis by (auto split: list.split prod.split)
  qed (simp add: res_bind_Inr)
  then show thesis by (rule single)
qed

lemma agrees_run:
  "agrees (pipeline_nodes p) f g \<Longrightarrow> list_all (\<lambda>s. plain_bson (Document s)) p \<Longrightarrow> run_stages X f E p input = run_stages X g E p input"
proof (induction p arbitrary: input rule: length_induct)
  case (1 p)
  have sub: "agrees n f g" if "n \<le> pipeline_nodes p" for n using "1.prems"(1) that unfolding agrees_def by (meson less_le_trans)
  show ?case
  proof (cases p)
    case (Cons stage rest)
    have ex: "execute_stage_stream X f E input stage = execute_stage_stream X g E input stage" for input
      by (rule agrees_execute) (use "1.prems" sub Cons in auto)
    have IH: "run_stages X f E q s = run_stages X g E q s" if "length q < length p" "pipeline_nodes q \<le> pipeline_nodes p" "set q \<subseteq> set p" for q s
    proof -
      have "list_all (\<lambda>s. plain_bson (Document s)) q" using "1.prems"(2) that(3) by (auto simp: list_all_iff)
      then show ?thesis using "1.IH" that(1) sub [OF that(2)] by blast
    qed
    show ?thesis
    proof (cases rule: run_stages_cases [of stage rest])
      case (fused sv a lv b rest')
      then show ?thesis using IH [of rest'] by (auto simp: Cons intro!: res_bind_cong)
    next
      case single
      show ?thesis unfolding Cons single ex using IH [of rest] by (auto simp: Cons intro!: res_bind_cong)
    qed
  qed simp
qed



end
