(* ===== verification/Locking.thy ===== *)
theory Locking
  imports Prelude "HOL-Library.Multiset"
begin

text \<open>
  The reader-writer lock of \<^verbatim>\<open>smongo-py/src/locking.rs\<close>: the state protected by the mutex, what
  each method does with it, and the threads that call the methods as an interleaved step relation. A
  thread that finds the lock taken sleeps on the condition variable; \<^verbatim>\<open>notify_all\<close> and spurious wake-ups
  send it back to its test. The lemmas show mutual exclusion, the exact reader count, that no wake-up is
  lost, and that a waiting thread can always get the lock once the holders release it.
\<close>

section \<open>The lock and its methods\<close>

record lock_state =
  readers :: "32 word"
  writer :: bool

definition lock_new :: lock_state where
  "lock_new = \<lparr>readers = 0, writer = False\<rparr>"

text \<open>
  The body of an acquire after the mutex is taken: the state with the lock held, or nothing when the
  thread has to wait on the condition variable. A release returns whether it notifies the waiters.
\<close>

definition acquire_read :: "lock_state \<Rightarrow> lock_state option" where
  "acquire_read s = (if writer s then None else Some (s\<lparr>readers := readers s + 1\<rparr>))"

definition release_read :: "lock_state \<Rightarrow> lock_state \<times> bool" where
  "release_read s = (let n = readers s - 1 in (s\<lparr>readers := n\<rparr>, n = 0))"

definition acquire_write :: "lock_state \<Rightarrow> lock_state option" where
  "acquire_write s = (if writer s \<or> 0 < readers s then None else Some (s\<lparr>writer := True\<rparr>))"

definition release_write :: "lock_state \<Rightarrow> lock_state \<times> bool" where
  "release_write s = (s\<lparr>writer := False\<rparr>, True)"

section \<open>Threads\<close>

text \<open>
  Where a thread is: outside, in front of the test of an acquire, asleep on the condition variable, or
  holding the lock.
\<close>

datatype pc = Idle | TryRead | SleepRead | Reading | TryWrite | SleepWrite | Writing

fun wake :: "pc \<Rightarrow> pc" where
  "wake SleepRead = TryRead"
| "wake SleepWrite = TryWrite"
| "wake p = p"

definition notify :: "bool \<Rightarrow> pc list \<Rightarrow> pc list" where
  "notify b ps = (if b then map wake ps else ps)"

text \<open>What thread \<^term>\<open>i\<close> does next in the test of its acquire, or when it releases.\<close>

definition run :: "lock_state \<times> pc list \<Rightarrow> nat \<Rightarrow> lock_state \<times> pc list" where
  "run c i = (case c of (s, ps) \<Rightarrow> (case ps ! i of
     TryRead \<Rightarrow> (case acquire_read s of Some s' \<Rightarrow> (s', ps[i := Reading]) | None \<Rightarrow> (s, ps[i := SleepRead]))
   | TryWrite \<Rightarrow> (case acquire_write s of Some s' \<Rightarrow> (s', ps[i := Writing]) | None \<Rightarrow> (s, ps[i := SleepWrite]))
   | Reading \<Rightarrow> (case release_read s of (s', b) \<Rightarrow> (s', notify b (ps[i := Idle])))
   | Writing \<Rightarrow> (case release_write s of (s', b) \<Rightarrow> (s', notify b (ps[i := Idle])))
   | _ \<Rightarrow> c))"

inductive lock_step :: "lock_state \<times> pc list \<Rightarrow> lock_state \<times> pc list \<Rightarrow> bool" where
  call_read: "i < length ps \<Longrightarrow> ps ! i = Idle \<Longrightarrow> lock_step (s, ps) (s, ps[i := TryRead])"
| call_write: "i < length ps \<Longrightarrow> ps ! i = Idle \<Longrightarrow> lock_step (s, ps) (s, ps[i := TryWrite])"
| runs: "i < length ps \<Longrightarrow> lock_step (s, ps) (run (s, ps) i)"
| spurious: "i < length ps \<Longrightarrow> lock_step (s, ps) (s, ps[i := wake (ps ! i)])"

inductive lock_reach :: "nat \<Rightarrow> lock_state \<times> pc list \<Rightarrow> bool" for n where
  start: "lock_reach n (lock_new, replicate n Idle)"
| step: "lock_reach n c \<Longrightarrow> lock_step c c' \<Longrightarrow> lock_reach n c'"

inductive_cases lock_stepE: "lock_step (s, ps) c"

section \<open>Invariant\<close>

definition holders :: "pc \<Rightarrow> pc list \<Rightarrow> nat" where
  "holders p ps = count (mset ps) p"

text \<open>
  The reader count is exact, at most one thread writes and then none reads, and a thread sleeps only
  while somebody holds the lock in a way that concerns it.
\<close>

definition lock_inv :: "lock_state \<times> pc list \<Rightarrow> bool" where
  "lock_inv c = (case c of (s, ps) \<Rightarrow>
     unat (readers s) = holders Reading ps \<and>
     holders Writing ps = (if writer s then 1 else 0) \<and>
     (writer s \<longrightarrow> holders Reading ps = 0) \<and>
     (SleepRead \<in> set ps \<longrightarrow> writer s) \<and>
     (SleepWrite \<in> set ps \<longrightarrow> writer s \<or> 0 < holders Reading ps))"

lemma holders_update:
  assumes "i < length ps"
  shows "holders p (ps[i := q]) + (if ps ! i = p then 1 else 0) = holders p ps + (if q = p then 1 else 0)"
proof -
  have "ps ! i \<in># mset ps" using assms by simp
  then show ?thesis using assms by (auto simp: holders_def mset_update)
qed

lemma holders_wake [simp]: "p \<in> {Idle, Reading, Writing} \<Longrightarrow> holders p (map wake ps) = holders p ps"
proof (induction ps)
  case (Cons q ps)
  then show ?case by (cases q) (auto simp: holders_def)
qed (simp add: holders_def)

lemma no_sleep_wake [simp]: "SleepRead \<notin> wake ` A" "SleepWrite \<notin> wake ` A"
proof -
  have "wake q \<noteq> SleepRead \<and> wake q \<noteq> SleepWrite" for q by (cases q) auto
  then show "SleepRead \<notin> wake ` A" "SleepWrite \<notin> wake ` A" by (metis imageE)+
qed

lemma holders_length: "holders p ps \<le> length ps"
  by (simp add: holders_def count_mset count_list_eq_length_filter)

lemma set_update_sleep: "x \<in> set (ps[i := q]) \<Longrightarrow> x \<noteq> q \<Longrightarrow> x \<in> set ps"
  using set_update_subset_insert [of ps i q] by auto

lemma no_holders: "holders p ps = 0 \<longleftrightarrow> p \<notin> set ps"
  by (simp add: holders_def)

lemma holders_le_others:
  assumes "i < length ps" "ps ! i \<noteq> p"
  shows "holders p ps < length ps"
  using holders_update [OF assms(1), where p = p and q = p] holders_length [where p = p and ps = "ps[i := p]"] assms(2) by simp

lemma unat_succ32: "unat (w :: 32 word) + 1 < 2 ^ 32 \<Longrightarrow> unat (w + 1) = unat w + 1"
  using unat_add_lem [of w 1] by simp

lemma inv_read:
  assumes "lock_inv (s, ps)" "i < length ps" "ps ! i = TryRead" "\<not> writer s" "length ps < 2 ^ 32"
  shows "lock_inv (s\<lparr>readers := readers s + 1\<rparr>, ps[i := Reading])"
proof -
  have "holders Reading ps < length ps" using holders_le_others [OF assms(2)] assms(3) by simp
  then have "unat (readers s + 1) = unat (readers s) + 1"
    using assms(1,5) by (intro unat_succ32) (simp add: lock_inv_def)
  moreover have "holders Reading (ps[i := Reading]) = holders Reading ps + 1" "holders Writing (ps[i := Reading]) = holders Writing ps"
    using holders_update [OF assms(2), where p = Reading and q = Reading] holders_update [OF assms(2), where p = Writing and q = Reading] assms(3) by simp_all
  ultimately show ?thesis
    using assms(1,4) by (auto simp: lock_inv_def dest: set_update_sleep)
qed

lemma inv_write:
  assumes "lock_inv (s, ps)" "i < length ps" "ps ! i = TryWrite" "\<not> writer s" "readers s = 0"
  shows "lock_inv (s\<lparr>writer := True\<rparr>, ps[i := Writing])"
proof -
  have "holders Reading (ps[i := Writing]) = holders Reading ps" "holders Writing (ps[i := Writing]) = holders Writing ps + 1"
    using holders_update [OF assms(2), where p = Reading and q = Writing] holders_update [OF assms(2), where p = Writing and q = Writing] assms(3) by simp_all
  then show ?thesis
    using assms(1,4,5) by (auto simp: lock_inv_def dest: set_update_sleep)
qed

lemma inv_notify:
  assumes "unat (readers s) = holders Reading ps" "holders Writing ps = (if writer s then 1 else 0)"
    "writer s \<longrightarrow> holders Reading ps = 0"
    "\<not> b \<Longrightarrow> SleepRead \<notin> set ps" "\<not> b \<Longrightarrow> SleepWrite \<in> set ps \<Longrightarrow> 0 < holders Reading ps"
  shows "lock_inv (s, notify b ps)"
  using assms by (auto simp: lock_inv_def notify_def)

lemma inv_unread:
  assumes "lock_inv (s, ps)" "i < length ps" "ps ! i = Reading"
  shows "lock_inv (fst (release_read s), notify (snd (release_read s)) (ps[i := Idle]))"
proof -
  have h: "holders Reading (ps[i := Idle]) + 1 = holders Reading ps" "holders Writing (ps[i := Idle]) = holders Writing ps"
    using holders_update [OF assms(2), where p = Reading and q = Idle] holders_update [OF assms(2), where p = Writing and q = Idle] assms(3) by simp_all
  then have nz: "readers s \<noteq> 0" "\<not> writer s" using assms(1) by (auto simp: lock_inv_def)
  have "unat (readers s - 1) = unat (readers s) - 1" using nz(1) by (rule unat_minus_one)
  moreover have "readers s - 1 = 0 \<longleftrightarrow> unat (readers s - 1) = 0" by (simp add: unat_eq_0)
  ultimately show ?thesis
    using h nz assms(1) unfolding release_read_def Let_def fst_conv snd_conv
    by (intro inv_notify) (auto simp: lock_inv_def dest: set_update_sleep)
qed

lemma inv_unwrite:
  assumes "lock_inv (s, ps)" "i < length ps" "ps ! i = Writing"
  shows "lock_inv (fst (release_write s), notify (snd (release_write s)) (ps[i := Idle]))"
proof -
  have "holders Reading (ps[i := Idle]) = holders Reading ps" "holders Writing (ps[i := Idle]) + 1 = holders Writing ps"
    using holders_update [OF assms(2), where p = Reading and q = Idle] holders_update [OF assms(2), where p = Writing and q = Idle] assms(3) by simp_all
  then show ?thesis using assms(1) unfolding release_write_def fst_conv snd_conv
    by (intro inv_notify) (auto simp: lock_inv_def split: if_splits)
qed

text \<open>Changes of the threads that do not touch the lock.\<close>

lemma inv_outside:
  assumes "lock_inv (s, ps)" "i < length ps" "ps ! i \<notin> {Reading, Writing}" "q \<in> {Idle, TryRead, TryWrite, SleepRead, SleepWrite}"
    "q = SleepRead \<Longrightarrow> writer s" "q = SleepWrite \<Longrightarrow> writer s \<or> 0 < readers s"
  shows "lock_inv (s, ps[i := q])"
proof -
  have "holders Reading (ps[i := q]) = holders Reading ps" "holders Writing (ps[i := q]) = holders Writing ps"
    using holders_update [OF assms(2), where p = Reading and q = q] holders_update [OF assms(2), where p = Writing and q = q] assms(3,4) by auto
  moreover have "0 < readers s \<longleftrightarrow> 0 < unat (readers s)" by (simp add: word_less_nat_alt)
  ultimately show ?thesis
    using assms(1,5,6) by (auto simp: lock_inv_def dest!: set_update_sleep [where q = q])
qed

lemma run_inv:
  assumes "lock_inv (s, ps)" "i < length ps" "length ps < 2 ^ 32"
  shows "lock_inv (run (s, ps) i)"
proof (cases "ps ! i")
  case TryRead
  then show ?thesis using inv_read [OF assms(1,2)] inv_outside [OF assms(1,2), of SleepRead] assms
    by (simp add: run_def acquire_read_def)
next
  case TryWrite
  then show ?thesis using inv_write [OF assms(1,2)] inv_outside [OF assms(1,2), of SleepWrite] assms
    by (simp add: run_def acquire_write_def word_neq_0_conv [symmetric])
next
  case Reading
  then show ?thesis using inv_unread [OF assms(1,2)] by (simp add: run_def split_beta)
next
  case Writing
  then show ?thesis using inv_unwrite [OF assms(1,2)] by (simp add: run_def split_beta)
qed (use assms(1) in \<open>simp_all add: run_def\<close>)

lemma run_length [simp]: "length (snd (run (s, ps) i)) = length ps"
  by (simp add: run_def notify_def split_beta split: pc.splits option.splits)

lemma inv_wake:
  assumes "lock_inv (s, ps)" "i < length ps"
  shows "lock_inv (s, ps[i := wake (ps ! i)])"
proof (cases "wake (ps ! i) = ps ! i")
  case False
  then show ?thesis using assms by (cases "ps ! i") (auto intro: inv_outside)
qed (simp add: assms)

lemma step_inv:
  assumes "lock_step c c'" "lock_inv c" "length (snd c) < 2 ^ 32"
  shows "lock_inv c' \<and> length (snd c') = length (snd c)"
  using assms by cases (auto intro: run_inv inv_wake inv_outside)

lemma reach_inv:
  assumes "lock_reach n c" "n < 2 ^ 32"
  shows "lock_inv c \<and> length (snd c) = n"
  using assms
proof (induction rule: lock_reach.induct)
  case start
  then show ?case by (simp add: lock_inv_def lock_new_def holders_def)
next
  case (step c c')
  then show ?case using step_inv by metis
qed

text \<open>
  C21. In every state the threads can reach, at most one of them writes, none reads while one writes,
  the reader count is the number of readers, and no wake-up is lost: when nobody holds the lock no thread sleeps.
\<close>

theorem rwlock_exclusion:
  assumes "lock_reach n (s, ps)" and "n < 2 ^ 32"
  shows "holders Writing ps \<le> 1 \<and> (Writing \<in> set ps \<longrightarrow> Reading \<notin> set ps) \<and>
    unat (readers s) = holders Reading ps \<and>
    (Reading \<notin> set ps \<and> Writing \<notin> set ps \<longrightarrow> SleepRead \<notin> set ps \<and> SleepWrite \<notin> set ps)"
  using reach_inv [OF assms] no_holders [where p = Writing and ps = ps] no_holders [where p = Reading and ps = ps]
  by (auto simp: lock_inv_def split: if_splits)

theorem rwlock_exclusion_witness:
  "Writing \<in> set [SleepRead, Writing] \<and> Reading \<notin> set [SleepRead, Writing] \<and> holders Writing [SleepRead, Writing] \<le> 1 \<and>
    unat (readers \<lparr>readers = 0, writer = True\<rparr>) = holders Reading [SleepRead, Writing]"
proof -
  let ?s = "\<lparr>readers = 0, writer = True\<rparr>"
  have "lock_reach 2 (lock_new, [Idle, Idle])" using lock_reach.start [of 2] by (simp add: numeral_2_eq_2)
  then have "lock_reach 2 (lock_new, [Idle, TryWrite])" using lock_reach.step call_write [of 1 "[Idle, Idle]" lock_new] by simp
  then have "lock_reach 2 (?s, [Idle, Writing])"
    using lock_reach.step [OF _ runs [of 1 "[Idle, TryWrite]" lock_new]] by (simp add: run_def acquire_write_def lock_new_def)
  then have "lock_reach 2 (?s, [TryRead, Writing])" using lock_reach.step call_read [of 0 "[Idle, Writing]" ?s] by simp
  then have "lock_reach 2 (?s, [SleepRead, Writing])"
    using lock_reach.step [OF _ runs [of 0 "[TryRead, Writing]" ?s]] by (simp add: run_def acquire_read_def)
  from rwlock_exclusion [OF this] show ?thesis by simp
qed

section \<open>Progress\<close>

definition holding :: "pc list \<Rightarrow> nat set" where
  "holding ps = {j. j < length ps \<and> ps ! j \<in> {Reading, Writing}}"

text \<open>A release by one holder leaves the other threads as they are, except that it may wake them.\<close>

lemma run_release:
  assumes "j \<in> holding ps"
  shows "holding (snd (run (s, ps) j)) = holding ps - {j}"
    and "k < length ps \<Longrightarrow> k \<noteq> j \<Longrightarrow> snd (run (s, ps) j) ! k \<in> {ps ! k, wake (ps ! k)}"
proof -
  obtain b s' where r: "run (s, ps) j = (s', notify b (ps[j := Idle]))"
  proof -
    from assms consider "ps ! j = Reading" | "ps ! j = Writing" by (auto simp: holding_def)
    then show thesis by cases (rule that, simp add: run_def split_beta)+
  qed
  have w: "wake q \<in> {Reading, Writing} \<longleftrightarrow> q \<in> {Reading, Writing}" for q by (cases q) simp_all
  have e: "snd (run (s, ps) j) ! k \<in> {Reading, Writing} \<longleftrightarrow> (ps[j := Idle]) ! k \<in> {Reading, Writing}" if "k < length ps" for k
    using w that unfolding r notify_def by (cases b) simp_all
  have "k \<in> holding (snd (run (s, ps) j)) \<longleftrightarrow> k \<in> holding ps \<and> k \<noteq> j" for k
    using e [of k] run_length [of s ps j] by (cases "k = j"; cases "k < length ps") (simp_all add: holding_def)
  then show "holding (snd (run (s, ps) j)) = holding ps - {j}" by blast
  show "k < length ps \<Longrightarrow> k \<noteq> j \<Longrightarrow> snd (run (s, ps) j) ! k \<in> {ps ! k, wake (ps ! k)}"
    unfolding r notify_def by (cases b) simp_all
qed

lemma wake_wake [simp]: "wake (wake q) = wake q"
  by (cases q) simp_all

lemma all_release:
  assumes "lock_inv (s, ps)" "length ps < 2 ^ 32"
  shows "\<exists>js s' ps'. set js \<subseteq> holding ps \<and> foldl run (s, ps) js = (s', ps') \<and> lock_inv (s', ps') \<and> length ps' = length ps \<and>
    holding ps' = {} \<and> (\<forall>k < length ps. k \<notin> holding ps \<longrightarrow> ps' ! k \<in> {ps ! k, wake (ps ! k)})"
  using assms
proof (induction "card (holding ps)" arbitrary: s ps)
  case 0
  then have "holding ps = {}" by (simp add: holding_def)
  then show ?case using 0 by (intro exI [of _ "[]"]) auto
next
  case (Suc n)
  then obtain j where j: "j \<in> holding ps" by (metis card.empty equals0I nat.distinct(1))
  then have jl: "j < length ps" by (simp add: holding_def)
  obtain s1 ps1 where r: "run (s, ps) j = (s1, ps1)" by (cases "run (s, ps) j")
  have l: "length ps1 = length ps" using run_length [of s ps j] by (simp add: r)
  have h: "holding ps1 = holding ps - {j}" using run_release(1) [OF j, of s] by (simp add: r)
  have "lock_inv (s1, ps1)" using run_inv [OF Suc.prems(1) jl Suc.prems(2)] by (simp add: r)
  moreover have "n = card (holding ps1)" using Suc.hyps(2) j by (simp add: h)
  ultimately obtain js s' ps' where IH: "set js \<subseteq> holding ps1" "foldl run (s1, ps1) js = (s', ps')" "lock_inv (s', ps')"
      "length ps' = length ps1" "holding ps' = {}"
      "\<forall>k < length ps1. k \<notin> holding ps1 \<longrightarrow> ps' ! k \<in> {ps1 ! k, wake (ps1 ! k)}"
    using Suc.hyps(1) [of ps1 s1] Suc.prems(2) l by auto
  have "ps' ! k \<in> {ps ! k, wake (ps ! k)}" if "k < length ps" "k \<notin> holding ps" for k
  proof -
    have "k \<notin> holding ps1" "k \<noteq> j" using that h j by auto
    then have "ps' ! k \<in> {ps1 ! k, wake (ps1 ! k)}" "ps1 ! k \<in> {ps ! k, wake (ps ! k)}"
      using IH(6) that l run_release(2) [OF j that(1), of s] by (simp_all add: r)
    then show ?thesis by auto
  qed
  then show ?case using IH r j h l by (intro exI [of _ "j # js"]) auto
qed

text \<open>
  C22. A thread that wants the lock is never stuck: from every reachable state it gets the lock
  after the present holders release theirs, by those releases and one step of its own.
\<close>

theorem rwlock_progress:
  assumes "lock_reach n (s, ps)" and "n < 2 ^ 32" and "i < n"
  shows "(ps ! i \<in> {TryRead, SleepRead} \<longrightarrow>
      (\<exists>js. set js \<subseteq> holding ps \<and> snd (foldl run (s, ps) (js @ [i])) ! i = Reading)) \<and>
    (ps ! i \<in> {TryWrite, SleepWrite} \<longrightarrow>
      (\<exists>js. set js \<subseteq> holding ps \<and> snd (foldl run (s, ps) (js @ [i])) ! i = Writing))"
proof -
  have inv: "lock_inv (s, ps)" and len: "length ps = n" using reach_inv [OF assms(1,2)] by auto
  from all_release [OF inv] assms(2) len obtain js s' ps' where a: "set js \<subseteq> holding ps" "foldl run (s, ps) js = (s', ps')"
      "lock_inv (s', ps')" "length ps' = length ps" "holding ps' = {}"
      "\<forall>k < length ps. k \<notin> holding ps \<longrightarrow> ps' ! k \<in> {ps ! k, wake (ps ! k)}" by blast
  have "Reading \<notin> set ps'" "Writing \<notin> set ps'" using a(5) by (auto simp: holding_def in_set_conv_nth)
  then have free: "readers s' = 0" "\<not> writer s'" "SleepRead \<notin> set ps'" "SleepWrite \<notin> set ps'"
    using a(3) no_holders [where p = Writing and ps = ps'] no_holders [where p = Reading and ps = ps']
    by (auto simp: lock_inv_def unat_eq_0 split: if_splits)
  have mem: "ps' ! i \<in> set ps'" using assms(3) a(4) len by simp
  have near: "ps' ! i \<in> {ps ! i, wake (ps ! i)}" if "ps ! i \<notin> {Reading, Writing}"
    using a(6) assms(3) len that by (simp add: holding_def)
  have "ps' ! i = TryRead" if "ps ! i \<in> {TryRead, SleepRead}"
    using near that mem free(3) by (auto; fastforce)
  moreover have "ps' ! i = TryWrite" if "ps ! i \<in> {TryWrite, SleepWrite}"
    using near that mem free(4) by (auto; fastforce)
  moreover have "snd (run (s', ps') i) ! i = Reading" if "ps' ! i = TryRead"
    using that free assms(3) a(4) len by (simp add: run_def acquire_read_def)
  moreover have "snd (run (s', ps') i) ! i = Writing" if "ps' ! i = TryWrite"
    using that free assms(3) a(4) len by (simp add: run_def acquire_write_def)
  ultimately show ?thesis using a(1,2) by (metis foldl_Cons foldl_Nil foldl_append)
qed

theorem rwlock_progress_witness:
  "\<exists>js. set js \<subseteq> holding [TryWrite, Idle] \<and> snd (foldl run (lock_new, [TryWrite, Idle]) (js @ [0])) ! 0 = Writing"
proof -
  have "lock_reach 2 (lock_new, [Idle, Idle])" using lock_reach.start [of 2] by (simp add: numeral_2_eq_2)
  then have "lock_reach 2 (lock_new, [TryWrite, Idle])" using lock_reach.step call_write [of 0 "[Idle, Idle]" lock_new] by simp
  from rwlock_progress [OF this, of 0] show ?thesis by simp
qed

end
