(* ===== verification/Registry.thy ===== *)
theory Registry
  imports Prelude
begin

text \<open>
  The contract that the cursor registry and the session registry of the wire server share: entries
  under distinct keys, a bound on their number, and an expiry that removes the entries nobody used for
  longer than the timeout. Both registries interpret the locale on their own operations.
\<close>

text \<open>\<^verbatim>\<open>Instant::duration_since\<close> never goes below zero.\<close>

definition idle_for :: "nat \<Rightarrow> nat \<Rightarrow> nat" where
  "idle_for now used = now - used"

locale idle_registry =
  fixes entries :: "'r \<Rightarrow> ('k \<times> 'e) list"
    and last_use :: "'e \<Rightarrow> nat"
    and timeout :: "'r \<Rightarrow> nat"
    and expire :: "'r \<Rightarrow> nat \<Rightarrow> 'r"
  assumes entries_expire: "entries (expire r now) = filter (\<lambda>(k, e). \<not> timeout r < idle_for now (last_use e)) (entries r)"
    and timeout_expire: "timeout (expire r now) = timeout r"
begin

lemma expire_keeps_recent:
  "(k, e) \<in> set (entries r) \<Longrightarrow> now \<le> last_use e + timeout r \<Longrightarrow> (k, e) \<in> set (entries (expire r now))"
  by (auto simp: entries_expire idle_for_def)

lemma expire_removes_idle:
  "(k, e) \<in> set (entries (expire r now)) \<longleftrightarrow> (k, e) \<in> set (entries r) \<and> now \<le> last_use e + timeout r"
  by (auto simp: entries_expire idle_for_def)

lemma expire_later: "m \<le> now \<Longrightarrow> entries (expire (expire r m) now) = entries (expire r now)"
  by (auto simp: entries_expire timeout_expire idle_for_def intro!: filter_cong)

lemma length_expire: "length (entries (expire r now)) \<le> length (entries r)"
  by (simp add: entries_expire)

lemma distinct_expire: "distinct (map fst (entries r)) \<Longrightarrow> distinct (map fst (entries (expire r now)))"
  by (simp add: entries_expire distinct_map_filter)

end

section \<open>Bounded association lists\<close>

lemma length_al_insert: "length (al_insert k v xs) = (if k \<in> fst ` set xs then length xs else Suc (length xs))"
proof (induction xs)
  case (Cons x xs)
  then show ?case by (cases x; cases "fst x = k") simp_all
qed simp

lemma length_al_remove_le: "length (al_remove k xs) \<le> length xs"
  by (simp add: al_remove_def)

lemma length_al_remove: "k \<in> fst ` set xs \<Longrightarrow> length (al_remove k xs) < length xs"
  by (auto simp: al_remove_def intro!: length_filter_less)

lemma keys_al_remove: "fst ` set (al_remove k xs) = fst ` set xs - {k}"
  by (auto simp: al_remove_def)

lemma al_insert_mem: "(k', v') \<in> set (al_insert k v xs) \<Longrightarrow> (k', v') = (k, v) \<or> (k', v') \<in> set xs"
  using set_al_insert [of k v xs] by auto

lemma al_remove_mem: "(k', v') \<in> set (al_remove k xs) \<Longrightarrow> (k', v') \<in> set xs"
  using set_al_remove [of k xs] by auto

end
