(* ===== verification/Cursors.thy ===== *)
theory Cursors
  imports Registry Rust_Std
begin

text \<open>
  The registry of server-side cursors, \<^verbatim>\<open>smongo-py/src/wire_cursors.rs\<close>. A cursor holds either a
  materialised list of results with an offset or a Python iterator; the documents are a type variable. The
  clock readings, the random draws of the id generator and the polls of a change stream are arguments. An
  iterator is the list of what its next calls return, an exception or an item, followed by
  \<^verbatim>\<open>StopIteration\<close>. The hash map is an association list; no lemma depends on its order. Not modelled: the
  thread of the reaper, whose body is the expiry.
\<close>

unbundle bit_operations_syntax

section \<open>State\<close>

type_synonym 'd py_iter = "(string + 'd) list"

datatype 'd cursor_docs = Materialized "'d list" nat nat | Streaming "'d py_iter"

record 'd cursor_state =
  cs_ns :: string
  cs_docs :: "'d cursor_docs"
  cs_batch_size :: nat
  cs_change_stream :: bool
  cs_tailable :: bool
  cs_last_accessed :: nat

type_synonym cursor_id = "64 word"

record 'd cursor_registry =
  cr_cursors :: "(cursor_id \<times> 'd cursor_state) list"
  cr_default_batch_size :: nat
  cr_idle_timeout :: nat
  cr_max_cursors :: nat

definition cr_new :: "nat \<Rightarrow> nat \<Rightarrow> nat \<Rightarrow> 'd cursor_registry" where
  "cr_new default_batch_size idle_timeout max_cursors =
     \<lparr>cr_cursors = [], cr_default_batch_size = default_batch_size, cr_idle_timeout = idle_timeout, cr_max_cursors = max_cursors\<rparr>"

section \<open>Operations\<close>

text \<open>A draw becomes a positive odd id; the loop takes the first that is not in use.\<close>

definition draw_id :: "64 word \<Rightarrow> cursor_id" where
  "draw_id r = drop_bit 1 r OR 1"

definition generate_id :: "'d cursor_registry \<Rightarrow> 64 word list \<Rightarrow> cursor_id option" where
  "generate_id r draws = find (\<lambda>cid. map_of (cr_cursors r) cid = None) (map draw_id draws)"

text \<open>\<^verbatim>\<open>Iterator::min_by_key\<close>: the first of the least elements.\<close>

fun min_by_key :: "('a \<Rightarrow> nat) \<Rightarrow> 'a list \<Rightarrow> 'a option" where
  "min_by_key f [] = None"
| "min_by_key f (x # xs) = Some (foldl (\<lambda>m y. if f y < f m then y else m) x xs)"

definition evict_oldest :: "'d cursor_registry \<Rightarrow> 'd cursor_registry" where
  "evict_oldest r = (case min_by_key (\<lambda>(_, s). cs_last_accessed s) (cr_cursors r) of
     None \<Rightarrow> r
   | Some (oldest, _) \<Rightarrow> r\<lparr>cr_cursors := al_remove oldest (cr_cursors r)\<rparr>)"

definition expire_idle :: "'d cursor_registry \<Rightarrow> nat \<Rightarrow> 'd cursor_registry" where
  "expire_idle r now = r\<lparr>cr_cursors := filter (\<lambda>(_, s). \<not> cr_idle_timeout r < idle_for now (cs_last_accessed s)) (cr_cursors r)\<rparr>"

fun pull_batch :: "'d py_iter \<Rightarrow> nat \<Rightarrow> (string + 'd list \<times> bool) \<times> 'd py_iter" where
  "pull_batch it 0 = (Inr ([], False), it)"
| "pull_batch [] (Suc n) = (Inr ([], True), [])"
| "pull_batch (Inl e # it) (Suc n) = (Inl e, it)"
| "pull_batch (Inr d # it) (Suc n) = (case pull_batch it n of
     (Inr (batch, exhausted), rest) \<Rightarrow> (Inr (d # batch, exhausted), rest)
   | (Inl e, rest) \<Rightarrow> (Inl e, rest))"

definition requested :: "'d cursor_registry \<Rightarrow> nat option \<Rightarrow> nat" where
  "requested r batch_size = (case batch_size of
     Some b \<Rightarrow> if 0 < b then b else cr_default_batch_size r
   | None \<Rightarrow> cr_default_batch_size r)"

text \<open>The common end of the three ways to open a cursor. \<^const>\<open>None\<close>: the loop of the id generator still runs.\<close>

definition register :: "'d cursor_registry \<Rightarrow> 64 word list \<Rightarrow> 'd cursor_state \<Rightarrow> ('d cursor_registry \<times> cursor_id) option" where
  "register r draws s =
     (let r1 = (if cr_max_cursors r \<le> length (cr_cursors r) then evict_oldest r else r) in
      map_option (\<lambda>cid. (r1\<lparr>cr_cursors := al_insert cid s (cr_cursors r1)\<rparr>, cid)) (generate_id r1 draws))"

definition create :: "'d cursor_registry \<Rightarrow> nat \<Rightarrow> 64 word list \<Rightarrow> string \<Rightarrow> 'd list \<Rightarrow> nat option \<Rightarrow>
    ('d cursor_registry \<times> cursor_id \<times> 'd list) option" where
  "create r now draws ns docs batch_size =
     (let bs = requested r batch_size; total = length docs; first_batch = take (min bs total) docs in
      if total \<le> bs then Some (r, 0, first_batch)
      else map_option (\<lambda>(r', cid). (r', cid, first_batch))
        (register r draws \<lparr>cs_ns = ns, cs_docs = Materialized docs total bs, cs_batch_size = bs, cs_change_stream = False,
           cs_tailable = False, cs_last_accessed = now\<rparr>))"

definition create_from_iter :: "'d cursor_registry \<Rightarrow> nat \<Rightarrow> 64 word list \<Rightarrow> string \<Rightarrow> 'd py_iter \<Rightarrow> nat option \<Rightarrow>
    (string + 'd cursor_registry \<times> cursor_id \<times> 'd list) option" where
  "create_from_iter r now draws ns it batch_size =
     (let bs = requested r batch_size in
      case pull_batch it bs of
        (Inl e, _) \<Rightarrow> Some (Inl e)
      | (Inr (first_batch, exhausted), rest) \<Rightarrow>
          if exhausted then Some (Inr (r, 0, first_batch))
          else map_option (\<lambda>(r', cid). Inr (r', cid, first_batch))
            (register r draws \<lparr>cs_ns = ns, cs_docs = Streaming rest, cs_batch_size = bs, cs_change_stream = False,
               cs_tailable = False, cs_last_accessed = now\<rparr>))"

definition create_change_stream :: "'d cursor_registry \<Rightarrow> nat \<Rightarrow> 64 word list \<Rightarrow> string \<Rightarrow> nat option \<Rightarrow>
    ('d cursor_registry \<times> cursor_id) option" where
  "create_change_stream r now draws ns batch_size =
     register r draws \<lparr>cs_ns = ns, cs_docs = Materialized [] 0 0, cs_batch_size = requested r batch_size, cs_change_stream = True,
       cs_tailable = True, cs_last_accessed = now\<rparr>"

definition put_state :: "'d cursor_registry \<Rightarrow> cursor_id \<Rightarrow> 'd cursor_state \<Rightarrow> 'd cursor_registry" where
  "put_state r cid s = r\<lparr>cr_cursors := al_insert cid s (cr_cursors r)\<rparr>"

definition drop_state :: "'d cursor_registry \<Rightarrow> cursor_id \<Rightarrow> 'd cursor_registry" where
  "drop_state r cid = r\<lparr>cr_cursors := al_remove cid (cr_cursors r)\<rparr>"

text \<open>The answer is an exception, nothing for an unknown id, or the id to ask next, 0 at the end, with the batch.\<close>

definition get_more :: "'d cursor_registry \<Rightarrow> nat \<Rightarrow> cursor_id \<Rightarrow> nat option \<Rightarrow>
    'd cursor_registry \<times> (string + (cursor_id \<times> 'd list) option)" where
  "get_more r now cid batch_size = (case map_of (cr_cursors r) cid of
     None \<Rightarrow> (r, Inr None)
   | Some s0 \<Rightarrow>
       (let s = s0\<lparr>cs_last_accessed := now\<rparr>; bs = opt_or (cs_batch_size s) batch_size in
        case cs_docs s of
          Materialized docs len offset \<Rightarrow>
            (let stop = min (offset + bs) len; batch = take (stop - offset) (drop offset docs) in
             if len \<le> stop then (drop_state r cid, Inr (Some (0, batch)))
             else (put_state r cid (s\<lparr>cs_docs := Materialized docs len stop\<rparr>), Inr (Some (cid, batch))))
        | Streaming it \<Rightarrow>
            (case pull_batch it bs of
               (Inl e, rest) \<Rightarrow> (put_state r cid (s\<lparr>cs_docs := Streaming rest\<rparr>), Inl e)
             | (Inr (batch, exhausted), rest) \<Rightarrow>
                 if exhausted then (drop_state r cid, Inr (Some (0, batch)))
                 else (put_state r cid (s\<lparr>cs_docs := Streaming rest\<rparr>), Inr (Some (cid, batch))))))"

definition is_tailable :: "'d cursor_registry \<Rightarrow> cursor_id \<Rightarrow> bool" where
  "is_tailable r cid = (case map_of (cr_cursors r) cid of Some s \<Rightarrow> cs_tailable s | None \<Rightarrow> False)"

fun kill :: "'d cursor_registry \<Rightarrow> cursor_id list \<Rightarrow> 'd cursor_registry \<times> cursor_id list" where
  "kill r [] = (r, [])"
| "kill r (cid # cids) = (if map_of (cr_cursors r) cid = None then kill r cids
     else (case kill (drop_state r cid) cids of (r', killed) \<Rightarrow> (r', cid # killed)))"

text \<open>
  The polling loop of a change stream: each poll is what \<^verbatim>\<open>try_next\<close> returns with the clock readings
  after it and after the sleep. \<^const>\<open>None\<close>: the loop is still running after the given polls.
\<close>

fun poll_events :: "nat \<Rightarrow> nat \<Rightarrow> (string + 'd option) list \<Rightarrow> (nat \<times> nat) list \<Rightarrow> (string + 'd list) option" where
  "poll_events 0 deadline polls clock = Some (Inr [])"
| "poll_events (Suc n) deadline (Inl e # polls) clock = Some (Inl e)"
| "poll_events (Suc n) deadline (Inr (Some d) # polls) clock =
     map_option (\<lambda>res. case res of Inl e \<Rightarrow> Inl e | Inr ds \<Rightarrow> Inr (d # ds)) (poll_events n deadline polls clock)"
| "poll_events (Suc n) deadline (Inr None # polls) ((t, t') # clock) =
     (if deadline \<le> t then Some (Inr []) else if deadline \<le> t' then Some (Inr [])
      else poll_events (Suc n) deadline polls clock)"
| "poll_events (Suc n) deadline _ _ = None"

definition get_more_change_stream :: "'d cursor_registry \<Rightarrow> nat \<Rightarrow> cursor_id \<Rightarrow> nat option \<Rightarrow> nat \<Rightarrow> nat \<Rightarrow>
    (string + 'd option) list \<Rightarrow> (nat \<times> nat) list \<Rightarrow> 'd cursor_registry \<times> (string + (cursor_id \<times> 'd list) option) option" where
  "get_more_change_stream r now cid batch_size started max_await polls clock = (case map_of (cr_cursors r) cid of
     None \<Rightarrow> (r, Some (Inr None))
   | Some s \<Rightarrow>
       if \<not> cs_change_stream s then (r, Some (Inr None))
       else (put_state r cid (s\<lparr>cs_last_accessed := now\<rparr>),
         map_option (map_sum id (\<lambda>events. Some (cid, events)))
           (poll_events (opt_or (cs_batch_size s) batch_size) (started + max_await) polls clock)))"

section \<open>Expiry\<close>

interpretation cursors: idle_registry cr_cursors cs_last_accessed cr_idle_timeout expire_idle
  by unfold_locales (simp_all add: expire_idle_def)

section \<open>Invariant\<close>

text \<open>
  Ids are distinct and never 0, the bound holds (a registry always has room for one cursor), and an
  open materialised cursor has results left unless it is the empty shell of a change stream.
\<close>

definition docs_ok :: "'d cursor_state \<Rightarrow> bool" where
  "docs_ok s \<longleftrightarrow> (case cs_docs s of
     Materialized docs len offset \<Rightarrow> len = length docs \<and> (offset < len \<or> cs_tailable s \<and> offset = 0)
   | Streaming it \<Rightarrow> \<not> cs_tailable s)"

definition cr_inv :: "'d cursor_registry \<Rightarrow> bool" where
  "cr_inv r \<longleftrightarrow> distinct (map fst (cr_cursors r)) \<and> length (cr_cursors r) \<le> max 1 (cr_max_cursors r) \<and>
     (\<forall>(cid, s) \<in> set (cr_cursors r). cid \<noteq> 0 \<and> docs_ok s)"

lemma draw_id_nonzero: "draw_id w \<noteq> 0"
proof
  assume "draw_id w = 0"
  then have "bit (drop_bit 1 w OR 1) 0 = bit (0 :: 64 word) 0" by (simp add: draw_id_def)
  then show False by (simp add: bit_or_iff bit_1_iff)
qed

lemma generate_id_fresh:
  assumes "generate_id r draws = Some cid"
  shows "cid \<noteq> 0" "cid \<notin> fst ` set (cr_cursors r)"
  using assms draw_id_nonzero by (auto simp: generate_id_def find_Some_iff map_of_eq_None_iff)

lemma generate_id_returns:
  "w \<in> set draws \<Longrightarrow> map_of (cr_cursors r) (draw_id w) = None \<Longrightarrow> generate_id r draws \<noteq> None"
  by (auto simp: generate_id_def find_None_iff)

lemma min_by_key_mem: "min_by_key f xs = Some x \<Longrightarrow> x \<in> set xs"
proof (cases xs)
  case (Cons y ys)
  have "foldl (\<lambda>m y. if f y < f m then y else m) y ys \<in> set (y # ys)" for y
    by (induction ys arbitrary: y) (auto split: if_splits)
  then show "min_by_key f xs = Some x \<Longrightarrow> ?thesis" using Cons by auto
qed simp

lemma min_by_key_le: "min_by_key f xs = Some x \<Longrightarrow> y \<in> set xs \<Longrightarrow> f x \<le> f y"
proof (cases xs)
  case (Cons z zs)
  have "\<forall>y \<in> set (z # zs). f (foldl (\<lambda>m y. if f y < f m then y else m) z zs) \<le> f y" for z
  proof (induction zs arbitrary: z)
    case (Cons w zs)
    show ?case
    proof (cases "f w < f z")
      case True
      then show ?thesis using Cons [of w] by auto
    next
      case False
      then show ?thesis using Cons [of z] by auto
    qed
  qed simp
  then show "min_by_key f xs = Some x \<Longrightarrow> y \<in> set xs \<Longrightarrow> ?thesis" using Cons by auto
qed simp

lemma remove_inv: "cr_inv r \<Longrightarrow> cr_inv (r\<lparr>cr_cursors := al_remove k (cr_cursors r)\<rparr>)"
  using le_trans [OF length_al_remove_le, of "cr_cursors r" "max 1 (cr_max_cursors r)" k]
  by (auto simp: cr_inv_def dest!: al_remove_mem)

lemmas drop_state_inv = remove_inv [folded drop_state_def]

lemma evict_oldest_inv: "cr_inv r \<Longrightarrow> cr_inv (evict_oldest r)"
  by (auto simp: evict_oldest_def remove_inv split: option.splits)

lemma evict_oldest_room:
  assumes "cr_cursors r \<noteq> []"
  shows "length (cr_cursors (evict_oldest r)) < length (cr_cursors r)"
proof -
  from assms obtain ks where ks: "min_by_key (\<lambda>(_, s). cs_last_accessed s) (cr_cursors r) = Some ks"
    by (cases "cr_cursors r") auto
  then have "fst ks \<in> fst ` set (cr_cursors r)" using min_by_key_mem [OF ks] by simp
  then show ?thesis using ks length_al_remove by (simp add: evict_oldest_def split_beta)
qed

lemma register_inv:
  assumes "cr_inv r" "register r draws s = Some (r', cid)" "docs_ok s"
  shows "cr_inv r'"
proof -
  define r1 where "r1 = (if cr_max_cursors r \<le> length (cr_cursors r) then evict_oldest r else r)"
  have g: "generate_id r1 draws = Some cid" and r': "r' = r1\<lparr>cr_cursors := al_insert cid s (cr_cursors r1)\<rparr>"
    using assms(2) by (auto simp: register_def r1_def Let_def)
  have i: "cr_inv r1" using assms(1) evict_oldest_inv by (auto simp: r1_def)
  have m: "cr_max_cursors r1 = cr_max_cursors r" by (simp add: r1_def evict_oldest_def split: option.splits)
  have "length (cr_cursors r1) < max 1 (cr_max_cursors r)"
  proof (cases "cr_max_cursors r \<le> length (cr_cursors r)")
    case True
    then show ?thesis using evict_oldest_room [of r] assms(1)
      by (cases "cr_cursors r = []") (auto simp: r1_def cr_inv_def evict_oldest_def)
  qed (simp add: r1_def)
  then show ?thesis using i generate_id_fresh [OF g] assms(3)
    by (auto simp: cr_inv_def r' m length_al_insert dest!: al_insert_mem)
qed

lemma put_state_inv:
  assumes "cr_inv r" "map_of (cr_cursors r) cid = Some s0" "docs_ok s"
  shows "cr_inv (put_state r cid s)"
proof -
  have "(cid, s0) \<in> set (cr_cursors r)" using assms(2) by (rule map_of_SomeD)
  then show ?thesis using assms(1,3)
    by (auto simp: cr_inv_def put_state_def length_al_insert rev_image_eqI dest!: al_insert_mem)
qed


lemma docs_ok_touch [simp]: "docs_ok (s\<lparr>cs_last_accessed := now\<rparr>) = docs_ok s"
  by (simp add: docs_ok_def split: cursor_docs.split)

lemma get_more_inv: "cr_inv r \<Longrightarrow> cr_inv (fst (get_more r now cid b))"
proof (cases "map_of (cr_cursors r) cid")
  case (Some s)
  assume "cr_inv r"
  then have "docs_ok s" using map_of_SomeD [OF Some] by (auto simp: cr_inv_def)
  then show ?thesis using \<open>cr_inv r\<close> put_state_inv [OF \<open>cr_inv r\<close> Some] drop_state_inv
    by (auto simp: get_more_def Some Let_def docs_ok_def split: cursor_docs.splits prod.splits sum.splits)
qed (simp add: get_more_def)

lemma kill_inv: "cr_inv r \<Longrightarrow> cr_inv (fst (kill r cids))"
  by (induction r cids rule: kill.induct) (auto simp: drop_state_inv split: prod.splits)

lemma get_more_change_stream_inv: "cr_inv r \<Longrightarrow> cr_inv (fst (get_more_change_stream r now cid b t0 w polls clock))"
proof (cases "map_of (cr_cursors r) cid")
  case (Some s)
  assume "cr_inv r"
  then have "docs_ok s" using map_of_SomeD [OF Some] by (auto simp: cr_inv_def)
  then show ?thesis using \<open>cr_inv r\<close> put_state_inv [OF \<open>cr_inv r\<close> Some] by (simp add: get_more_change_stream_def Some)
qed (simp add: get_more_change_stream_def)

lemma expire_idle_inv: "cr_inv r \<Longrightarrow> cr_inv (expire_idle r now)"
  using cursors.distinct_expire [of r now] le_trans [OF cursors.length_expire [of r now], of "max 1 (cr_max_cursors r)"]
  by (auto simp: cr_inv_def expire_idle_def)

lemma create_inv: "cr_inv r \<Longrightarrow> create r now draws ns docs b = Some (r', cid, batch) \<Longrightarrow> cr_inv r'"
  using register_inv by (fastforce simp: create_def Let_def docs_ok_def split: if_splits)

lemma create_from_iter_inv: "cr_inv r \<Longrightarrow> create_from_iter r now draws ns it b = Some (Inr (r', cid, batch)) \<Longrightarrow> cr_inv r'"
  using register_inv by (fastforce simp: create_from_iter_def Let_def docs_ok_def split: prod.splits sum.splits if_splits)

lemma create_change_stream_inv: "cr_inv r \<Longrightarrow> create_change_stream r now draws ns b = Some (r', cid) \<Longrightarrow> cr_inv r'"
  using register_inv by (fastforce simp: create_change_stream_def docs_ok_def)

text \<open>The requests the server makes of the registry, in any order and with any clock.\<close>

datatype 'd cursor_op =
    Create nat "64 word list" string "'d list" "nat option"
  | CreateFromIter nat "64 word list" string "'d py_iter" "nat option"
  | CreateChangeStream nat "64 word list" string "nat option"
  | GetMore nat cursor_id "nat option"
  | GetMoreChangeStream nat cursor_id "nat option" nat nat "(string + 'd option) list" "(nat \<times> nat) list"
  | Kill "cursor_id list"
  | Expire nat

fun cr_step :: "'d cursor_registry \<Rightarrow> 'd cursor_op \<Rightarrow> 'd cursor_registry" where
  "cr_step r (Create now draws ns docs b) = (case create r now draws ns docs b of Some (r', _) \<Rightarrow> r' | None \<Rightarrow> r)"
| "cr_step r (CreateFromIter now draws ns it b) =
     (case create_from_iter r now draws ns it b of Some (Inr (r', _)) \<Rightarrow> r' | _ \<Rightarrow> r)"
| "cr_step r (CreateChangeStream now draws ns b) = (case create_change_stream r now draws ns b of Some (r', _) \<Rightarrow> r' | None \<Rightarrow> r)"
| "cr_step r (GetMore now cid b) = fst (get_more r now cid b)"
| "cr_step r (GetMoreChangeStream now cid b t0 w polls clock) = fst (get_more_change_stream r now cid b t0 w polls clock)"
| "cr_step r (Kill cids) = fst (kill r cids)"
| "cr_step r (Expire now) = expire_idle r now"

lemma cr_step_inv: "cr_inv r \<Longrightarrow> cr_inv (cr_step r p)"
  by (cases p) (auto simp: get_more_inv get_more_change_stream_inv kill_inv expire_idle_inv
    intro: create_inv create_from_iter_inv create_change_stream_inv split: option.splits sum.splits)


section \<open>Reading a cursor to its end\<close>

text \<open>A client that sends \<^verbatim>\<open>getMore\<close> requests until it is told 0.\<close>

fun drain :: "'d cursor_registry \<Rightarrow> cursor_id \<Rightarrow> (nat \<times> nat option) list \<Rightarrow> 'd list \<times> bool" where
  "drain r cid [] = ([], False)"
| "drain r cid ((now, b) # requests) = (case get_more r now cid b of
     (r', Inr (Some (next, batch))) \<Rightarrow>
       if next = 0 then (batch, True) else (case drain r' cid requests of (ds, closed) \<Rightarrow> (batch @ ds, closed))
   | _ \<Rightarrow> ([], False))"

definition collect :: "'d cursor_registry \<Rightarrow> cursor_id \<Rightarrow> 'd list \<Rightarrow> (nat \<times> nat option) list \<Rightarrow> 'd list \<times> bool" where
  "collect r cid first_batch requests =
     (if cid = 0 then (first_batch, True) else (case drain r cid requests of (ds, closed) \<Rightarrow> (first_batch @ ds, closed)))"

lemma map_of_put_state [simp]: "map_of (cr_cursors (put_state r cid s)) cid = Some s"
  by (simp add: put_state_def)

lemma take_drop_split: "off \<le> stop \<Longrightarrow> take (stop - off) (drop off xs) @ drop stop xs = drop off xs"
  by (metis add.commute append_take_drop_id drop_drop le_add_diff_inverse2)

lemma drain_materialized:
  assumes "map_of (cr_cursors r) cid = Some s" "cs_docs s = Materialized docs (length docs) off" "off < length docs" "cid \<noteq> 0"
    "\<forall>(now, b) \<in> set requests. 0 < opt_or (cs_batch_size s) b" "length docs - off \<le> length requests"
  shows "drain r cid requests = (drop off docs, True)"
  using assms
proof (induction requests arbitrary: r s off)
  case (Cons req requests)
  obtain now b where req: "req = (now, b)" by (cases req)
  define stop where "stop = min (off + opt_or (cs_batch_size s) b) (length docs)"
  have pos: "0 < opt_or (cs_batch_size s) b" using Cons.prems(5) by (simp add: req)
  show ?case
  proof (cases "length docs \<le> stop")
    case True
    then have stop: "stop = length docs" by (simp add: stop_def)
    have "get_more r now cid b = (drop_state r cid, Inr (Some (0, drop off docs)))"
      using Cons.prems(1,2) True stop by (simp add: get_more_def Let_def stop_def)
    then show ?thesis by (simp add: req)
  next
    case False
    let ?s = "s\<lparr>cs_last_accessed := now, cs_docs := Materialized docs (length docs) stop\<rparr>"
    have g: "get_more r now cid b = (put_state r cid ?s, Inr (Some (cid, take (stop - off) (drop off docs))))"
      using Cons.prems(1,2) False by (auto simp: get_more_def Let_def stop_def)
    have "off < stop" using pos Cons.prems(3) by (auto simp: stop_def)
    moreover have "drain (put_state r cid ?s) cid requests = (drop stop docs, True)"
      using False Cons.prems(4-6) \<open>off < stop\<close> by (intro Cons.IH [where s = ?s]) auto
    ultimately show ?thesis using Cons.prems(4) take_drop_split [of off stop docs] by (simp add: req g)
  qed
qed simp

lemma pull_batch_items: "pull_batch (map Inr ds) n = (Inr (take n ds, length ds < n), map Inr (drop n ds))"
proof (induction ds arbitrary: n)
  case Nil
  then show ?case by (cases n) simp_all
next
  case (Cons d ds)
  then show ?case by (cases n) simp_all
qed

lemma drain_streaming:
  assumes "map_of (cr_cursors r) cid = Some s" "cs_docs s = Streaming (map Inr ds)" "cid \<noteq> 0"
    "\<forall>(now, b) \<in> set requests. 0 < opt_or (cs_batch_size s) b" "length ds < length requests"
  shows "drain r cid requests = (ds, True)"
  using assms
proof (induction requests arbitrary: r s ds)
  case (Cons req requests)
  obtain now b where req: "req = (now, b)" by (cases req)
  let ?n = "opt_or (cs_batch_size s) b"
  have pos: "0 < ?n" using Cons.prems(4) by (simp add: req)
  show ?case
  proof (cases "length ds < ?n")
    case True
    then show ?thesis using Cons.prems(1,2) by (simp add: req get_more_def Let_def pull_batch_items)
  next
    case False
    let ?s = "s\<lparr>cs_last_accessed := now, cs_docs := Streaming (map Inr (drop ?n ds))\<rparr>"
    have "get_more r now cid b = (put_state r cid ?s, Inr (Some (cid, take ?n ds)))"
      using Cons.prems(1,2) False by (simp add: get_more_def Let_def pull_batch_items)
    moreover have "drain (put_state r cid ?s) cid requests = (drop ?n ds, True)"
      using False Cons.prems(3-5) pos by (intro Cons.IH [where s = ?s]) auto
    ultimately show ?thesis using Cons.prems(3) by (simp add: req)
  qed
qed simp

lemma register_get:
  assumes "register r draws s = Some (r', cid)"
  shows "map_of (cr_cursors r') cid = Some s" "cid \<noteq> 0"
  using assms generate_id_fresh(1) by (auto simp: register_def Let_def)



end
