(* ===== verification/Sessions.thy ===== *)
theory Sessions
  imports Registry
begin

text \<open>
  Logical sessions and their transactions, \<^verbatim>\<open>smongo-py/src/wire_sessions.rs\<close> and
  \<^verbatim>\<open>wire_transactions.rs\<close>. A Python session id is seen through what \<^verbatim>\<open>extract_key\<close> reads of it. Clock
  readings, fresh UUIDs and the outcome of the calls on the Python transaction object are arguments.
\<close>

section \<open>The session registry\<close>

text \<open>A session id: \<^verbatim>\<open>None\<close>, a dictionary with perhaps the text of its \<^verbatim>\<open>id\<close>, or another object's text.\<close>

datatype lsid = NoneLsid | DictLsid "string option" | OtherLsid string

definition extract_key :: "lsid \<Rightarrow> string" where
  "extract_key l = (case l of DictLsid (Some s) \<Rightarrow> s | DictLsid None \<Rightarrow> [] | OtherLsid s \<Rightarrow> s | NoneLsid \<Rightarrow> ''None'')"

record session_entry =
  se_session_id :: lsid
  se_created_at :: nat
  se_last_use :: nat

record session_registry =
  sr_sessions :: "(string \<times> session_entry) list"
  sr_timeout :: nat
  sr_max_sessions :: nat

datatype session_error = TooManySessions nat

definition sr_new :: "nat \<Rightarrow> nat \<Rightarrow> session_registry" where
  "sr_new timeout_minutes max_sessions = \<lparr>sr_sessions = [], sr_timeout = timeout_minutes * 60, sr_max_sessions = max_sessions\<rparr>"

definition fresh_entry :: "lsid \<Rightarrow> nat \<Rightarrow> session_entry" where
  "fresh_entry l now = \<lparr>se_session_id = l, se_created_at = now, se_last_use = now\<rparr>"

definition create_session :: "session_registry \<Rightarrow> nat \<Rightarrow> string \<Rightarrow> session_registry \<times> (session_error + string)" where
  "create_session r now uuid =
     (if sr_max_sessions r \<le> length (sr_sessions r) then (r, Inl (TooManySessions (sr_max_sessions r)))
      else (r\<lparr>sr_sessions := al_insert uuid (fresh_entry (OtherLsid uuid) now) (sr_sessions r)\<rparr>, Inr uuid))"

definition touch :: "session_registry \<Rightarrow> nat \<Rightarrow> lsid \<Rightarrow> session_registry" where
  "touch r now l = (if l = NoneLsid then r else
     (let key = extract_key l in
      case map_of (sr_sessions r) key of
        Some e \<Rightarrow> r\<lparr>sr_sessions := al_insert key (e\<lparr>se_last_use := now\<rparr>) (sr_sessions r)\<rparr>
      | None \<Rightarrow> if length (sr_sessions r) < sr_max_sessions r
          then r\<lparr>sr_sessions := al_insert key (fresh_entry l now) (sr_sessions r)\<rparr> else r))"

definition refresh_one :: "nat \<Rightarrow> session_registry \<Rightarrow> lsid \<Rightarrow> session_registry" where
  "refresh_one now r l = (case map_of (sr_sessions r) (extract_key l) of
     Some e \<Rightarrow> r\<lparr>sr_sessions := al_insert (extract_key l) (e\<lparr>se_last_use := now\<rparr>) (sr_sessions r)\<rparr>
   | None \<Rightarrow> r)"

definition refresh :: "session_registry \<Rightarrow> nat \<Rightarrow> lsid list \<Rightarrow> session_registry" where
  "refresh r now ids = foldl (refresh_one now) r ids"

definition end_sessions :: "session_registry \<Rightarrow> lsid list \<Rightarrow> session_registry" where
  "end_sessions r ids = foldl (\<lambda>r l. r\<lparr>sr_sessions := al_remove (extract_key l) (sr_sessions r)\<rparr>) r ids"

definition kill_sessions :: "session_registry \<Rightarrow> lsid list \<Rightarrow> session_registry" where
  "kill_sessions r ids = end_sessions r ids"

definition expire_sessions :: "session_registry \<Rightarrow> nat \<Rightarrow> session_registry" where
  "expire_sessions r now =
     r\<lparr>sr_sessions := filter (\<lambda>(_, e). \<not> sr_timeout r < idle_for now (se_last_use e)) (sr_sessions r)\<rparr>"

definition expire_all :: "session_registry \<Rightarrow> session_registry" where
  "expire_all r = r\<lparr>sr_sessions := []\<rparr>"

definition session_count :: "session_registry \<Rightarrow> nat" where
  "session_count r = length (sr_sessions r)"

interpretation sessions: idle_registry sr_sessions se_last_use sr_timeout expire_sessions
  by unfold_locales (simp_all add: expire_sessions_def)

text \<open>The requests of the connections, interleaved in any order.\<close>

datatype session_op = NewSession nat string | Touch nat lsid | Refresh nat "lsid list" | End "lsid list"
  | ExpireIdle nat | ExpireAll

fun sr_step :: "session_registry \<Rightarrow> session_op \<Rightarrow> session_registry" where
  "sr_step r (NewSession now uuid) = fst (create_session r now uuid)"
| "sr_step r (Touch now l) = touch r now l"
| "sr_step r (Refresh now ids) = refresh r now ids"
| "sr_step r (End ids) = end_sessions r ids"
| "sr_step r (ExpireIdle now) = expire_sessions r now"
| "sr_step r ExpireAll = expire_all r"

section \<open>The limit\<close>

definition sr_inv :: "session_registry \<Rightarrow> bool" where
  "sr_inv r \<longleftrightarrow> distinct (map fst (sr_sessions r)) \<and> length (sr_sessions r) \<le> sr_max_sessions r"

lemma sr_update_inv:
  "sr_inv r \<Longrightarrow> map_of (sr_sessions r) k = Some e \<Longrightarrow> sr_inv (r\<lparr>sr_sessions := al_insert k e' (sr_sessions r)\<rparr>)"
  by (auto simp: sr_inv_def length_al_insert rev_image_eqI dest!: map_of_SomeD)

lemma sr_insert_inv:
  "sr_inv r \<Longrightarrow> length (sr_sessions r) < sr_max_sessions r \<Longrightarrow> sr_inv (r\<lparr>sr_sessions := al_insert k e (sr_sessions r)\<rparr>)"
  by (auto simp: sr_inv_def length_al_insert)

lemma sr_remove_inv: "sr_inv r \<Longrightarrow> sr_inv (r\<lparr>sr_sessions := al_remove k (sr_sessions r)\<rparr>)"
  using le_trans [OF length_al_remove_le, of "sr_sessions r" "sr_max_sessions r" k] by (simp add: sr_inv_def)

lemma sr_refresh_inv: "sr_inv r \<Longrightarrow> sr_inv (refresh r now ids)"
  unfolding refresh_def by (induction ids arbitrary: r) (auto simp: refresh_one_def sr_update_inv split: option.splits)

lemma sr_end_inv: "sr_inv r \<Longrightarrow> sr_inv (end_sessions r ids)"
  unfolding end_sessions_def by (induction ids arbitrary: r) (auto simp: sr_remove_inv)

lemma sr_expire_inv: "sr_inv r \<Longrightarrow> sr_inv (expire_sessions r now)"
  using sessions.distinct_expire [of r now] le_trans [OF sessions.length_expire [of r now], of "sr_max_sessions r"]
  by (auto simp: sr_inv_def expire_sessions_def)

lemma sr_step_inv: "sr_inv r \<Longrightarrow> sr_inv (sr_step r p)"
  by (cases p) (auto simp: create_session_def touch_def Let_def sr_refresh_inv sr_end_inv sr_expire_inv expire_all_def sr_update_inv sr_insert_inv
    split: option.splits, simp add: sr_inv_def)

section \<open>A session lives as long as it is used\<close>

text \<open>Requests that neither end session \<^term>\<open>k\<close> nor expire sessions after the time \<^term>\<open>t\<close>.\<close>

fun spares :: "string \<Rightarrow> nat \<Rightarrow> nat \<Rightarrow> session_op \<Rightarrow> bool" where
  "spares k t0 t (NewSession now uuid) \<longleftrightarrow> t0 \<le> now"
| "spares k t0 t (Touch now l) \<longleftrightarrow> t0 \<le> now"
| "spares k t0 t (Refresh now ids) \<longleftrightarrow> t0 \<le> now"
| "spares k t0 t (End ids) \<longleftrightarrow> k \<notin> extract_key ` set ids"
| "spares k t0 t (ExpireIdle now) \<longleftrightarrow> now \<le> t"
| "spares k t0 t ExpireAll \<longleftrightarrow> False"

definition used_since :: "string \<Rightarrow> nat \<Rightarrow> session_registry \<Rightarrow> bool" where
  "used_since k t0 r \<longleftrightarrow> (case map_of (sr_sessions r) k of Some e \<Rightarrow> t0 \<le> se_last_use e | None \<Rightarrow> False)"

lemma used_insert:
  "used_since k t0 r \<Longrightarrow> t0 \<le> se_last_use e \<Longrightarrow> used_since k t0 (r\<lparr>sr_sessions := al_insert j e (sr_sessions r)\<rparr>)"
  by (simp add: used_since_def)

lemma used_refresh: "used_since k t0 r \<Longrightarrow> t0 \<le> now \<Longrightarrow> used_since k t0 (refresh r now ids)"
  unfolding refresh_def by (induction ids arbitrary: r) (auto simp: refresh_one_def used_insert split: option.splits)

lemma used_end: "used_since k t0 r \<Longrightarrow> k \<notin> extract_key ` set ids \<Longrightarrow> used_since k t0 (end_sessions r ids)"
  unfolding end_sessions_def by (induction ids arbitrary: r) (auto simp: used_since_def)

lemma map_of_filter_distinct: "distinct (map fst xs) \<Longrightarrow> map_of xs k = Some v \<Longrightarrow> P (k, v) \<Longrightarrow> map_of (filter P xs) k = Some v"
  by (induction xs) (auto simp: rev_image_eqI dest!: map_of_SomeD)

lemma used_expire:
  assumes "used_since k t0 r" "distinct (map fst (sr_sessions r))" "now \<le> t0 + sr_timeout r"
  shows "used_since k t0 (expire_sessions r now)"
proof -
  from assms(1) obtain e where e: "map_of (sr_sessions r) k = Some e" "t0 \<le> se_last_use e"
    by (auto simp: used_since_def split: option.splits)
  then have "map_of (sr_sessions (expire_sessions r now)) k = Some e"
    using assms(3) unfolding sessions.entries_expire by (intro map_of_filter_distinct [OF assms(2)]) (auto simp: idle_for_def)
  then show ?thesis using e by (simp add: used_since_def)
qed

lemma limits_step [simp]: "sr_timeout (sr_step r p) = sr_timeout r" "sr_max_sessions (sr_step r p) = sr_max_sessions r"
proof -
  have "sr_timeout (refresh r now ids) = sr_timeout r \<and> sr_max_sessions (refresh r now ids) = sr_max_sessions r" for now ids
    unfolding refresh_def by (induction ids arbitrary: r) (auto simp: refresh_one_def split: option.splits)
  moreover have "sr_timeout (end_sessions r ids) = sr_timeout r \<and> sr_max_sessions (end_sessions r ids) = sr_max_sessions r" for ids
    unfolding end_sessions_def by (induction ids arbitrary: r) auto
  ultimately show "sr_timeout (sr_step r p) = sr_timeout r" "sr_max_sessions (sr_step r p) = sr_max_sessions r"
    by (cases p; auto simp: create_session_def touch_def Let_def expire_sessions_def expire_all_def split: option.splits)+
qed

lemma used_step:
  assumes "used_since k t0 r" "sr_inv r" "spares k t0 (t0 + sr_timeout r) p"
  shows "used_since k t0 (sr_step r p)"
  using assms by (cases p)
    (auto simp: create_session_def touch_def Let_def fresh_entry_def used_insert used_refresh used_end used_expire sr_inv_def
      split: option.splits)



section \<open>Transactions\<close>

datatype transaction_state = TxnNone | Active | Committed | Aborted

record session_transaction =
  txn_state :: transaction_state
  txn_number :: "64 word"

datatype transaction_error = NoTransaction | SessionRaised string

definition txn_new :: "64 word \<Rightarrow> session_transaction" where
  "txn_new n = \<lparr>txn_state = Active, txn_number = n\<rparr>"

text \<open>
  The call on the Python transaction object returns or raises, as \<open>outcome\<close> tells; the flag of the answer says
  whether the call was made. The transaction is the object that a successful call moves on.
\<close>

definition finish_transaction :: "transaction_state \<Rightarrow> session_transaction option \<Rightarrow> string + unit \<Rightarrow>
    session_transaction option \<times> bool \<times> (transaction_error + unit)" where
  "finish_transaction target txn outcome = (case txn of
     None \<Rightarrow> (None, False, Inl NoTransaction)
   | Some t \<Rightarrow>
       if txn_state t \<noteq> Active then (Some t, False, Inl NoTransaction)
       else (case outcome of
         Inl e \<Rightarrow> (Some t, True, Inl (SessionRaised e))
       | Inr _ \<Rightarrow> (Some (t\<lparr>txn_state := target\<rparr>), True, Inr ())))"

definition commit_active_transaction :: "session_transaction option \<Rightarrow> string + unit \<Rightarrow>
    session_transaction option \<times> bool \<times> (transaction_error + unit)" where
  "commit_active_transaction = finish_transaction Committed"

definition abort_active_transaction :: "session_transaction option \<Rightarrow> string + unit \<Rightarrow>
    session_transaction option \<times> bool \<times> (transaction_error + unit)" where
  "abort_active_transaction = finish_transaction Aborted"

text \<open>What the client asks, and how many of the requests took effect as commits and as rollbacks.\<close>

datatype txn_op = Commit "string + unit" | Abort "string + unit"

fun txn_run :: "session_transaction option \<Rightarrow> txn_op list \<Rightarrow> session_transaction option \<times> nat \<times> nat" where
  "txn_run t [] = (t, 0, 0)"
| "txn_run t (Commit out # ops) = (case commit_active_transaction t out of (t', called, res) \<Rightarrow>
     (case txn_run t' ops of (t'', c, a) \<Rightarrow> (t'', c + of_bool (is_ok res), a)))"
| "txn_run t (Abort out # ops) = (case abort_active_transaction t out of (t', called, res) \<Rightarrow>
     (case txn_run t' ops of (t'', c, a) \<Rightarrow> (t'', c, a + of_bool (is_ok res))))"

lemma finished_run:
  "txn_state t \<noteq> Active \<Longrightarrow> txn_run (Some t) ops = (Some t, 0, 0)"
proof (induction ops)
  case (Cons p ops)
  then show ?case by (cases p) (simp_all add: commit_active_transaction_def abort_active_transaction_def finish_transaction_def)
qed simp

text \<open>
  Whatever the client asks for, a transaction is committed or rolled back at most once and never
  both, and its final state tells which.
\<close>

theorem transaction_finishes_once:
  "case txn_run (Some (txn_new n)) ops of (t, commits, aborts) \<Rightarrow>
     (t, commits, aborts) \<in> {(Some (txn_new n), 0, 0), (Some (txn_new n\<lparr>txn_state := Committed\<rparr>), 1, 0),
       (Some (txn_new n\<lparr>txn_state := Aborted\<rparr>), 0, 1)}"
proof (induction ops)
  case (Cons p ops)
  note defs = commit_active_transaction_def abort_active_transaction_def finish_transaction_def
  show ?case
  proof (cases p)
    case (Commit out)
    show ?thesis
    proof (cases out)
      case (Inl e)
      then show ?thesis using Cons by (simp add: Commit defs split_beta)
    next
      case (Inr u)
      then show ?thesis using finished_run [of "txn_new n\<lparr>txn_state := Committed\<rparr>" ops]
        by (simp add: Commit defs split_beta) (simp add: txn_new_def)
    qed
  next
    case (Abort out)
    show ?thesis
    proof (cases out)
      case (Inl e)
      then show ?thesis using Cons by (simp add: Abort defs split_beta)
    next
      case (Inr u)
      then show ?thesis using finished_run [of "txn_new n\<lparr>txn_state := Aborted\<rparr>" ops]
        by (simp add: Abort defs split_beta) (simp add: txn_new_def)
    qed
  qed
qed simp

end
