(* ===== verification/Rbac.thy ===== *)
theory Rbac
  imports Main
begin

text \<open>
  Role-based access control of the wire server, \<^verbatim>\<open>smongo-py/src/rbac.rs\<close>: the commands each builtin
  role grants and the decision for a user's roles on a database. A role without commands of its own,
  \<^verbatim>\<open>root\<close>, allows everything.
\<close>

definition read_commands :: "string set" where
  "read_commands = {
     ''find'', ''count'', ''distinct'', ''aggregate'', ''getMore'', ''killCursors'', ''listCollections'',
     ''listIndexes'', ''collStats'', ''dbStats'', ''serverStatus'', ''ping'', ''hello'', ''ismaster'',
     ''isMaster'', ''connectionStatus'', ''buildInfo'', ''buildinfo'', ''hostInfo'', ''whatsmyuri'',
     ''explain'', ''getLog'', ''getCmdLineOpts'', ''getFreeMonitoringStatus'', ''connPoolStats'', ''features'',
     ''listCommands'', ''listDatabases'', ''replSetGetStatus'', ''replSetGetConfig'', ''shardingState'',
     ''lockInfo''}"

definition read_write_commands :: "string set" where
  "read_write_commands = read_commands \<union> {
     ''insert'', ''update'', ''delete'', ''findAndModify'', ''createIndexes'', ''dropIndexes'',
     ''deleteIndexes'', ''create'', ''drop'', ''bulkWrite''}"

definition db_admin_commands :: "string set" where
  "db_admin_commands = read_commands \<union> {
     ''createIndexes'', ''dropIndexes'', ''deleteIndexes'', ''create'', ''drop'', ''collMod'', ''compact'',
     ''validate'', ''reIndex'', ''renameCollection'', ''dropDatabase'', ''fsync'', ''getParameter'',
     ''setParameter'', ''logRotate'', ''setFreeMonitoring''}"

definition user_admin_commands :: "string set" where
  "user_admin_commands = {
     ''createUser'', ''dropUser'', ''updateUser'', ''usersInfo'', ''grantRolesToUser'',
     ''revokeRolesFromUser'', ''rolesInfo''}"

definition db_owner_commands :: "string set" where
  "db_owner_commands = read_write_commands \<union> db_admin_commands \<union> user_admin_commands"

text \<open>\<^const>\<open>None\<close> means everything is allowed.\<close>

definition commands_for_role :: "string \<Rightarrow> string set option" where
  "commands_for_role role =
     (if role = ''read'' then Some read_commands
      else if role = ''readWrite'' then Some read_write_commands
      else if role = ''dbAdmin'' then Some db_admin_commands
      else if role = ''userAdmin'' then Some user_admin_commands
      else if role = ''dbOwner'' then Some db_owner_commands
      else if role = ''root'' then None
      else Some {})"

fun check_privilege :: "(string \<times> string) list \<Rightarrow> string \<Rightarrow> string \<Rightarrow> bool" where
  "check_privilege [] command target_db = False"
| "check_privilege ((role_name, role_db) # roles) command target_db =
     (let db_matches = (role_db = target_db \<or> role_db = ''*'') in
      if role_name = ''root'' \<and> role_db = ''admin'' then True
      else if \<not> db_matches then check_privilege roles command target_db
      else case commands_for_role role_name of
        None \<Rightarrow> True
      | Some allowed \<Rightarrow> if command \<in> allowed then True else check_privilege roles command target_db)"

section \<open>What the decision means\<close>

definition role_grants :: "string \<times> string \<Rightarrow> string \<Rightarrow> string \<Rightarrow> bool" where
  "role_grants role command target_db = (case role of (name, db) \<Rightarrow>
     name = ''root'' \<and> db = ''admin'' \<or>
     (db = target_db \<or> db = ''*'') \<and> (case commands_for_role name of None \<Rightarrow> True | Some allowed \<Rightarrow> command \<in> allowed))"

lemma check_privilege_iff: "check_privilege roles command db \<longleftrightarrow> (\<exists>role \<in> set roles. role_grants role command db)"
proof (induction roles)
  case (Cons role roles)
  have "check_privilege (role # roles) command db \<longleftrightarrow> role_grants role command db \<or> check_privilege roles command db"
    by (cases role) (auto simp: role_grants_def Let_def split: option.split if_splits)
  with Cons show ?case by simp
qed simp

lemmas role_sets = read_commands_def read_write_commands_def db_admin_commands_def user_admin_commands_def db_owner_commands_def

text \<open>
  C26. A user may run a command on a database exactly when one of the user's roles grants it there, so
  further roles never take a permission away and the order of the roles does not matter; and a user without a role on
  the database, on all databases or \<^verbatim>\<open>root\<close> on \<^verbatim>\<open>admin\<close> may run nothing there. A reader or a user
  administrator of the database alone never gets to write.
\<close>

theorem check_privilege_decides:
  "(check_privilege roles command db \<longleftrightarrow> (\<exists>role \<in> set roles. role_grants role command db)) \<and>
   (set roles \<subseteq> UNIV \<times> (- {db, ''*'', ''admin''}) \<longrightarrow> \<not> check_privilege roles command db) \<and>
   (set roles \<subseteq> {''read'', ''userAdmin''} \<times> UNIV \<longrightarrow> command \<in> {''insert'', ''update'', ''delete'', ''findAndModify'', ''drop''} \<longrightarrow>
     \<not> check_privilege roles command db)"
proof (intro conjI impI)
  show "check_privilege roles command db \<longleftrightarrow> (\<exists>role \<in> set roles. role_grants role command db)" by (rule check_privilege_iff)
next
  assume "set roles \<subseteq> UNIV \<times> (- {db, ''*'', ''admin''})"
  then show "\<not> check_privilege roles command db" by (force simp: check_privilege_iff role_grants_def)
next
  assume "set roles \<subseteq> {''read'', ''userAdmin''} \<times> UNIV" and c: "command \<in> {''insert'', ''update'', ''delete'', ''findAndModify'', ''drop''}"
  moreover have "\<not> role_grants (''read'', d) command db" "\<not> role_grants (''userAdmin'', d) command db" for d
    using c by (auto simp: role_grants_def commands_for_role_def role_sets)
  ultimately show "\<not> check_privilege roles command db" by (auto simp: check_privilege_iff)
qed

theorem check_privilege_decides_witness:
  "(check_privilege [(''read'', ''app'')] ''insert'' ''app'' \<longleftrightarrow> (\<exists>role \<in> set [(''read'', ''app'')]. role_grants role ''insert'' ''app'')) \<and>
   \<not> check_privilege [(''read'', ''app'')] ''insert'' ''app'' \<and> \<not> check_privilege [(''read'', ''app'')] ''find'' ''other''"
proof -
  have "\<not> check_privilege [(''read'', ''app'')] ''insert'' ''app''"
    using check_privilege_decides [of "[(''read'', ''app'')]" "''insert''" "''app''"] by (auto simp del: check_privilege.simps)
  moreover have "\<not> check_privilege [(''read'', ''app'')] ''find'' ''other''"
    using check_privilege_decides [of "[(''read'', ''app'')]" "''find''" "''other''"] by (auto simp del: check_privilege.simps)
  ultimately show ?thesis
    using check_privilege_decides [of "[(''read'', ''app'')]" "''insert''" "''app''"] by blast
qed

end
