(* ===== verification/Object_Id.thy ===== *)
theory Object_Id
  imports Bson
begin

text \<open>
  Object ids, \<^verbatim>\<open>smongo-py/src/objectid.rs\<close>: generation from the clock, the random bytes of the process
  and a shared counter, and the hexadecimal form with its parser. The random bytes, the seed of the counter and
  the clock readings are arguments. Ids of one process repeat only after \<open>2 ^ 24\<close> generations.
\<close>

unbundle bit_operations_syntax

section \<open>Hexadecimal text\<close>

definition hex_val :: "char \<Rightarrow> nat option" where
  "hex_val c = (let n = of_char c :: nat in
     if 48 \<le> n \<and> n \<le> 57 then Some (n - 48)
     else if 97 \<le> n \<and> n \<le> 102 then Some (n - 87)
     else if 65 \<le> n \<and> n \<le> 70 then Some (n - 55) else None)"

fun hex_decode :: "string \<Rightarrow> bytes option" where
  "hex_decode [] = Some []"
| "hex_decode [c] = None"
| "hex_decode (a # b # s) = (case (hex_val a, hex_val b, hex_decode s) of
     (Some h, Some l, Some bs) \<Rightarrow> Some (of_nat (16 * h + l) # bs) | _ \<Rightarrow> None)"

definition is_objectid_hex :: "string \<Rightarrow> bool" where
  "is_objectid_hex s \<longleftrightarrow> length s = 24 \<and> list_all (\<lambda>c. hex_val c \<noteq> None) s"

definition invalid_object_id :: "string \<Rightarrow> string" where
  "invalid_object_id s = ''Invalid ObjectId: '' @ CHR 0x27 # s @ [CHR 0x27]"

definition from_hex :: "string \<Rightarrow> string + bytes" where
  "from_hex s = (if length s \<noteq> 24 then Inl (invalid_object_id s)
     else ok_or (invalid_object_id s) (hex_decode s))"

lemma hex_val_digit: "n < 16 \<Longrightarrow> hex_val (hex_digit n) = Some n"
  by (simp add: hex_val_def hex_digit_def Let_def of_char_of)

lemma hex_decode_to_hex [simp]: "hex_decode (to_hex bs) = Some bs"
proof (induction bs)
  case (Cons b bs)
  have b: "unat b < 256" using unsigned_less [of b] by simp
  then have "hex_val (hex_digit (unat b div 16)) = Some (unat b div 16)" "hex_val (hex_digit (unat b mod 16)) = Some (unat b mod 16)"
    by (simp_all add: hex_val_digit)
  moreover have "16 * (unat b div 16) + unat b mod 16 = unat b" by simp
  ultimately show ?case using Cons by (simp add: to_hex_def)
qed (simp add: to_hex_def)

lemma length_to_hex [simp]: "length (to_hex bs) = 2 * length bs"
  by (induction bs) (simp_all add: to_hex_def)

lemma hex_decode_length: "hex_decode s = Some bs \<Longrightarrow> length s = 2 * length bs"
  by (induction s arbitrary: bs rule: hex_decode.induct) (auto split: option.splits)

lemma is_objectid_hex_decode: "is_objectid_hex s \<longleftrightarrow> length s = 24 \<and> hex_decode s \<noteq> None"
proof -
  have "even (length s) \<Longrightarrow> list_all (\<lambda>c. hex_val c \<noteq> None) s \<longleftrightarrow> hex_decode s \<noteq> None"
    by (induction s rule: hex_decode.induct) (auto split: option.splits)
  then show ?thesis by (auto simp: is_objectid_hex_def)
qed

section \<open>Generation\<close>

record oid_globals =
  og_random_bytes :: bytes
  og_counter :: "32 word"

definition init_globals :: "bytes \<Rightarrow> byte \<Rightarrow> byte \<Rightarrow> byte \<Rightarrow> oid_globals" where
  "init_globals random s0 s1 s2 = \<lparr>og_random_bytes = random,
     og_counter = push_bit 16 (ucast s0) OR push_bit 8 (ucast s1) OR ucast s2\<rparr>"

text \<open>The atomic counter is advanced even when its 24 low bits wrap.\<close>

definition generate_raw :: "oid_globals \<Rightarrow> 64 word \<Rightarrow> bytes \<times> oid_globals" where
  "generate_raw g secs =
     (let counter = (og_counter g + 1) AND 0x00FFFFFF in
      (be_bytes 4 (ucast secs :: 32 word) @ og_random_bytes g @ [ucast (drop_bit 16 counter), ucast (drop_bit 8 counter), ucast counter],
       g\<lparr>og_counter := og_counter g + 1\<rparr>))"

fun generate_many :: "oid_globals \<Rightarrow> 64 word list \<Rightarrow> bytes list" where
  "generate_many g [] = []"
| "generate_many g (t # ts) = (case generate_raw g t of (oid, g') \<Rightarrow> oid # generate_many g' ts)"

text \<open>The three last bytes determine the counter modulo \<open>2 ^ 24\<close>.\<close>

lemma counter_bytes:
  fixes c d :: "32 word"
  assumes "ucast (drop_bit 16 c) = (ucast (drop_bit 16 d) :: byte)" "ucast (drop_bit 8 c) = (ucast (drop_bit 8 d) :: byte)"
    "ucast c = (ucast d :: byte)"
  shows "take_bit 24 c = take_bit 24 d"
proof (rule bit_eqI)
  fix n :: nat
  have low: "bit c (k + m) = bit d (k + m)" if "ucast (drop_bit k c) = (ucast (drop_bit k d) :: byte)" "m < 8" for k m
    using arg_cong [OF that(1), of "\<lambda>w. bit w m"] that(2) by (simp add: bit_ucast_iff bit_drop_bit_eq)
  consider "n < 8" | "8 \<le> n" "n < 16" | "16 \<le> n" "n < 24" | "24 \<le> n" by linarith
  then show "bit (take_bit 24 c) n = bit (take_bit 24 d) n"
  proof cases
    case 1
    then show ?thesis using low [of 0 n] assms(3) by (simp add: bit_take_bit_iff)
  next
    case 2
    then show ?thesis using low [of 8 "n - 8"] assms(2) by (simp add: bit_take_bit_iff)
  next
    case 3
    then show ?thesis using low [of 16 "n - 16"] assms(1) by (simp add: bit_take_bit_iff)
  qed (simp add: bit_take_bit_iff)
qed

lemma raw_counter:
  "drop (4 + length (og_random_bytes g)) (fst (generate_raw g t)) =
    (let c = (og_counter g + 1) AND 0x00FFFFFF in [ucast (drop_bit 16 c), ucast (drop_bit 8 c), ucast c])"
  by (simp add: generate_raw_def Let_def)

lemma same_counter:
  assumes "fst (generate_raw g t) = fst (generate_raw h u)" "og_random_bytes g = og_random_bytes h"
  shows "take_bit 24 (og_counter g + 1) = take_bit 24 (og_counter h + 1)"
proof -
  have m: "(w :: 32 word) AND 0x00FFFFFF = take_bit 24 w" for w by (simp add: take_bit_eq_mask mask_eq_decr_exp)
  have "drop (4 + length (og_random_bytes g)) (fst (generate_raw g t)) = drop (4 + length (og_random_bytes h)) (fst (generate_raw h u))"
    using assms by simp
  then have "take_bit 24 (take_bit 24 (og_counter g + 1)) = take_bit 24 (take_bit 24 (og_counter h + 1))"
    unfolding raw_counter Let_def m by (intro counter_bytes) (simp_all only: list.inject)
  then show ?thesis by simp
qed

lemma unat_low_bits: "unat (take_bit 24 (c + of_nat n :: 32 word)) = (unat c + n) mod 2 ^ 24"
proof -
  have "unat (take_bit 24 (c + of_nat n)) = unat (c + of_nat n) mod 2 ^ 24"
    by (subst unsigned_take_bit_eq) (simp only: take_bit_eq_mod)
  also have "\<dots> = ((unat c + n mod 2 ^ 32) mod 2 ^ 32) mod 2 ^ 24"
    by (simp add: unat_word_ariths(1) unat_of_nat)
  also have "\<dots> = (unat c + n mod 2 ^ 32) mod 2 ^ 24" by (rule mod_mod_cancel) simp
  also have "\<dots> = (unat c + (n mod 2 ^ 32) mod 2 ^ 24) mod 2 ^ 24" by (rule mod_add_right_eq [symmetric])
  also have "(n mod 2 ^ 32) mod 2 ^ 24 = n mod 2 ^ 24" by (rule mod_mod_cancel) simp
  finally show ?thesis by (simp only: mod_add_right_eq)
qed

lemma generate_many_nth:
  "i < length ts \<Longrightarrow> generate_many g ts ! i = fst (generate_raw (g\<lparr>og_counter := og_counter g + of_nat i\<rparr>) (ts ! i))"
proof (induction ts arbitrary: g i)
  case (Cons t ts)
  then show ?case by (cases i) (simp_all add: generate_raw_def Let_def add.assoc)
qed simp

lemma length_generate_many [simp]: "length (generate_many g ts) = length ts"
  by (induction ts arbitrary: g) (simp_all add: split_beta)

lemma mod_eq_nat_cancel: "(a + i) mod n = (a + j) mod n \<longleftrightarrow> i mod n = j mod (n :: nat)"
proof -
  have "(a + i) mod n = (a + j) mod n \<longleftrightarrow> int (a + i) mod int n = int (a + j) mod int n" for a
    by (metis of_nat_eq_iff zmod_int)
  from this [of a] this [of 0] show ?thesis by (simp add: mod_eq_dvd_iff)
qed

text \<open>
  C27. The ids one process generates are pairwise different for any clock readings, up to
  \<open>2 ^ 24\<close> of them in a row.
\<close>

theorem object_ids_unique:
  assumes "length ts \<le> 2 ^ 24"
  shows "distinct (generate_many g ts)"
proof -
  have "i = j" if "i < length ts" "j < length ts" "generate_many g ts ! i = generate_many g ts ! j" for i j
  proof -
    let ?g = "\<lambda>i. g\<lparr>og_counter := og_counter g + of_nat i\<rparr>"
    have c: "og_counter (?g i) = og_counter g + of_nat i" for i by simp
    have "fst (generate_raw (?g i) (ts ! i)) = fst (generate_raw (?g j) (ts ! j))"
      using that by (simp only: generate_many_nth)
    then have "take_bit 24 (og_counter (?g i) + 1) = take_bit 24 (og_counter (?g j) + 1)" by (rule same_counter) simp
    then have "take_bit 24 (og_counter g + 1 + of_nat i) = take_bit 24 (og_counter g + 1 + of_nat j)"
      unfolding c by (simp only: ac_simps)
    then have "(unat (og_counter g + 1) + i) mod 2 ^ 24 = (unat (og_counter g + 1) + j) mod 2 ^ 24"
      by (metis unat_low_bits)
    then have "i mod 2 ^ 24 = j mod 2 ^ 24" by (simp only: mod_eq_nat_cancel)
    then show ?thesis using that assms by simp
  qed
  then show ?thesis by (auto simp: distinct_conv_nth)
qed


theorem object_ids_unique_witness:
  "distinct (generate_many \<lparr>og_random_bytes = [1, 2, 3, 4, 5], og_counter = 0xFFFFFF\<rparr> [1700000000, 1700000000])"
  by (rule object_ids_unique) simp

end
