(* ===== verification/Py_Bson.thy ===== *)
theory Py_Bson
  imports Object_Id Externs
begin

text \<open>
  The conversion between Python objects and BSON values, \<^verbatim>\<open>smongo-py/src/bson_helpers.rs\<close>, and the
  object id class seen from Python, \<^verbatim>\<open>objectid.rs\<close>. A Python object is the datatype of the classes the
  conversion tells apart, in the order of its tests; every other object is its type name and its text. What
  Python's own library returns (\<^verbatim>\<open>datetime.fromtimestamp\<close>, \<^verbatim>\<open>re.compile\<close>) are the fields of a record. An
  exception is the text of its kind.
\<close>

unbundle bit_operations_syntax

section \<open>Python objects\<close>

datatype py_key = TextKey string | OtherKey

text \<open>The flags of a \<^verbatim>\<open>bson.Regex\<close>: PyMongo stores a number, other producers a text.\<close>

datatype py_flags = FlagsText string | FlagsInt int

datatype py =
    PyNone
  | PyBool bool
  | PyInt64 int
  | PyInt int
  | PyFloat f64
  | PyStr string
  | PyOid bytes
  | PyDecimal128 bytes string
  | PyRegex string py_flags
  | PyUuid bytes
  | PyBinary byte bytes
  | PyBytes bytes
  | PyPattern string "32 word"
  | PyDict "(py_key \<times> py) list"
  | PyList "py list"
  | PyTuple "py list"
  | PyTimestamp "32 word" "32 word"
  | PyDatetime f64
  | PyBsonOid string
  | PyOther string string

record py_env =
  pe_fromtimestamp :: "f64 \<Rightarrow> string + py"
  pe_compile :: "string \<Rightarrow> 32 word \<Rightarrow> string + py"

section \<open>From Python\<close>

definition int_in_i64 :: "int \<Rightarrow> bool" where
  "int_in_i64 n \<longleftrightarrow> - (2 ^ 63) \<le> n \<and> n < 2 ^ 63"

definition int_in_i32 :: "int \<Rightarrow> bool" where
  "int_in_i32 n \<longleftrightarrow> - (2 ^ 31) \<le> n \<and> n < 2 ^ 31"

text \<open>\<^verbatim>\<open>extract::<i64>()\<close> of a Python integer.\<close>

definition extract_i64 :: "int \<Rightarrow> string + int" where
  "extract_i64 n = (if int_in_i64 n then Inr n else Inl ''OverflowError'')"

definition py_regex_options :: "32 word \<Rightarrow> string" where
  "py_regex_options w = (if w AND 2 \<noteq> 0 then ''i'' else []) @ (if w AND 8 \<noteq> 0 then ''m'' else []) @
     (if w AND 16 \<noteq> 0 then ''s'' else []) @ (if w AND 64 \<noteq> 0 then ''x'' else [])"

definition f64_thousand :: f64 where
  "f64_thousand = f64_of_int 1000"

fun py_size :: "py \<Rightarrow> nat" where
  "py_size (PyDict items) = Suc (sum_list (map (\<lambda>(_, v). py_size v) items))"
| "py_size (PyList xs) = Suc (sum_list (map py_size xs))"
| "py_size (PyTuple xs) = Suc (sum_list (map py_size xs))"
| "py_size _ = 1"

lemma py_size_item: "x \<in> set xs \<Longrightarrow> py_size x < Suc (sum_list (map py_size xs))"
  by (simp add: less_Suc_eq_le member_le_sum_list)

lemma py_size_value: "(k, v) \<in> set items \<Longrightarrow> py_size v < Suc (sum_list (map (\<lambda>(_, v). py_size v) items))"
  using member_le_sum_list [of "py_size v" "map (\<lambda>(_, v). py_size v) items"] by force

function py_to_bson :: "py \<Rightarrow> string + bson" and pydict_to_doc :: "(py_key \<times> py) list \<Rightarrow> string + doc" where
  "py_to_bson v = (case v of
     PyNone \<Rightarrow> Inr Null
   | PyBool b \<Rightarrow> Inr (Boolean b)
   | PyInt64 n \<Rightarrow> res_bind (extract_i64 n) (\<lambda>n. Inr (i64 n))
   | PyInt n \<Rightarrow> res_bind (extract_i64 n) (\<lambda>n. Inr (if int_in_i32 n then i32 n else i64 n))
   | PyFloat x \<Rightarrow> Inr (Double x)
   | PyStr s \<Rightarrow> Inr (if s = ''$MinKey'' then MinKey else if s = ''$MaxKey'' then MaxKey else Str s)
   | PyOid raw \<Rightarrow> Inr (ObjectId raw)
   | PyDecimal128 bid text_form \<Rightarrow> Inr (if length bid = 16 then Decimal128 bid else Str text_form)
   | PyRegex pattern flags \<Rightarrow> Inr (RegularExpression pattern (case flags of FlagsText s \<Rightarrow> s | FlagsInt _ \<Rightarrow> []))
   | PyUuid raw \<Rightarrow> Inr (Binary 4 raw)
   | PyBinary subtype raw \<Rightarrow> Inr (Binary subtype raw)
   | PyBytes raw \<Rightarrow> Inr (Binary 0 raw)
   | PyPattern pattern flags \<Rightarrow> Inr (RegularExpression pattern (py_regex_options flags))
   | PyDict items \<Rightarrow> res_bind (pydict_to_doc items) (\<lambda>d. Inr (Document d))
   | PyList xs \<Rightarrow> res_bind (map_res py_to_bson xs) (\<lambda>ys. Inr (Array ys))
   | PyTuple xs \<Rightarrow> res_bind (map_res py_to_bson xs) (\<lambda>ys. Inr (Array ys))
   | PyTimestamp t n \<Rightarrow> Inr (Timestamp t n)
   | PyDatetime ts \<Rightarrow> Inr (DateTime (word_of_int (f64_to_i64 (f64_mul ts f64_thousand))))
   | PyBsonOid hex_str \<Rightarrow> Inr (if length hex_str = 24 then (case hex_decode hex_str of Some raw \<Rightarrow> ObjectId raw | None \<Rightarrow> Str hex_str)
       else Str hex_str)
   | PyOther type_name text_form \<Rightarrow> Inr (Str text_form))"
| "pydict_to_doc items =
     res_bind (map_res (\<lambda>(k, v). case k of
         OtherKey \<Rightarrow> Inl ''TypeError''
       | TextKey key \<Rightarrow> res_bind
           (case v of
              PyStr s \<Rightarrow> if key = ''_id'' \<and> is_objectid_hex s
                then Inr (case hex_decode s of Some raw \<Rightarrow> ObjectId raw | None \<Rightarrow> Str s) else py_to_bson v
            | _ \<Rightarrow> py_to_bson v)
           (\<lambda>b. Inr (key, b))) items)
       (\<lambda>fields. Inr (foldl (\<lambda>d (k, b). doc_insert k b d) [] fields))"
  by pat_completeness auto

termination
  by (relation "measure (case_sum (\<lambda>v. 2 * py_size v) (\<lambda>items. 2 * sum_list (map (\<lambda>(_, v). py_size v) items) + 1))")
    (auto dest: py_size_item py_size_value)

declare py_to_bson.simps [simp del] pydict_to_doc.simps [simp del]

definition pyany_to_doc :: "py \<Rightarrow> string + doc" where
  "pyany_to_doc v = (case v of PyDict items \<Rightarrow> pydict_to_doc items | _ \<Rightarrow> Inl ''TypeError'')"

definition pipeline_stage :: "py \<Rightarrow> string + doc" where
  "pipeline_stage item = res_bind (pyany_to_doc item) (\<lambda>d. case d of
     [] \<Rightarrow> Inl ''ValueError''
   | (first_key, _) # _ \<Rightarrow> if starts_with first_key ''$'' then Inr d else Inl ''ValueError'')"

definition pylist_to_pipeline :: "py list \<Rightarrow> string + doc list" where
  "pylist_to_pipeline items = map_res pipeline_stage items"

section \<open>To Python\<close>

text \<open>
  The seconds and microseconds of a date: both divisions truncate, and the remainder is cast to an
  unsigned 32-bit number.
\<close>

definition quot_trunc :: "int \<Rightarrow> int \<Rightarrow> int" where
  "quot_trunc a b = (if a < 0 then - ((- a) div b) else a div b)"

definition datetime_parts :: "64 word \<Rightarrow> int \<times> 32 word" where
  "datetime_parts dt = (let millis = sint dt in (quot_trunc millis 1000, word_of_int (rem_trunc millis 1000 * 1000)))"

definition datetime_seconds :: "64 word \<Rightarrow> f64" where
  "datetime_seconds dt = (case datetime_parts dt of (secs, micros) \<Rightarrow>
     f64_add (f64_of_int secs) (f64_div (f64_of_int (uint micros)) (f64_of_int 1000000)))"

definition regex_flag :: "char \<Rightarrow> 32 word" where
  "regex_flag c = (if c = CHR ''i'' then 2 else if c = CHR ''m'' then 8 else if c = CHR ''s'' then 16 else if c = CHR ''x'' then 64 else 0)"

definition py_set_item :: "(py_key \<times> py) list \<Rightarrow> string \<Rightarrow> py \<Rightarrow> (py_key \<times> py) list" where
  "py_set_item items k v = al_insert (TextKey k) v items"

function bson_to_py :: "externs \<Rightarrow> py_env \<Rightarrow> bson \<Rightarrow> string + py" and doc_to_pydict :: "externs \<Rightarrow> py_env \<Rightarrow> doc \<Rightarrow> string + (py_key \<times> py) list" where
  "bson_to_py X P b = (case b of
     Null \<Rightarrow> Inr PyNone
   | Boolean x \<Rightarrow> Inr (PyBool x)
   | Int32 n \<Rightarrow> Inr (PyInt (sint n))
   | Int64 n \<Rightarrow> Inr (PyInt (sint n))
   | Double x \<Rightarrow> Inr (PyFloat x)
   | Str s \<Rightarrow> Inr (PyStr s)
   | Binary _ raw \<Rightarrow> Inr (PyBytes raw)
   | ObjectId raw \<Rightarrow> res_bind (from_hex (to_hex raw)) (\<lambda>raw. Inr (PyOid raw))
   | DateTime dt \<Rightarrow> pe_fromtimestamp P (datetime_seconds dt)
   | Document d \<Rightarrow> res_bind (doc_to_pydict X P d) (\<lambda>items. Inr (PyDict items))
   | Array xs \<Rightarrow> res_bind (map_res (bson_to_py X P) xs) (\<lambda>ys. Inr (PyList ys))
   | RegularExpression pattern options \<Rightarrow> pe_compile P pattern (foldl (\<lambda>w c. w OR regex_flag c) 0 options)
   | Timestamp t n \<Rightarrow> Inr (PyDict [(TextKey ''t'', PyInt (uint t)), (TextKey ''i'', PyInt (uint n))])
   | other \<Rightarrow> Inr (PyStr (x_bson_display X other)))"
| "doc_to_pydict X P d =
     res_bind (map_res (\<lambda>(k, v). res_bind (bson_to_py X P v) (\<lambda>p. Inr (k, p))) d)
       (\<lambda>fields. Inr (foldl (\<lambda>items (k, p). py_set_item items k p) [] fields))"
  by pat_completeness auto

termination
  by (relation "measure (case_sum (\<lambda>(X, P, b). 2 * bson_nodes b) (\<lambda>(X, P, d). 2 * bson_nodes (Document d) - 1))")
    (auto simp del: bson_nodes.simps dest: bson_nodes_item bson_nodes_field, auto)

declare bson_to_py.simps [simp del] doc_to_pydict.simps [simp del]

section \<open>Values that survive\<close>

fun plain :: "py \<Rightarrow> bool" where
  "plain (PyInt n) \<longleftrightarrow> int_in_i64 n"
| "plain (PyStr s) \<longleftrightarrow> s \<noteq> ''$MinKey'' \<and> s \<noteq> ''$MaxKey''"
| "plain (PyOid raw) \<longleftrightarrow> length raw = 12"
| "plain (PyList xs) \<longleftrightarrow> (\<forall>x \<in> set xs. plain x)"
| "plain (PyDict items) \<longleftrightarrow> distinct (map fst items) \<and>
     (\<forall>(k, v) \<in> set items. plain v \<and> (case k of OtherKey \<Rightarrow> False
        | TextKey key \<Rightarrow> \<not> (key = ''_id'' \<and> (case v of PyStr s \<Rightarrow> is_objectid_hex s | _ \<Rightarrow> False))))"
| "plain v \<longleftrightarrow> v = PyNone \<or> (\<exists>b. v = PyBool b) \<or> (\<exists>x. v = PyFloat x) \<or> (\<exists>raw. v = PyBytes raw)"

lemma plain_int:
  assumes "int_in_i64 n"
  shows "\<exists>b. py_to_bson (PyInt n) = Inr b \<and> bson_to_py X P b = Inr (PyInt n)"
  using assms by (auto simp: py_to_bson.simps bson_to_py.simps extract_i64_def i32_def i64_def int_in_i32_def int_in_i64_def
    sint_word_of_int32 sint_word_of_int64)

lemma plain_items:
  assumes "plain (PyDict items)"
  obtains kvs where "items = map (\<lambda>(k, v). (TextKey k, v)) kvs" "distinct (map fst kvs)"
    "\<And>k v. (k, v) \<in> set kvs \<Longrightarrow> \<not> (k = ''_id'' \<and> (case v of PyStr s \<Rightarrow> is_objectid_hex s | _ \<Rightarrow> False))"
proof -
  define kvs where "kvs = map (\<lambda>(k, v). (case k of TextKey s \<Rightarrow> s | OtherKey \<Rightarrow> [], v)) items"
  have each: "plain v \<and> (case k of OtherKey \<Rightarrow> False | TextKey key \<Rightarrow>
      \<not> (key = ''_id'' \<and> (case v of PyStr s \<Rightarrow> is_objectid_hex s | _ \<Rightarrow> False)))" if "(k, v) \<in> set items" for k v
    using assms that by auto
  have items: "items = map (\<lambda>(k, v). (TextKey k, v)) kvs"
  proof -
    have "(\<lambda>(k, v). (TextKey k, v)) ((\<lambda>(k, v). (case k of TextKey s \<Rightarrow> s | OtherKey \<Rightarrow> [], v)) x) = x" if "x \<in> set items" for x
      using each [of "fst x" "snd x"] that by (cases x) (auto split: py_key.splits)
    then show ?thesis unfolding kvs_def map_map by (intro map_idI [symmetric]) simp
  qed
  moreover have "distinct (map fst kvs)"
  proof -
    have "map fst items = map TextKey (map fst kvs)" by (subst items) (simp add: split_beta)
    then have "distinct (map TextKey (map fst kvs))" using assms by (simp only: plain.simps)
    then show ?thesis by (simp only: distinct_map)
  qed
  moreover have "\<not> (k = ''_id'' \<and> (case v of PyStr s \<Rightarrow> is_objectid_hex s | _ \<Rightarrow> False))" if "(k, v) \<in> set kvs" for k v
  proof -
    have "(TextKey k, v) \<in> set items" by (subst items) (use that in force)
    then show ?thesis using each by fastforce
  qed
  ultimately show ?thesis by (rule that)
qed

lemma dict_roundtrip:
  assumes "\<And>k v. (k, v) \<in> set items \<Longrightarrow> \<exists>b. py_to_bson v = Inr b \<and> bson_to_py X P b = Inr v"
    and "plain (PyDict items)"
  shows "\<exists>d. pydict_to_doc items = Inr d \<and> doc_to_pydict X P d = Inr items"
proof -
  obtain kvs where kvs: "items = map (\<lambda>(k, v). (TextKey k, v)) kvs" "distinct (map fst kvs)"
    "\<And>k v. (k, v) \<in> set kvs \<Longrightarrow> \<not> (k = ''_id'' \<and> (case v of PyStr s \<Rightarrow> is_objectid_hex s | _ \<Rightarrow> False))"
    using plain_items [OF assms(2)] by blast
  define B where "B v = (case py_to_bson v of Inr b \<Rightarrow> b | Inl _ \<Rightarrow> Null)" for v
  have B: "py_to_bson v = Inr (B v) \<and> bson_to_py X P (B v) = Inr v" if kv: "(k, v) \<in> set kvs" for k v
  proof -
    have "(TextKey k, v) \<in> set items" using kv by (force simp: kvs(1))
    from assms(1) [OF this] show ?thesis by (auto simp: B_def)
  qed
  define d where "d = map (\<lambda>(k, v). (k, B v)) kvs"
  have keys: "map fst d = map fst kvs" by (simp add: d_def split_beta)
  have step: "map_res f (map (\<lambda>(k, v). (TextKey k, v)) kvs) = Inr d"
    if "\<And>k v. (k, v) \<in> set kvs \<Longrightarrow> f (TextKey k, v) = Inr (k, B v)" for f
    using that unfolding d_def by (induction kvs) auto
  have "pydict_to_doc items = Inr (foldl (\<lambda>d (k, b). doc_insert k b d) [] d)"
    unfolding kvs(1) pydict_to_doc.simps 
  proof (subst step)
    show "(case (TextKey k, v) of (k, v) \<Rightarrow> case k of TextKey key \<Rightarrow> res_bind
        (case v of PyStr s \<Rightarrow> if key = ''_id'' \<and> is_objectid_hex s
            then Inr (case hex_decode s of None \<Rightarrow> Str s | Some raw \<Rightarrow> ObjectId raw) else py_to_bson v
          | _ \<Rightarrow> py_to_bson v) (\<lambda>b. Inr (key, b)) | OtherKey \<Rightarrow> Inl ''TypeError'') = Inr (k, B v)" if "(k, v) \<in> set kvs" for k v
      using kvs(3) [OF that] B [OF that] by (cases v) auto
  qed simp
  also have "\<dots> = Inr d" using foldl_al_insert [of "[]" d] kvs(2) by (simp add: keys)
  finally have "pydict_to_doc items = Inr d" .
  moreover have "doc_to_pydict X P d = Inr items"
  proof -
    have "map_res (\<lambda>(k, v). res_bind (bson_to_py X P v) (\<lambda>p. Inr (k, p))) d = Inr kvs"
    proof -
      have "\<And>k v. (k, v) \<in> set kvs \<Longrightarrow> bson_to_py X P (B v) = Inr v" using B by blast
      then show ?thesis unfolding d_def
      proof (induction kvs)
        case (Cons kv kvs)
        obtain k v where kv: "kv = (k, v)" by (cases kv)
        have "bson_to_py X P (B v) = Inr v" using Cons.prems [of k v] by (simp add: kv)
        moreover have "\<And>k v. (k, v) \<in> set kvs \<Longrightarrow> bson_to_py X P (B v) = Inr v" using Cons.prems by (meson list.set_intros(2))
        ultimately show ?case using Cons.IH by (simp add: kv)
      qed simp
    qed
    moreover have "foldl (\<lambda>items (k, p). py_set_item items k p) acc kvs = acc @ map (\<lambda>(k, v). (TextKey k, v)) kvs"
      if "distinct (map fst (acc @ map (\<lambda>(k, v). (TextKey k, v)) kvs))" for acc
      using that foldl_al_insert [of acc "map (\<lambda>(k, v). (TextKey k, v)) kvs"] by (simp add: foldl_map case_prod_unfold py_set_item_def)
    moreover have "distinct (map fst (map (\<lambda>(k, v). (TextKey k, v)) kvs))" using kvs(1) assms(2) by simp
    ultimately show ?thesis by (simp add: doc_to_pydict.simps kvs(1))
  qed
  ultimately show ?thesis by blast
qed

lemma plain_roundtrip:
  assumes "plain v"
  shows "\<exists>b. py_to_bson v = Inr b \<and> bson_to_py X P b = Inr v"
  using assms
proof (induction v rule: plain.induct)
  case (1 n)
  then show ?case using plain_int by simp
next
  case (3 raw)
  then show ?case by (simp add: py_to_bson.simps bson_to_py.simps from_hex_def)
next
  case (4 xs)
  then obtain bs where "map_res py_to_bson xs = Inr bs" "map_res (bson_to_py X P) bs = Inr xs"
    using map_res_inverse [of xs py_to_bson "bson_to_py X P"] by auto
  then show ?case by (intro exI [of _ "Array bs"]) (simp add: py_to_bson.simps bson_to_py.simps)
next
  case (5 items)
  have "plain v" if "(k, v) \<in> set items" for k v using 5(2) that by auto
  then obtain d where "pydict_to_doc items = Inr d" "doc_to_pydict X P d = Inr items"
    using dict_roundtrip [OF _ 5(2), of X P] 5(1) by (metis snd_conv)
  then show ?case by (intro exI [of _ "Document d"]) (simp add: py_to_bson.simps [of "PyDict items"] bson_to_py.simps [of X P "Document d"])
qed (auto simp: py_to_bson.simps bson_to_py.simps)

lemma py_bson_roundtrip_dict:
  assumes "plain (PyDict items)"
  shows "\<exists>d. pydict_to_doc items = Inr d \<and> doc_to_pydict X P d = Inr items"
proof (rule dict_roundtrip [OF _ assms])
  fix k v
  assume "(k, v) \<in> set items"
  then have "plain v" using assms by auto
  then show "\<exists>b. py_to_bson v = Inr b \<and> bson_to_py X P b = Inr v" by (rule plain_roundtrip)
qed

text \<open>An instance of what Python's library returns, for concrete inputs.\<close>

definition sample_py_env :: py_env where
  "sample_py_env = \<lparr>pe_fromtimestamp = \<lambda>t. Inr (PyDatetime t), pe_compile = \<lambda>s f. Inr (PyPattern s f)\<rparr>"

text \<open>
  C28. A Python value made of \<^verbatim>\<open>None\<close>, booleans, 64-bit integers, floats, text, bytes, object ids, lists and
  dictionaries with text keys is converted without an exception, and converting it back returns it, unless it
  holds one of the two sentinel texts or an \<^verbatim>\<open>_id\<close> that looks like an object id.
\<close>

theorem py_bson_roundtrip:
  assumes "plain v"
  shows "\<exists>b. py_to_bson v = Inr b \<and> bson_to_py X P b = Inr v"
  using plain_roundtrip [OF assms] .

theorem py_bson_roundtrip_witness:
  "\<exists>b. py_to_bson (PyDict [(TextKey ''a'', PyInt 5000000000), (TextKey ''_id'', PyStr ''x'')]) = Inr b \<and>
    bson_to_py sample_externs sample_py_env b = Inr (PyDict [(TextKey ''a'', PyInt 5000000000), (TextKey ''_id'', PyStr ''x'')])"
  by (rule py_bson_roundtrip) (simp add: int_in_i64_def is_objectid_hex_def)

lemma datetime_micros:
  "uint (snd (datetime_parts dt)) = (rem_trunc (sint dt) 1000 * 1000) mod 2 ^ 32"
  unfolding datetime_parts_def Let_def snd_conv by (simp only: uint_word_of_int len_num1 len_bit0 len_bit1) simp

text \<open>
  The seconds and microseconds handed to Python add up to the date for dates from 1970 on and for
  whole seconds; for every other date before 1970 they are \<open>2 ^ 32\<close> microseconds too late.
\<close>

theorem datetime_before_epoch:
  "fst (datetime_parts dt) * 1000000 + uint (snd (datetime_parts dt)) =
     sint dt * 1000 + (if sint dt < 0 \<and> \<not> 1000 dvd sint dt then 2 ^ 32 else 0)"
proof (cases "sint dt < 0")
  case True
  define m where "m = - sint dt"
  have m: "sint dt = - m" "0 < m" using True by (simp_all add: m_def)
  have scale: "m * 1000 = m div 1000 * 1000000 + m mod 1000 * 1000"
    using div_mult_mod_eq [of m 1000] by linarith
  have dv: "1000 dvd sint dt \<longleftrightarrow> m mod 1000 = 0" by (simp add: m(1) mod_eq_0_iff_dvd)
  have "(- (m mod 1000) * 1000) mod 2 ^ 32 = - (m mod 1000) * 1000 + (if m mod 1000 = 0 then 0 else 2 ^ 32)"
  proof (cases "m mod 1000 = 0")
    case False
    then have "0 < m mod 1000" "m mod 1000 < 1000" by (simp_all add: le_neq_trans)
    then have "(- (m mod 1000) * 1000 + 2 ^ 32) mod 2 ^ 32 = - (m mod 1000) * 1000 + 2 ^ 32" by (intro mod_pos_pos_trivial) auto
    then show ?thesis using False by simp
  qed simp
  moreover have "fst (datetime_parts dt) = - (m div 1000)" using m by (simp add: datetime_parts_def quot_trunc_def)
  moreover have "rem_trunc (sint dt) 1000 = - (m mod 1000)" using m by (simp add: rem_trunc_def)
  ultimately show ?thesis using True scale unfolding datetime_micros dv by (cases "m mod 1000 = 0") (simp_all add: m(1))
next
  case False
  define m where "m = sint dt"
  have r: "0 \<le> m mod 1000" "m mod 1000 < 1000" by simp_all
  have "m * 1000 = m div 1000 * 1000000 + m mod 1000 * 1000" using div_mult_mod_eq [of m 1000] by linarith
  moreover have "(m mod 1000 * 1000) mod 2 ^ 32 = m mod 1000 * 1000" using r by (intro mod_pos_pos_trivial) auto
  moreover have "fst (datetime_parts dt) = m div 1000" "rem_trunc (sint dt) 1000 = m mod 1000"
    using False by (simp_all add: m_def datetime_parts_def quot_trunc_def rem_trunc_def Let_def)
  ultimately show ?thesis using False unfolding datetime_micros m_def [symmetric] by simp
qed

section \<open>The object id class\<close>

text \<open>The constructor, given nothing, an object id, text, bytes or something else.\<close>

definition oid_new :: "oid_globals \<Rightarrow> 64 word \<Rightarrow> py option \<Rightarrow> (string + bytes) \<times> oid_globals" where
  "oid_new g secs arg = (case arg of
     None \<Rightarrow> (case generate_raw g secs of (raw, g') \<Rightarrow> (Inr raw, g'))
   | Some (PyOid raw) \<Rightarrow> (Inr raw, g)
   | Some (PyStr s) \<Rightarrow> (if length s = 24 then (case hex_decode s of Some raw \<Rightarrow> Inr raw | None \<Rightarrow> Inl ''ValueError'') else Inl ''ValueError'', g)
   | Some (PyBytes raw) \<Rightarrow> (if length raw = 12 then Inr raw else Inl ''ValueError'', g)
   | Some _ \<Rightarrow> (Inl ''ValueError'', g))"

definition oid_is_valid :: "py \<Rightarrow> bool" where
  "oid_is_valid v = (case v of PyOid _ \<Rightarrow> True | PyStr s \<Rightarrow> length s = 24 \<and> hex_decode s \<noteq> None | _ \<Rightarrow> False)"

datatype compare_op = Lt | Le | Eq | Ne | Gt | Ge

text \<open>\<^const>\<open>None\<close> is \<^verbatim>\<open>NotImplemented\<close>.\<close>

definition oid_richcmp :: "bytes \<Rightarrow> py \<Rightarrow> compare_op \<Rightarrow> bool option" where
  "oid_richcmp raw other op = (case other of
     PyOid r \<Rightarrow> Some (case op of Lt \<Rightarrow> raw < r | Le \<Rightarrow> raw \<le> r | Eq \<Rightarrow> raw = r | Ne \<Rightarrow> raw \<noteq> r | Gt \<Rightarrow> r < raw | Ge \<Rightarrow> r \<le> raw)
   | PyStr s \<Rightarrow> (case op of Eq \<Rightarrow> Some (to_hex raw = s) | Ne \<Rightarrow> Some (to_hex raw \<noteq> s) | _ \<Rightarrow> None)
   | _ \<Rightarrow> None)"

definition generation_time :: "py_env \<Rightarrow> bytes \<Rightarrow> string + py" where
  "generation_time P raw = pe_fromtimestamp P (f64_of_int (uint (of_be_bytes (take 4 raw) :: 32 word)))"

lemma oid_new_valid: "oid_is_valid v \<Longrightarrow> \<exists>raw. fst (oid_new g secs (Some v)) = Inr raw"
  by (auto simp: oid_is_valid_def oid_new_def split: py.splits option.splits)

end
