(* ===== verification/Wire_Msg.thy ===== *)
theory Wire_Msg
  imports Py_Bson
begin

text \<open>
  The framing of the MongoDB wire protocol, \<^verbatim>\<open>smongo-py/src/wire_msg.rs\<close> with the document codec of
  \<^verbatim>\<open>raw_bson.rs\<close>: headers, \<^verbatim>\<open>OP_MSG\<close> with its sections and checksum, \<^verbatim>\<open>OP_QUERY\<close>, \<^verbatim>\<open>OP_REPLY\<close> and
  \<^verbatim>\<open>OP_COMPRESSED\<close>. Offsets are 64-bit and wrap as in a release build; a slice or index out of range is the error
  \<open>Panic\<close>. The byte encoding of a document (\<^verbatim>\<open>bson::to_vec\<close>, \<^verbatim>\<open>bson::from_slice\<close>), CRC-32C and the three compression
  libraries are parameters.
\<close>

unbundle bit_operations_syntax

section \<open>Words and offsets\<close>

definition usize_of_i32 :: "32 word \<Rightarrow> nat" where
  "usize_of_i32 w = nat (sint w mod 2 ^ 64)"

definition usize_add :: "nat \<Rightarrow> nat \<Rightarrow> nat" where
  "usize_add a b = (a + b) mod 2 ^ 64"

definition usize_sub :: "nat \<Rightarrow> nat \<Rightarrow> nat" where
  "usize_sub a b = nat ((int a - int b) mod 2 ^ 64)"

definition read_word :: "bytes \<Rightarrow> nat \<Rightarrow> 32 word" where
  "read_word data off = of_le_bytes (take 4 (drop off data))"

definition header_size :: nat where
  "header_size = 16"

definition max_msg_size :: nat where
  "max_msg_size = 48 * 1024 * 1024"

definition op_reply :: "32 word" where "op_reply = 1"
definition op_compressed :: "32 word" where "op_compressed = 2012"
definition op_msg :: "32 word" where "op_msg = 2013"

record msg_header =
  mh_length :: "32 word"
  mh_request_id :: "32 word"
  mh_response_to :: "32 word"
  mh_op_code :: "32 word"

datatype wire_error =
    TooShortHeader | TooShortFlags | BadChecksumLength | ChecksumMismatch "32 word" "32 word"
  | TruncatedSections | TruncatedKind1 | MissingNull | InvalidUtf8 | UnknownKind byte
  | BsonDecodeError string | BsonEncodeError string | TruncatedQuery | NotADict | TruncatedCompressed
  | SizeLimit nat | CompressorError string | SizeMismatch nat nat | UnknownCompressor byte | Panic

record wire_env =
  we_crc32c :: "bytes \<Rightarrow> 32 word"
  we_compress :: "byte \<Rightarrow> bytes \<Rightarrow> string + bytes"
  we_decompress :: "byte \<Rightarrow> bytes \<Rightarrow> string + bytes"

section \<open>Documents in a message\<close>

text \<open>The slice \<^verbatim>\<open>data[a..b]\<close> panics when it is out of range.\<close>

definition slice :: "bytes \<Rightarrow> nat \<Rightarrow> nat \<Rightarrow> wire_error + bytes" where
  "slice data a b = (if a \<le> b \<and> b \<le> length data then Inr (take (b - a) (drop a data)) else Inl Panic)"

definition raw_decode_document :: "externs \<Rightarrow> py_env \<Rightarrow> bytes \<Rightarrow> nat \<Rightarrow> wire_error + (py_key \<times> py) list \<times> nat" where
  "raw_decode_document X P data offset =
     (if length data < offset + 4 then Inl (BsonDecodeError ''truncated'')
      else (let doc_len = usize_of_i32 (read_word data offset) in
        if doc_len < 5 then Inl (BsonDecodeError ''too small'')
        else if length data < usize_add offset doc_len then Inl (BsonDecodeError ''truncated'')
        else res_bind (slice data offset (usize_add offset doc_len)) (\<lambda>s.
          case x_from_reader X s of
            None \<Rightarrow> Inl (BsonDecodeError ''invalid'')
          | Some d \<Rightarrow> res_bind (map_err BsonDecodeError (doc_to_pydict X P d)) (\<lambda>items.
              Inr (items, usize_add offset doc_len)))))"

definition raw_encode_document :: "externs \<Rightarrow> (py_key \<times> py) list \<Rightarrow> wire_error + bytes" where
  "raw_encode_document X items =
     res_bind (map_err BsonEncodeError (pydict_to_doc items)) (\<lambda>d. ok_or (BsonEncodeError ''encode'') (x_to_vec X d))"

lemma slice_Inr: "slice data a b = Inr s \<Longrightarrow> a \<le> b \<and> b \<le> length data"
  by (simp add: slice_def split: if_splits)

lemma decode_document_advances:
  assumes "raw_decode_document X P data offset = Inr (items, offset')"
  shows "offset < offset' \<and> offset' \<le> length data"
proof -
  let ?len = "usize_of_i32 (read_word data offset)"
  from assms(1) have r: "offset' = usize_add offset ?len" "5 \<le> ?len" "offset \<le> offset'" "offset' \<le> length data"
    by (auto simp: raw_decode_document_def Let_def dest!: slice_Inr split: if_splits option.splits)
  have "?len < 2 ^ 64" by (simp add: usize_of_i32_def nat_less_iff)
  moreover have "offset < 2 ^ 64" using r(1,3) mod_less_divisor [of "2 ^ 64" "offset + ?len"] by (simp add: usize_add_def)
  ultimately have "usize_add offset ?len \<noteq> offset"
    using r(2) by (auto simp: usize_add_def mod_if)
  then show ?thesis using r by simp
qed

section \<open>Headers and checksums\<close>

definition parse_header :: "bytes \<Rightarrow> wire_error + msg_header" where
  "parse_header data = (if length data < header_size then Inl TooShortHeader
     else Inr \<lparr>mh_length = read_word data 0, mh_request_id = read_word data 4, mh_response_to = read_word data 8, mh_op_code = read_word data 12\<rparr>)"

definition validate_checksum :: "wire_env \<Rightarrow> bytes \<Rightarrow> nat \<Rightarrow> wire_error + unit" where
  "validate_checksum W data msg_length =
     (if msg_length < 4 \<or> length data < msg_length then Inl BadChecksumLength
      else (let expected = read_word data (msg_length - 4); actual = we_crc32c W (take (msg_length - 4) data) in
        ensure (actual = expected) (ChecksumMismatch expected actual)))"

definition header_bytes :: "nat \<Rightarrow> 32 word \<Rightarrow> 32 word \<Rightarrow> 32 word \<Rightarrow> bytes" where
  "header_bytes len request_id response_to op =
     le_bytes 4 (of_nat len :: 32 word) @ le_bytes 4 request_id @ le_bytes 4 response_to @ le_bytes 4 op"

section \<open>OP\_MSG\<close>

function decode_docs :: "externs \<Rightarrow> py_env \<Rightarrow> bytes \<Rightarrow> nat \<Rightarrow> nat \<Rightarrow> wire_error + (py_key \<times> py) list list \<times> nat" where
  "decode_docs X P data offset stop =
     (if offset < stop then
        (case raw_decode_document X P data offset of
           Inl e \<Rightarrow> Inl e
         | Inr (items, offset') \<Rightarrow> res_bind (decode_docs X P data offset' stop) (\<lambda>(docs, offset''). Inr (items # docs, offset'')))
      else Inr ([], offset))"
  by pat_completeness auto

termination
  by (relation "measure (\<lambda>(X, P, data, offset, stop). length data - offset)")
    (auto dest: decode_document_advances)

declare decode_docs.simps [simp del]

text \<open>A section of kind 1: size, identifier, documents.\<close>

definition decode_kind1 :: "externs \<Rightarrow> py_env \<Rightarrow> bytes \<Rightarrow> nat \<Rightarrow> wire_error + (string \<times> (py_key \<times> py) list list) \<times> nat" where
  "decode_kind1 X P data offset =
     (if length data < offset + 4 then Inl TruncatedKind1
      else (let section_size = usize_of_i32 (read_word data offset); section_end = usize_add offset section_size; start = offset + 4 in
        res_bind (slice data start section_end) (\<lambda>s.
          if 0 \<notin> set s then Inl MissingNull
          else (let ident = takeWhile (\<lambda>b. b \<noteq> 0) s in
            res_bind (ok_or InvalidUtf8 (from_utf8 ident)) (\<lambda>identifier.
            res_bind (decode_docs X P data (start + length ident + 1) section_end) (\<lambda>(docs, offset').
              Inr ((identifier, docs), offset')))))))"

lemma decode_docs_advances:
  "decode_docs X P data offset stop = Inr (docs, offset') \<Longrightarrow> offset \<le> offset'"
proof (induction X P data offset stop arbitrary: docs offset' rule: decode_docs.induct)
  case (1 X P data offset stop)
  show ?case
  proof (cases "offset < stop")
    case True
    from 1(2) obtain items offset1 docs1 where r: "raw_decode_document X P data offset = Inr (items, offset1)"
        and d: "decode_docs X P data offset1 stop = Inr (docs1, offset')"
      by (simp add: decode_docs.simps [of X P data offset stop] True split: sum.splits prod.splits) auto
    from 1(1) [OF True r refl d] decode_document_advances [OF r] show ?thesis by simp
  next
    case False
    then show ?thesis using 1(2) by (simp add: decode_docs.simps [of X P data offset stop])
  qed
qed

lemma decode_kind1_advances: "decode_kind1 X P data offset = Inr (sec, offset') \<Longrightarrow> offset < offset'"
  by (auto simp: decode_kind1_def Let_def dest!: decode_docs_advances split: if_splits)

text \<open>The loop over the sections, with the body and the document sequences read so far.\<close>

type_synonym sections = "(py_key \<times> py) list option \<times> (string \<times> (py_key \<times> py) list list) list"

function decode_sections :: "externs \<Rightarrow> py_env \<Rightarrow> bytes \<Rightarrow> nat \<Rightarrow> nat \<Rightarrow> sections \<Rightarrow> wire_error + sections" where
  "decode_sections X P data offset stop acc =
     (if \<not> offset < stop then Inr acc
      else if length data \<le> offset then Inl TruncatedSections
      else if data ! offset = 0 then
        (case raw_decode_document X P data (offset + 1) of
           Inl e \<Rightarrow> Inl e
         | Inr (items, offset') \<Rightarrow> decode_sections X P data offset' stop (Some items, snd acc))
      else if data ! offset = 1 then
        (case decode_kind1 X P data (offset + 1) of
           Inl e \<Rightarrow> Inl e
         | Inr ((identifier, docs), offset') \<Rightarrow> decode_sections X P data offset' stop (fst acc, al_insert identifier docs (snd acc)))
      else Inl (UnknownKind (data ! offset)))"
  by pat_completeness auto

termination
  by (relation "measure (\<lambda>(X, P, data, offset, stop, acc). length data - offset)")
    (auto dest!: decode_document_advances decode_kind1_advances)

declare decode_sections.simps [simp del]

definition decode_msg :: "externs \<Rightarrow> py_env \<Rightarrow> wire_env \<Rightarrow> bytes \<Rightarrow> wire_error + msg_header \<times> 32 word \<times> sections" where
  "decode_msg X P W data =
     res_bind (parse_header data) (\<lambda>header.
     if length data < header_size + 4 then Inl TooShortFlags
     else (let flags = read_word data header_size; has_checksum = (flags AND 1 \<noteq> 0);
               msg_length = usize_of_i32 (mh_length header); stop = usize_sub msg_length (if has_checksum then 4 else 0) in
       res_then (if has_checksum then validate_checksum W data msg_length else Inr ()) (
       res_bind (decode_sections X P data (header_size + 4) stop (None, [])) (\<lambda>secs.
       Inr (header, flags, secs)))))"

definition encode_msg :: "externs \<Rightarrow> wire_env \<Rightarrow> 32 word \<Rightarrow> 32 word \<Rightarrow> (py_key \<times> py) list \<Rightarrow> bool \<Rightarrow> wire_error + bytes" where
  "encode_msg X W request_id response_to items include_checksum =
     res_bind (raw_encode_document X items) (\<lambda>body.
     let payload = 0 # body; flag_bits = (if include_checksum then 1 else 0 :: 32 word); payload_len = 4 + length payload in
     if include_checksum then
       (let msg = header_bytes (header_size + payload_len + 4) request_id response_to op_msg @ le_bytes 4 flag_bits @ payload in
        Inr (msg @ le_bytes 4 (we_crc32c W msg)))
     else Inr (header_bytes (header_size + payload_len) request_id response_to op_msg @ le_bytes 4 flag_bits @ payload))"

section \<open>OP\_QUERY and OP\_REPLY\<close>

definition decode_query :: "externs \<Rightarrow> py_env \<Rightarrow> bytes \<Rightarrow>
    wire_error + msg_header \<times> 32 word \<times> string \<times> 32 word \<times> 32 word \<times> (py_key \<times> py) list" where
  "decode_query X P data =
     res_bind (parse_header data) (\<lambda>header.
     if length data < header_size + 4 then Inl TruncatedQuery
     else (let flags = read_word data header_size; name_at = header_size + 4; rest = drop name_at data in
       if 0 \<notin> set rest then Inl MissingNull
       else (let name = takeWhile (\<lambda>b. b \<noteq> 0) rest; offset = name_at + length name + 1 in
         res_bind (ok_or InvalidUtf8 (from_utf8 name)) (\<lambda>full_coll_name.
         if length data < offset + 8 then Inl TruncatedQuery
         else res_bind (raw_decode_document X P data (offset + 8)) (\<lambda>(query, _).
           Inr (header, flags, full_coll_name, read_word data offset, read_word data (offset + 4), query))))))"

definition encode_reply :: "externs \<Rightarrow> 32 word \<Rightarrow> 32 word \<Rightarrow> py list \<Rightarrow> 64 word \<Rightarrow> 32 word \<Rightarrow> 32 word \<Rightarrow> wire_error + bytes" where
  "encode_reply X request_id response_to docs cursor_id starting_from response_flags =
     res_bind (map_res (\<lambda>d. case d of PyDict items \<Rightarrow> raw_encode_document X items | _ \<Rightarrow> Inl NotADict) docs) (\<lambda>raws.
     let docs_bson = concat raws; payload_len = 4 + 8 + 4 + 4 + length docs_bson in
     Inr (header_bytes (header_size + payload_len) request_id response_to op_reply @ le_bytes 4 response_flags @ le_bytes 8 cursor_id @
       le_bytes 4 starting_from @ le_bytes 4 (of_nat (length docs) :: 32 word) @ docs_bson))"

section \<open>OP\_COMPRESSED\<close>

definition known_compressor :: "byte \<Rightarrow> bool" where
  "known_compressor cid \<longleftrightarrow> cid \<in> {1, 2, 3}"

definition decompress :: "wire_env \<Rightarrow> byte \<Rightarrow> bytes \<Rightarrow> nat \<Rightarrow> wire_error + bytes" where
  "decompress W cid data expected =
     (if max_msg_size < expected then Inl (SizeLimit expected)
      else if cid = 0 then Inr data
      else if known_compressor cid then
        res_bind (map_err CompressorError (we_decompress W cid data)) (\<lambda>out.
          if length out = expected then Inr out else Inl (SizeMismatch (length out) expected))
      else Inl (UnknownCompressor cid))"

definition compress :: "wire_env \<Rightarrow> byte \<Rightarrow> bytes \<Rightarrow> wire_error + bytes" where
  "compress W cid data =
     (if cid = 0 then Inr data
      else if known_compressor cid then map_err CompressorError (we_compress W cid data)
      else Inl (UnknownCompressor cid))"

definition decode_compressed :: "wire_env \<Rightarrow> bytes \<Rightarrow> wire_error + bytes" where
  "decode_compressed W data =
     res_bind (parse_header data) (\<lambda>header.
     if length data < header_size + 9 then Inl TruncatedCompressed
     else (let original_opcode = read_word data header_size; uncompressed_size = usize_of_i32 (read_word data (header_size + 4));
               cid = data ! (header_size + 8) in
       res_bind (slice data (header_size + 9) (usize_of_i32 (mh_length header))) (\<lambda>compressed.
       res_bind (decompress W cid compressed uncompressed_size) (\<lambda>inner.
       Inr (header_bytes (header_size + length inner) (mh_request_id header) (mh_response_to header) original_opcode @ inner)))))"

definition encode_compressed :: "wire_env \<Rightarrow> bytes \<Rightarrow> 32 word \<Rightarrow> wire_error + bytes" where
  "encode_compressed W data compressor_id =
     res_bind (parse_header data) (\<lambda>header.
     let inner = drop header_size data; cid = ucast compressor_id :: byte in
     res_bind (compress W cid inner) (\<lambda>compressed.
     Inr (header_bytes (header_size + (4 + 4 + 1 + length compressed)) (mh_request_id header) (mh_response_to header) op_compressed @
       le_bytes 4 (mh_op_code header) @ le_bytes 4 (of_nat (length inner) :: 32 word) @ cid # compressed)))"

section \<open>Reading back what was written\<close>

lemma length_header_bytes [simp]: "length (header_bytes n a b c) = 16"
  by (simp add: header_bytes_def)

lemma read_word_at: "length pre = off \<Longrightarrow> read_word (pre @ le_bytes 4 w @ post) off = w"
  by (simp add: read_word_def)

lemma parse_header_bytes [simp]:
  "parse_header (header_bytes n a b c @ rest) = Inr \<lparr>mh_length = of_nat n, mh_request_id = a, mh_response_to = b, mh_op_code = c\<rparr>"
  using read_word_at [of "[]" 0 "of_nat n" "le_bytes 4 a @ le_bytes 4 b @ le_bytes 4 c @ rest"]
    read_word_at [of "le_bytes 4 (of_nat n :: 32 word)" 4 a "le_bytes 4 b @ le_bytes 4 c @ rest"]
    read_word_at [of "le_bytes 4 (of_nat n :: 32 word) @ le_bytes 4 a" 8 b "le_bytes 4 c @ rest"]
    read_word_at [of "le_bytes 4 (of_nat n :: 32 word) @ le_bytes 4 a @ le_bytes 4 b" 12 c rest]
  by (simp add: parse_header_def header_size_def header_bytes_def)

lemma usize_of_nat: "n < 2 ^ 31 \<Longrightarrow> usize_of_i32 (of_nat n) = n"
  using sint_word_of_int32 [of "int n"] by (simp add: usize_of_i32_def)

lemma raw_roundtrip:
  assumes "codec_ok X" "raw_encode_document X items = Inr body" "plain (PyDict items)" "length pre + length body < 2 ^ 64"
  shows "raw_decode_document X P (pre @ body @ post) (length pre) = Inr (items, length pre + length body)"
    and "5 \<le> length body"
proof -
  from assms(2) obtain d where d: "pydict_to_doc items = Inr d" "x_to_vec X d = Some body"
    by (auto simp: raw_encode_document_def)
  have b: "x_from_reader X body = Some d" "5 \<le> length body" "length body < 2 ^ 31"
      "take 4 body = le_bytes 4 (of_nat (length body) :: 32 word)"
    using assms(1) d(2) by (auto simp: codec_ok_def)
  then show "5 \<le> length body" by simp
  have "\<exists>d. pydict_to_doc items = Inr d \<and> doc_to_pydict X P d = Inr items"
    using assms(3) py_bson_roundtrip_dict by blast
  then have rt: "doc_to_pydict X P d = Inr items" using d(1) by simp
  have "read_word (pre @ body @ post) (length pre) = of_nat (length body)"
    using b(2,4) by (simp add: read_word_def)
  then have len: "usize_of_i32 (read_word (pre @ body @ post) (length pre)) = length body" using usize_of_nat [OF b(3)] by simp
  have add: "usize_add (length pre) (length body) = length pre + length body" using assms(4) by (simp add: usize_add_def)
  show "raw_decode_document X P (pre @ body @ post) (length pre) = Inr (items, length pre + length body)"
    using b(1,2) rt by (simp add: raw_decode_document_def Let_def len add slice_def)
qed

lemma decode_body_section:
  assumes "codec_ok X" "raw_encode_document X items = Inr body" "plain (PyDict items)" "length pre = 20" "20 + 1 + length body < 2 ^ 31"
  shows "decode_sections X P (pre @ 0 # body @ post) 20 (21 + length body) (None, []) = Inr (Some items, [])"
proof -
  let ?data = "pre @ 0 # body @ post"
  have r: "raw_decode_document X P ?data 21 = Inr (items, 21 + length body)"
    using raw_roundtrip(1) [OF assms(1-3), of "pre @ [0]" P post] assms(4,5) by simp
  have "?data ! 20 = 0" using assms(4) by (simp add: nth_append)
  then show ?thesis using r assms(4)
    by (simp add: decode_sections.simps [of X P ?data 20] decode_sections.simps [of X P ?data "21 + length body"])
qed

text \<open>
  C29. Decoding an encoded message returns its ids, its flags and its body, with and without a
  checksum, for every body of plain Python values, when the codec of documents keeps its promise.
\<close>

theorem wire_msg_roundtrip:
  assumes "codec_ok X" and "plain (PyDict items)"
    and "encode_msg X W request_id response_to items include_checksum = Inr msg" and "length msg < 2 ^ 31"
  shows "decode_msg X P W msg =
    Inr (\<lparr>mh_length = of_nat (length msg), mh_request_id = request_id, mh_response_to = response_to, mh_op_code = op_msg\<rparr>,
      (if include_checksum then 1 else 0), Some items, [])"
proof -
  from assms(3) obtain body where body: "raw_encode_document X items = Inr body" by (auto simp: encode_msg_def)
  define flag where "flag = (if include_checksum then 1 else 0 :: 32 word)"
  define n where "n = 21 + length body + (if include_checksum then 4 else 0)"
  define pre where "pre = header_bytes n request_id response_to op_msg @ le_bytes 4 flag"
  define post where "post = (if include_checksum then le_bytes 4 (we_crc32c W (pre @ 0 # body)) else [])"
  have pre: "length pre = 20" by (simp add: pre_def)
  have msg: "msg = pre @ 0 # body @ post"
    using assms(3) by (auto simp: encode_msg_def body Let_def pre_def post_def n_def flag_def header_size_def)
  have n: "length msg = n" by (simp add: msg pre n_def post_def)
  have hdr: "parse_header msg = Inr \<lparr>mh_length = of_nat n, mh_request_id = request_id, mh_response_to = response_to, mh_op_code = op_msg\<rparr>"
    by (simp add: msg pre_def)
  have flags: "read_word msg 16 = flag"
    using read_word_at [of "header_bytes n request_id response_to op_msg" 16 flag "0 # body @ post"] by (simp add: msg pre_def)
  have len: "usize_of_i32 (of_nat n) = n" using usize_of_nat [of n] assms(4) n by simp
  have stop: "usize_sub n (if include_checksum then 4 else 0) = 21 + length body"
    using assms(4) n by (auto simp: usize_sub_def n_def)
  have secs: "decode_sections X P msg 20 (21 + length body) (None, []) = Inr (Some items, [])"
    using decode_body_section [OF assms(1) body assms(2) pre, of P post] assms(4) n by (simp add: msg n_def)
  have check: "validate_checksum W msg n = Inr ()" if include_checksum
  proof -
    have "read_word msg (n - 4) = we_crc32c W (pre @ 0 # body)"
      using that pre read_word_at [of "pre @ 0 # body" "n - 4" "we_crc32c W (pre @ 0 # body)" "[]"] by (simp add: msg post_def n_def)
    moreover have "take (n - 4) msg = pre @ 0 # body" using that pre by (simp add: msg n_def)
    ultimately show ?thesis using n that by (simp add: validate_checksum_def n_def Let_def ensure_def)
  qed
  have "flag AND 1 \<noteq> 0 \<longleftrightarrow> include_checksum" by (simp add: flag_def)
  moreover have "\<not> n < 20" by (simp add: n_def)
  ultimately show ?thesis using check hdr flags len stop secs n
    by (cases include_checksum) (simp_all add: decode_msg_def header_size_def Let_def flag_def)
qed

lemma known_cases: "cid \<noteq> 0 \<Longrightarrow> compress W cid d = Inr c \<Longrightarrow> known_compressor cid"
  by (simp add: compress_def split: if_splits)

text \<open>
  C30. Decompressing a compressed message returns the message, for every compressor whose library
  inverts its own output, as long as the message is within the size limit.
\<close>

theorem wire_compressed_roundtrip:
  assumes "encode_compressed W (header_bytes (16 + length inner) request_id response_to op @ inner) compressor_id = Inr msg"
    and "\<forall>cid raw out. we_compress W cid raw = Inr out \<longrightarrow> we_decompress W cid out = Inr raw"
    and "length inner \<le> max_msg_size" and "length msg < 2 ^ 31"
  shows "decode_compressed W msg = Inr (header_bytes (16 + length inner) request_id response_to op @ inner)"
proof -
  define cid where "cid = (ucast compressor_id :: byte)"
  from assms(1) obtain c where c: "compress W cid inner = Inr c"
    by (auto simp: encode_compressed_def Let_def header_size_def cid_def)
  define n where "n = 25 + length c"
  define pre where "pre = header_bytes n request_id response_to op_compressed"
  have msg: "msg = pre @ le_bytes 4 op @ le_bytes 4 (of_nat (length inner) :: 32 word) @ cid # c"
    using assms(1) c by (simp add: encode_compressed_def Let_def header_size_def cid_def pre_def n_def)
  have n: "length msg = n" by (simp add: msg pre_def n_def)
  have size: "usize_of_i32 (of_nat (length inner)) = length inner" "usize_of_i32 (of_nat n) = n"
    using usize_of_nat assms(3,4) n by (auto simp: max_msg_size_def)
  have ops: "read_word msg 16 = op" "read_word msg 20 = of_nat (length inner)"
    using read_word_at [of pre 16 op "le_bytes 4 (of_nat (length inner) :: 32 word) @ cid # c"]
      read_word_at [of "pre @ le_bytes 4 op" 20 "of_nat (length inner)" "cid # c"] by (simp_all add: msg pre_def)
  have at: "msg ! 24 = cid" by (simp add: msg pre_def nth_append)
  have sl: "slice msg 25 n = Inr c" by (simp add: slice_def n) (simp add: msg pre_def n_def)
  have "decompress W cid c (length inner) = Inr inner"
    using c assms(2,3) known_cases [of cid W inner c] by (auto simp: decompress_def compress_def split: if_splits)
  then show ?thesis using ops at sl size n
    by (simp add: decode_compressed_def header_size_def Let_def) (simp add: msg pre_def n_def)
qed

text \<open>
  Reading a document never returns for a negative length: when the length takes the end of the
  document back to an offset of the message before its start, the decoder panics, and every other negative length is
  reported as truncated.
\<close>

theorem negative_length_panics:
  assumes "offset + 4 \<le> length data" and "length data < 2 ^ 63" and "sint (read_word data offset) < 0"
  shows "raw_decode_document X P data offset =
    (if 0 \<le> int offset + sint (read_word data offset) then Inl Panic else Inl (BsonDecodeError ''truncated''))"
proof -
  obtain k where k: "sint (read_word data offset) = - int k" "0 < k" "k \<le> 2 ^ 31"
  proof -
    have "nat (- sint (read_word data offset)) \<le> 2 ^ 31" using sint32_bounds(1) [of "read_word data offset"] by simp
    then show ?thesis using assms(3) by (intro that [of "nat (- sint (read_word data offset))"]) simp_all
  qed
  have "nat ((- int k) mod 2 ^ 64) = 2 ^ 64 - k"
    using k(2,3) by (simp add: zmod_zminus1_eq_if nat_diff_distrib)
  then have len: "usize_of_i32 (read_word data offset) = 2 ^ 64 - k" by (simp add: usize_of_i32_def k(1))
  have big: "\<not> 2 ^ 64 - k < 5" using k(3) by simp
  show ?thesis
  proof (cases "k \<le> offset")
    case True
    have "offset + (2 ^ 64 - k) = (offset - k) + 2 ^ 64" using True k(3) by simp
    moreover have "offset - k < 2 ^ 64" using assms(1,2) by simp
    ultimately have add: "usize_add offset (2 ^ 64 - k) = offset - k" by (simp add: usize_add_def)
    have "slice data offset (offset - k) = Inl Panic" unfolding slice_def using True k(2) by auto
    then show ?thesis using assms(1) True k(1) big
      unfolding raw_decode_document_def Let_def len add by simp
  next
    case False
    have add: "usize_add offset (2 ^ 64 - k) = offset + (2 ^ 64 - k)"
      using False k(3) by (simp add: usize_add_def)
    have "length data < offset + (2 ^ 64 - k)" using assms(2) k(3) by simp
    then show ?thesis using assms(1) False k big
      unfolding raw_decode_document_def Let_def len add by simp
  qed
qed

section \<open>Examples\<close>

text \<open>A checksum and compressors that copy.\<close>

definition sample_wire_env :: wire_env where
  "sample_wire_env = \<lparr>we_crc32c = (\<lambda>_. 7), we_compress = (\<lambda>_. Inr), we_decompress = (\<lambda>_. Inr)\<rparr>"

theorem wire_msg_roundtrip_witness:
  "decode_msg sample_codec sample_py_env sample_wire_env
     (header_bytes 30 1 2 op_msg @ le_bytes 4 (1 :: 32 word) @ 0 # (le_bytes 4 (5 :: 32 word) @ [0]) @ le_bytes 4 (7 :: 32 word)) =
   Inr (\<lparr>mh_length = of_nat (length (header_bytes 30 1 2 op_msg @ le_bytes 4 (1 :: 32 word) @ 0 # (le_bytes 4 (5 :: 32 word) @ [0]) @ le_bytes 4 (7 :: 32 word))),
     mh_request_id = 1, mh_response_to = 2, mh_op_code = op_msg\<rparr>, (if True then 1 else 0), Some [], [])"
  by (rule wire_msg_roundtrip [OF sample_codec_ok])
    (simp_all add: encode_msg_def raw_encode_document_def pydict_to_doc.simps sample_codec_def sample_wire_env_def header_size_def)

theorem wire_compressed_roundtrip_witness:
  "decode_compressed sample_wire_env (header_bytes 27 1 2 op_compressed @ le_bytes 4 op_msg @ le_bytes 4 (2 :: 32 word) @ 2 # [7, 8]) =
   Inr (header_bytes (16 + length [7 :: byte, 8]) 1 2 op_msg @ [7, 8])"
  by (rule wire_compressed_roundtrip [where compressor_id = 2])
    (simp_all add: encode_compressed_def compress_def known_compressor_def sample_wire_env_def header_size_def max_msg_size_def)

theorem negative_length_panics_witness:
  "raw_decode_document sample_codec sample_py_env (replicate 21 0 @ le_bytes 4 (- 1 :: 32 word) @ []) 21 =
    (if 0 \<le> int 21 + sint (read_word (replicate 21 0 @ le_bytes 4 (- 1 :: 32 word) @ []) 21) then Inl Panic
     else Inl (BsonDecodeError ''truncated''))"
  using read_word_at [of "replicate 21 0" 21 "- 1" "[]"] by (intro negative_length_panics) simp_all

end
