(* ===== verification/Wire_Codec.thy ===== *)
theory Wire_Codec
  imports Py_Bson
begin

text \<open>
  The boundary between driver types and engine types, \<^verbatim>\<open>smongo-py/src/wire_codec.rs\<close>: incoming object
  ids, decimals and regular expressions become engine values, outgoing object ids and \<^verbatim>\<open>_id\<close> texts that look
  like one become driver object ids, at most 100 levels deep. The float nearest to a decimal is a parameter.
\<close>

abbreviation max_depth :: nat where
  "max_depth \<equiv> 100"

definition too_deep :: string where
  "too_deep = ''document exceeds maximum nesting depth of 100''"

definition flags_text :: "py_flags \<Rightarrow> string" where
  "flags_text flags = (case flags of FlagsText s \<Rightarrow> s | FlagsInt n \<Rightarrow> if n = 0 then [] else show_int n)"

function convert_inbound :: "(bytes \<Rightarrow> f64) \<Rightarrow> py \<Rightarrow> nat \<Rightarrow> string + py" where
  "convert_inbound dec v depth =
     (if max_depth < depth then Inl too_deep
      else case v of
        PyBsonOid hex_str \<Rightarrow> res_bind (from_hex hex_str) (\<lambda>raw. Inr (PyOid raw))
      | PyDecimal128 bid text_form \<Rightarrow> Inr (PyFloat (dec bid))
      | PyRegex pattern flags \<Rightarrow>
          Inr (PyDict [(TextKey ''$regex'', PyStr pattern), (TextKey ''$options'', PyStr (flags_text flags))])
      | PyDict items \<Rightarrow> res_bind (map_res (\<lambda>(k, x). res_bind (convert_inbound dec x (depth + 1)) (\<lambda>y. Inr (k, y))) items)
          (\<lambda>items'. Inr (PyDict items'))
      | PyList xs \<Rightarrow> res_bind (map_res (\<lambda>x. convert_inbound dec x (depth + 1)) xs) (\<lambda>ys. Inr (PyList ys))
      | _ \<Rightarrow> Inr v)"
  by pat_completeness auto

termination
  by (relation "measure (\<lambda>(dec, v, depth). py_size v)") (auto dest: py_size_item py_size_value)

declare convert_inbound.simps [simp del]

definition normalize_inbound :: "(bytes \<Rightarrow> f64) \<Rightarrow> py \<Rightarrow> string + py" where
  "normalize_inbound dec v = (case v of
     PyDict items \<Rightarrow> res_bind (map_res (\<lambda>(k, x). res_bind (convert_inbound dec x 1) (\<lambda>y. Inr (k, y))) items) (\<lambda>items'. Inr (PyDict items'))
   | _ \<Rightarrow> Inr v)"

function convert_outbound :: "string option \<Rightarrow> py \<Rightarrow> nat \<Rightarrow> string + py" where
  "convert_outbound key v depth =
     (if max_depth < depth then Inl too_deep
      else case v of
        PyOid raw \<Rightarrow> Inr (PyBsonOid (to_hex raw))
      | PyStr s \<Rightarrow> Inr (if key = Some ''_id'' \<and> is_objectid_hex s then PyBsonOid s else v)
      | PyDict items \<Rightarrow> res_bind (map_res (\<lambda>(k, x). case k of
            OtherKey \<Rightarrow> Inl ''TypeError''
          | TextKey s \<Rightarrow> res_bind (convert_outbound (Some s) x (depth + 1)) (\<lambda>y. Inr (k, y))) items)
          (\<lambda>items'. Inr (PyDict items'))
      | PyList xs \<Rightarrow> res_bind (map_res (\<lambda>x. convert_outbound None x (depth + 1)) xs) (\<lambda>ys. Inr (PyList ys))
      | _ \<Rightarrow> Inr v)"
  by pat_completeness auto

termination
  by (relation "measure (\<lambda>(key, v, depth). py_size v)") (auto dest: py_size_item py_size_value)

declare convert_outbound.simps [simp del]

definition outbound_items :: "(py_key \<times> py) list \<Rightarrow> string + (py_key \<times> py) list" where
  "outbound_items items = map_res (\<lambda>(k, x). case k of
     OtherKey \<Rightarrow> Inl ''TypeError''
   | TextKey s \<Rightarrow> res_bind (convert_outbound (Some s) x 1) (\<lambda>y. Inr (k, y))) items"

definition normalize_outbound :: "py \<Rightarrow> string + py" where
  "normalize_outbound v = (case v of PyDict items \<Rightarrow> res_bind (outbound_items items) (\<lambda>items'. Inr (PyDict items')) | _ \<Rightarrow> Inr v)"

definition normalize_outbound_docs :: "py list \<Rightarrow> string + py list" where
  "normalize_outbound_docs docs = map_res normalize_outbound docs"

section \<open>There and back\<close>

fun py_depth :: "py \<Rightarrow> nat" where
  "py_depth (PyDict items) = Suc (Max (insert 0 ((\<lambda>(_, v). py_depth v) ` set items)))"
| "py_depth (PyList xs) = Suc (Max (insert 0 (py_depth ` set xs)))"
| "py_depth _ = 0"

lemma py_depth_item: "x \<in> set xs \<Longrightarrow> py_depth x < py_depth (PyList xs)"
  by (simp add: less_Suc_eq_le)

lemma py_depth_value:
  assumes "(k, v) \<in> set items"
  shows "py_depth v < py_depth (PyDict items)"
proof -
  have "py_depth v \<in> insert 0 ((\<lambda>(_, v). py_depth v) ` set items)" using assms by force
  then show ?thesis by (simp add: less_Suc_eq_le)
qed

lemma plain_value:
  assumes "plain (PyDict items)" "(k, v) \<in> set items"
  obtains s where "k = TextKey s" "plain v" "\<not> (s = ''_id'' \<and> (case v of PyStr t \<Rightarrow> is_objectid_hex t | _ \<Rightarrow> False))"
  using assms by (cases k) fastforce+

lemma outbound_inbound:
  assumes "plain v" "depth + py_depth v \<le> max_depth" "\<not> (key = Some ''_id'' \<and> (case v of PyStr t \<Rightarrow> is_objectid_hex t | _ \<Rightarrow> False))"
  shows "\<exists>w. convert_outbound key v depth = Inr w \<and> convert_inbound dec w depth = Inr v"
  using assms
proof (induction "py_size v" arbitrary: v depth key rule: less_induct)
  case less
  show ?case
  proof (cases v)
    case (PyOid raw)
    then show ?thesis using less.prems by (simp add: convert_outbound.simps convert_inbound.simps from_hex_def)
  next
    case (PyStr s)
    then show ?thesis using less.prems by (simp add: convert_outbound.simps convert_inbound.simps)
  next
    case (PyList xs)
    have "\<exists>y. convert_outbound None x (depth + 1) = Inr y \<and> convert_inbound dec y (depth + 1) = Inr x" if "x \<in> set xs" for x
      using less.prems that py_depth_item [OF that] py_size_item [OF that] by (intro less.hyps) (auto simp: PyList)
    then obtain ys where "map_res (\<lambda>x. convert_outbound None x (depth + 1)) xs = Inr ys"
        "map_res (\<lambda>y. convert_inbound dec y (depth + 1)) ys = Inr xs"
      using map_res_inverse [of xs "\<lambda>x. convert_outbound None x (depth + 1)" "\<lambda>y. convert_inbound dec y (depth + 1)"] by blast
    then show ?thesis using less.prems by (intro exI [of _ "PyList ys"]) (simp add: PyList convert_outbound.simps [of key] convert_inbound.simps [of dec "PyList ys"])
  next
    case (PyDict items)
    let ?f = "\<lambda>(k, x). case k of OtherKey \<Rightarrow> Inl ''TypeError'' | TextKey s \<Rightarrow> res_bind (convert_outbound (Some s) x (depth + 1)) (\<lambda>y. Inr (k, y))"
    let ?g = "\<lambda>(k, x). res_bind (convert_inbound dec x (depth + 1)) (\<lambda>y. Inr (k, y))"
    have "\<exists>y. ?f x = Inr y \<and> ?g y = Inr x" if x: "x \<in> set items" for x
    proof -
      obtain k w where kw: "x = (k, w)" by (cases x)
      obtain s where s: "k = TextKey s" "plain w" "\<not> (s = ''_id'' \<and> (case w of PyStr t \<Rightarrow> is_objectid_hex t | _ \<Rightarrow> False))"
        using plain_value [of items k w] less.prems(1) x by (auto simp: PyDict kw)
      have "\<exists>y. convert_outbound (Some s) w (depth + 1) = Inr y \<and> convert_inbound dec y (depth + 1) = Inr w"
        using less.prems(2) s(2,3) x py_depth_value [of k w items] py_size_value [of k w items]
        by (intro less.hyps) (auto simp: PyDict kw)
      then show ?thesis using kw s(1) by auto
    qed
    then obtain ys where "map_res ?f items = Inr ys" "map_res ?g ys = Inr items" using map_res_inverse [of items ?f ?g] by blast
    then show ?thesis using less.prems by (intro exI [of _ "PyDict ys"]) (simp add: PyDict convert_outbound.simps [of key] convert_inbound.simps [of dec "PyDict ys"])
  qed (use less.prems in \<open>auto simp: convert_outbound.simps convert_inbound.simps\<close>)
qed

lemma too_deep_rejected:
  "depth = max_depth + 1 \<Longrightarrow> convert_inbound dec v depth = Inl too_deep \<and> convert_outbound key v depth = Inl too_deep"
  by (simp add: convert_inbound.simps convert_outbound.simps)



end
