(* ===== verification/Spec2Isabelle.thy ===== *)
theory Spec2Isabelle
  imports Paths Query_Props Expr_Props Update_Props Redb Schema Planner_Props Bitmap_Index Text_Index
    Pipeline_Props Locking Cursors Sessions Rbac Wire_Msg Wire_Codec
begin

text \<open>
  A verification development for smongo, an embeddable document database that speaks the language and the
  wire protocol of MongoDB.

  \<^bold>\<open>The program.\<close>  The engine (\<^verbatim>\<open>src/rust/smongo-engine\<close>) stores BSON documents in ordered tables of bytes
  (\<^verbatim>\<open>storage/\<close>), keeps secondary indexes beside them (\<^verbatim>\<open>index/\<close>), plans a query (\<^verbatim>\<open>planner/\<close>), filters by it
  (\<^verbatim>\<open>query/\<close>), changes documents (\<^verbatim>\<open>update/\<close>), validates them (\<^verbatim>\<open>schema.rs\<close>) and runs aggregation pipelines
  (\<^verbatim>\<open>aggregation/\<close>).  The Python extension (\<^verbatim>\<open>src/rust/smongo-py\<close>) converts values, guards the engine by a
  reader-writer lock and serves the wire protocol with cursors, sessions, transactions and roles.

  \<^bold>\<open>Foundations.\<close>  \<open>Prelude\<close> has fallible computations (\<^verbatim>\<open>Result\<close> as a sum, the \<^verbatim>\<open>?\<close> operator as \<open>res_bind\<close>, the
  loop shapes of the sources), three-way comparison and association lists that keep the insertion order;
  \<open>Rust_Std\<close> the functions of the standard library the sources use; \<open>Ordered\<close> sorting, binary search and
  ordered maps (\<^verbatim>\<open>BTreeMap\<close>); \<open>F64\<close> and \<open>F64_Ops\<close> floating point numbers as bit patterns, with the exact
  rational they denote and correctly rounded arithmetic; \<open>Bson\<close> values, documents and the two comparisons of
  values (\<^verbatim>\<open>bson_cmp\<close> of \<^verbatim>\<open>query/mod.rs\<close>, \<^verbatim>\<open>compare_bson\<close> of \<^verbatim>\<open>aggregation/mod.rs\<close>).  \<open>Externs\<close> collects what is
  not defined in the repository.

  \<^bold>\<open>Documents.\<close>  \<open>Paths\<close> models \<^verbatim>\<open>paths.rs\<close>; \<open>Query\<close> and \<open>Query_Props\<close> the evaluator of filters with a
  reference semantics it refines; \<open>Update\<close> and \<open>Update_Props\<close> the update operators, whose common contract (a
  well-formed result, a write only at the targets) is the locale \<open>field_operator\<close>; \<open>Schema\<close> the validator
  and the meaning of a schema it decides; \<open>Collation\<close> string comparison and its sort keys.

  \<^bold>\<open>Storage and indexes.\<close>  \<open>Storage\<close> has the session and cursor interfaces as the locales \<open>session_store\<close>
  and \<open>txn_store\<close> with the in-memory backend; \<open>Redb\<close> the transactional backend over a database that is a
  parameter with its documented laws (locale \<open>redb_db\<close>).  \<open>Index\<close>, \<open>Bitmap_Index\<close> and \<open>Text_Index\<close> are the index
  structures, \<open>Planner\<close> and \<open>Planner_Props\<close> the choice among them.

  \<^bold>\<open>Aggregation.\<close>  \<open>Expressions\<close> and \<open>Expr_Props\<close> model expressions with their panics as error values;
  \<open>Accumulators\<close>, \<open>Stages\<close>, \<open>Joins\<close> and \<open>Window_Stage\<close> the stages; \<open>Spill\<close> sorting and grouping through
  temporary files; \<open>Pipeline\<close> and \<open>Pipeline_Props\<close> the streams, the dispatch, the fusion of sort and limit and
  the optimiser.  A stream is the list of the results it yields.  Sub-pipelines recurse with a bound on the
  nesting, which stands for the stack: \<open>Pipeline_Props\<close> shows that every bound beyond the size of the pipeline
  gives the same result.

  \<^bold>\<open>The extension.\<close>  \<open>Object_Id\<close>, \<open>Py_Bson\<close> and \<open>Wire_Codec\<close> convert values; \<open>Locking\<close> is the lock, with threads as
  an interleaving of the atomic sections of its mutex; \<open>Registry\<close> is the contract shared by \<open>Cursors\<close> and
  \<open>Sessions\<close>; \<open>Rbac\<close> the privilege check; \<open>Wire_Msg\<close> the message formats.

  \<^bold>\<open>Conventions.\<close>  A string is the list of its UTF-8 bytes; machine integers are words, and arithmetic wraps as
  in a release build; a panic is an error value where the code can panic.  Loops over a cursor or a queue
  whose end is not structural carry a bound, and a lemma shows that the bound the model passes is enough (the
  rows of the table for \<open>cursor_scan\<close>, the entries of the files for \<open>merge_runs\<close>, the documents for the breadth-first
  search of \<^verbatim>\<open>$graphLookup\<close>).  Functions of other crates, Unicode tables, the clock, random numbers and the
  orders the standard library leaves open are fields of the records \<open>externs\<close>, \<open>py_env\<close> and \<open>wire_env\<close>; theorems that
  rely on one of them say so in a hypothesis, and the witnesses instantiate them.

  \<^bold>\<open>Not modelled.\<close>  The bindings for C, Node and the browser and the Python classes forward to the engine and
  convert values of a host that is not in the repository.  The query, update and aggregation engines of the extension over
  arbitrary Python objects depend on methods of those objects.  Vector search and spherical geometry are numerical
  code over other crates.  The server loop, the command handlers and the synchronisation drive sockets, threads and
  a network driver.  Errors of the file system and of the database, poisoned locks and exhausted memory are left out.
\<close>

end
